(* ===== verification/Anvil_Prelude.thy ===== *)
theory Anvil_Prelude
  imports Main "HOL-Library.Word" "HOL-Library.AList"
begin

text \<open>
  Shared ground of the development: the machine types of the Rust sources, saturating
  arithmetic, the result of a fallible handler (\<open>outcome\<close>), the standard library's
  containers (\<open>HashMap\<close>, \<open>HashSet\<close>, \<open>BTreeMap\<close>) with the interface both maps satisfy
  (locale \<open>finite_map\<close>), and decimal printing for error messages.

  \<open>U256\<close> is a 256-bit word; \<open>B256\<close> is its 32 bytes read big-endian, again a 256-bit word, so
  that \<open>U256::to_be_bytes().into()\<close> and \<open>B256::into()\<close> are the identity on this reading;
  \<open>Address\<close> is its 20 bytes read big-endian. \<open>i128\<close> values are \<open>int\<close> with the saturation
  and truncation of the source written out.
\<close>

section \<open>Types\<close>

type_synonym u8 = "8 word"
type_synonym u64 = "64 word"
type_synonym u256 = "256 word"
type_synonym address = "160 word"
type_synonym b256 = "256 word"
type_synonym bytes = "u8 list"

named_theorems wf_intros "preservation lemmas of the component invariants"

section \<open>Saturating arithmetic\<close>

definition sat_add :: "'a::len word \<Rightarrow> 'a word \<Rightarrow> 'a word" where
  "sat_add a b = (if unat a + unat b < 2 ^ LENGTH('a) then a + b else - 1)"

definition sat_sub :: "'a::len word \<Rightarrow> 'a word \<Rightarrow> 'a word" where
  "sat_sub a b = (if b \<le> a then a - b else 0)"

lemma unat_bound: "unat a < 2 ^ LENGTH('a)" for a :: "'a::len word"
  by simp

lemma unat_max: "unat (- 1 :: 'a::len word) = 2 ^ LENGTH('a) - 1"
  by (simp add: unsigned_minus_1_eq_mask mask_eq_exp_minus_1)

lemma unat_sat_add:
  "unat (sat_add a b) = min (unat a + unat b) (2 ^ LENGTH('a) - 1)" for a b :: "'a::len word"
  by (auto simp: sat_add_def unat_word_ariths unat_max)

lemma unat_sat_sub: "unat (sat_sub a b) = unat a - unat b"
  by (auto simp: sat_sub_def unat_sub word_le_nat_alt)

lemma sat_add_ge [simp]: "a \<le> sat_add a b"
  unfolding word_le_nat_alt unat_sat_add using unat_bound [of a] by linarith

lemma less_sat_add_1: "a < sat_add a 1 \<longleftrightarrow> a \<noteq> - 1" for a :: "'a::len word"
proof -
  have "a = - 1 \<longleftrightarrow> unat a = 2 ^ LENGTH('a) - 1"
    by (metis unat_max word_unat_eq_iff)
  moreover have "unat a < 2 ^ LENGTH('a)"
    by (rule unat_bound)
  moreover have "(1::nat) < 2 ^ LENGTH('a)"
    using one_less_power [of "2::nat" "LENGTH('a)"] by simp
  ultimately show ?thesis
    unfolding word_less_nat_alt unat_sat_add unsigned_1 by linarith
qed

lemma sat_add_0 [simp]: "sat_add a 0 = a"
  by (simp add: sat_add_def)

lemma sat_add_max [simp]: "sat_add (- 1) b = (- 1 :: 'a::len word)"
proof (rule word_unat_eq_iff [THEN iffD2])
  show "unat (sat_add (- 1 :: 'a word) b) = unat (- 1 :: 'a word)"
    unfolding unat_sat_add unat_max by linarith
qed

lemma sat_add_le_self: "sat_add a b \<le> a \<longleftrightarrow> b = 0 \<or> a = - 1" for a :: "'a::len word"
proof -
  have "a = - 1 \<longleftrightarrow> unat a = 2 ^ LENGTH('a) - 1" and "b = 0 \<longleftrightarrow> unat b = 0"
    by (simp_all only: word_unat_eq_iff unat_max unsigned_0)
  then show ?thesis
    unfolding word_le_nat_alt unat_sat_add using unat_bound [of a] by linarith
qed

lemma max_word_1: "max i 1 = (if i = 0 then 1 else i)" for i :: "'a::len word"
proof -
  have "\<not> i \<le> 1 \<or> i = 1" if "i \<noteq> 0"
  proof -
    have "unat i \<noteq> 0" using that by (simp add: unat_eq_0)
    then show ?thesis
      unfolding word_le_nat_alt word_unat_eq_iff unsigned_1 by linarith
  qed
  then show ?thesis by (auto simp: max_def)
qed

lemma less_sat_add_1_le: "a < b \<Longrightarrow> sat_add a 1 \<le> b" for a b :: "'a::len word"
  unfolding word_le_nat_alt word_less_nat_alt unat_sat_add by simp

lemma if_le_sat_add_1: "(if x \<le> l then sat_add l 1 else x) = max x (sat_add l 1)"
  for x l :: "'a::len word"
proof (cases "x \<le> l")
  case True
  then have "x \<le> sat_add l 1" by (rule order_trans) (rule sat_add_ge)
  with True show ?thesis by (simp add: max_absorb2)
next
  case False
  then show ?thesis by (simp add: less_sat_add_1_le max_absorb1)
qed

lemma sat_add_exact:
  "unat a + unat b < 2 ^ LENGTH('a) \<Longrightarrow> unat (sat_add a b) = unat a + unat b"
  for a b :: "'a::len word"
  by (simp add: unat_sat_add)

text \<open>The \<open>i128\<close> operations of the sources: \<open>saturating_add\<close> and the narrowing \<open>as\<close> casts.\<close>

definition i128_min :: int where "i128_min = - (2 ^ 127)"
definition i128_max :: int where "i128_max = 2 ^ 127 - 1"

definition in_i128 :: "int \<Rightarrow> bool" where
  "in_i128 x \<longleftrightarrow> i128_min \<le> x \<and> x \<le> i128_max"

definition i128_sat_add :: "int \<Rightarrow> int \<Rightarrow> int" where
  "i128_sat_add a b = max i128_min (min i128_max (a + b))"

definition as_u64 :: "int \<Rightarrow> u64" where
  "as_u64 x = word_of_int x"

definition as_i64 :: "int \<Rightarrow> int" where
  "as_i64 x = (x + 2 ^ 63) mod 2 ^ 64 - 2 ^ 63"

lemma len_64: "LENGTH(64) = 64"
  by simp

lemma two_64: "(2::int) ^ 64 = 18446744073709551616" "(2::nat) ^ 64 = 18446744073709551616"
  by simp_all

lemma in_i128_iff:
  "in_i128 x \<longleftrightarrow> - 170141183460469231731687303715884105728 \<le> x
     \<and> x \<le> 170141183460469231731687303715884105727"
  by (simp add: in_i128_def i128_min_def i128_max_def)

lemma in_i128_sat_add [simp, intro]: "in_i128 (i128_sat_add a b)"
  by (simp add: in_i128_def i128_sat_add_def i128_min_def i128_max_def)

lemma i128_sat_add_exact: "in_i128 (a + b) \<Longrightarrow> i128_sat_add a b = a + b"
  by (simp add: in_i128_def i128_sat_add_def)

lemma in_i128_u64_diff [simp, intro]: "in_i128 (uint (a :: u64) - uint (b :: u64))"
proof -
  have "0 \<le> uint a" "uint a < 18446744073709551616"
    "0 \<le> uint b" "uint b < 18446744073709551616"
    using uint_lt2p [of a] uint_lt2p [of b] by simp_all
  then show ?thesis
    unfolding in_i128_iff by linarith
qed

lemma in_i128_u64 [simp, intro]: "in_i128 (uint (a :: u64))"
  using in_i128_u64_diff [of a 0] by simp

lemma uint_as_u64: "uint (as_u64 x) = x mod 2 ^ 64"
  by (simp add: as_u64_def uint_word_of_int)

lemma uint_as_u64_exact: "0 \<le> x \<Longrightarrow> x < 2 ^ 64 \<Longrightarrow> uint (as_u64 x) = x"
  by (simp add: uint_as_u64)

lemma as_i64_exact: "- (2 ^ 63) \<le> x \<Longrightarrow> x < 2 ^ 63 \<Longrightarrow> as_i64 x = x"
  by (simp add: as_i64_def)

text \<open>
  \<open>U256::to::<u64>()\<close> and \<open>U256::to::<u128>()\<close> panic when the value does not fit:
  \<open>None\<close> is that panic.
\<close>

definition to_u64 :: "u256 \<Rightarrow> u64 option" where
  "to_u64 x = (if unat x < 2 ^ 64 then Some (ucast x) else None)"

definition to_u128 :: "u256 \<Rightarrow> 128 word option" where
  "to_u128 x = (if unat x < 2 ^ 128 then Some (ucast x) else None)"

lemma unat_ucast_u64: "unat (x :: u256) < 2 ^ 64 \<Longrightarrow> unat (ucast x :: u64) = unat x"
  by (simp add: unsigned_ucast_eq take_bit_nat_eq_self)

lemma to_u64_Some: "to_u64 x = Some y \<Longrightarrow> unat y = unat x"
  by (auto simp: to_u64_def unat_ucast_u64 split: if_splits)

lemma to_u64_None: "to_u64 x = None \<longleftrightarrow> 2 ^ 64 \<le> unat x"
  by (auto simp: to_u64_def)

section \<open>Results of fallible code\<close>

text \<open>
  A JSON-RPC error object (its code and its message), and the three ways an RPC handler
  ends: \<open>Ok\<close>, an error answer, or a panic, which ends the process under the release
  profile's \<open>panic = "abort"\<close>.
\<close>

record rpc_error =
  err_code :: int
  err_message :: string

datatype 'a outcome = Ok 'a | Err rpc_error | Panic

fun of_result :: "rpc_error + 'a \<Rightarrow> 'a outcome" where
  "of_result (Inl e) = Err e"
| "of_result (Inr x) = Ok x"

lemma of_result_eq [simp]:
  "of_result r = Ok x \<longleftrightarrow> r = Inr x" "of_result r = Err e \<longleftrightarrow> r = Inl e" "of_result r \<noteq> Panic"
  by (cases r; auto)+

text \<open>Decimal printing, as \<open>format!("{n}")\<close> does for an unsigned integer.\<close>

fun dec :: "nat \<Rightarrow> string" where
  "dec n = (if n < 10 then [char_of (48 + n)] else dec (n div 10) @ [char_of (48 + n mod 10)])"

declare dec.simps [simp del]

lemma dec_nonempty [simp]: "dec n \<noteq> []"
  by (subst dec.simps) simp

section \<open>Maps of the standard library\<close>

text \<open>
  What the client of a map relies on: reading after an insertion. Both \<open>HashMap\<close> and
  \<open>BTreeMap\<close> provide it, and a loop that inserts a list of pairs is understood once here.
\<close>

locale finite_map =
  fixes get :: "'m \<Rightarrow> 'k \<Rightarrow> 'v option"
    and ins :: "'k \<Rightarrow> 'v \<Rightarrow> 'm \<Rightarrow> 'm"
    and inv :: "'m \<Rightarrow> bool"
  assumes get_ins: "inv m \<Longrightarrow> get (ins k v m) k' = (if k' = k then Some v else get m k')"
    and inv_ins: "inv m \<Longrightarrow> inv (ins k v m)"
begin

lemma inv_fold_ins: "inv m \<Longrightarrow> inv (fold (\<lambda>(k, v). ins k v) kvs m)"
  by (induction kvs arbitrary: m) (auto simp: inv_ins)

lemma get_fold_ins:
  "inv m \<Longrightarrow> get (fold (\<lambda>(k, v). ins k v) kvs m) k =
     (case map_of (rev kvs) k of Some v \<Rightarrow> Some v | None \<Rightarrow> get m k)"
proof (induction kvs arbitrary: m)
  case Nil
  then show ?case by simp
next
  case (Cons kv kvs)
  obtain a b where "kv = (a, b)" by (cases kv)
  then show ?case
    using Cons.IH [of "ins a b m"] Cons.prems
    by (auto simp: get_ins inv_ins map_add_def split: option.splits)
qed

lemma get_fold_ins_distinct:
  assumes "inv m" and "distinct (map fst kvs)"
  shows "get (fold (\<lambda>(k, v). ins k v) kvs m) k =
     (case map_of kvs k of Some v \<Rightarrow> Some v | None \<Rightarrow> get m k)"
proof -
  have "map_of (rev kvs) = map_of kvs"
    using assms(2) by (intro map_of_inject_set [THEN iffD2]) (auto simp: rev_map [symmetric])
  with assms(1) show ?thesis by (simp add: get_fold_ins)
qed

end

subsection \<open>HashMap and HashSet\<close>

text \<open>
  A \<open>HashMap\<close> is an association list with distinct keys; its order stands for the
  unspecified iteration order. A \<open>HashSet\<close> is a list without duplicates, likewise.
\<close>

type_synonym ('k, 'v) hashmap = "('k \<times> 'v) list"
type_synonym 'k hashset = "'k list"

abbreviation hm_get :: "('k, 'v) hashmap \<Rightarrow> 'k \<Rightarrow> 'v option" where
  "hm_get m k \<equiv> map_of m k"

abbreviation hm_insert :: "'k \<Rightarrow> 'v \<Rightarrow> ('k, 'v) hashmap \<Rightarrow> ('k, 'v) hashmap" where
  "hm_insert k v m \<equiv> AList.update k v m"

abbreviation hm_remove :: "'k \<Rightarrow> ('k, 'v) hashmap \<Rightarrow> ('k, 'v) hashmap" where
  "hm_remove k m \<equiv> AList.delete k m"

abbreviation hm_wf :: "('k, 'v) hashmap \<Rightarrow> bool" where
  "hm_wf m \<equiv> distinct (map fst m)"

text \<open>\<open>entry(k).or_default()\<close> followed by a modification of the entry.\<close>

definition hm_entry :: "'v \<Rightarrow> 'k \<Rightarrow> ('v \<Rightarrow> 'v) \<Rightarrow> ('k, 'v) hashmap \<Rightarrow> ('k, 'v) hashmap" where
  "hm_entry d k f m = hm_insert k (f (case hm_get m k of None \<Rightarrow> d | Some v \<Rightarrow> v)) m"

lemma hm_get_insert [simp]: "hm_get (hm_insert k v m) k' = (if k' = k then Some v else hm_get m k')"
  by (simp add: AList.update_conv')

lemma hm_get_remove [simp]: "hm_get (hm_remove k m) k' = (if k' = k then None else hm_get m k')"
  by (simp add: AList.delete_conv')

lemma hm_wf_insert [simp, intro]: "hm_wf m \<Longrightarrow> hm_wf (hm_insert k v m)"
  by (rule AList.distinct_update)

lemma hm_wf_remove [simp, intro]: "hm_wf m \<Longrightarrow> hm_wf (hm_remove k m)"
  by (rule AList.distinct_delete)

lemma hm_wf_entry [simp, intro]: "hm_wf m \<Longrightarrow> hm_wf (hm_entry d k f m)"
  by (simp add: hm_entry_def)

lemma hm_get_entry:
  "hm_get (hm_entry d k f m) k' =
     (if k' = k then Some (f (case hm_get m k of None \<Rightarrow> d | Some v \<Rightarrow> v)) else hm_get m k')"
  by (simp add: hm_entry_def)

interpretation hm: finite_map map_of AList.update hm_wf
  by unfold_locales auto

lemma hm_get_fold_remove:
  "hm_get (fold hm_remove ks m) k = (if k \<in> set ks then None else hm_get m k)"
  by (induction ks arbitrary: m) auto

lemma hm_wf_fold_remove: "hm_wf m \<Longrightarrow> hm_wf (fold hm_remove ks m)"
  by (induction ks arbitrary: m) auto

subsection \<open>BTreeMap\<close>

text \<open>
  A \<open>BTreeMap\<close> iterates in ascending key order: an association list sorted by key, so that
  two maps with the same entries are the same list.
\<close>

type_synonym ('k, 'v) btreemap = "('k \<times> 'v) list"

fun bt_insert :: "'k::linorder \<Rightarrow> 'v \<Rightarrow> ('k, 'v) btreemap \<Rightarrow> ('k, 'v) btreemap" where
  "bt_insert k v [] = [(k, v)]"
| "bt_insert k v ((a, b) # m) =
     (if k < a then (k, v) # (a, b) # m
      else if k = a then (k, v) # m
      else (a, b) # bt_insert k v m)"

abbreviation bt_get :: "('k, 'v) btreemap \<Rightarrow> 'k \<Rightarrow> 'v option" where
  "bt_get m k \<equiv> map_of m k"

definition bt_wf :: "('k::linorder, 'v) btreemap \<Rightarrow> bool" where
  "bt_wf m \<longleftrightarrow> sorted_wrt (<) (map fst m)"

definition bt_entry ::
  "'v \<Rightarrow> 'k::linorder \<Rightarrow> ('v \<Rightarrow> 'v) \<Rightarrow> ('k, 'v) btreemap \<Rightarrow> ('k, 'v) btreemap" where
  "bt_entry d k f m = bt_insert k (f (case bt_get m k of None \<Rightarrow> d | Some v \<Rightarrow> v)) m"

definition bt_collect :: "('k::linorder \<times> 'v) list \<Rightarrow> ('k, 'v) btreemap" where
  "bt_collect kvs = fold (\<lambda>(k, v). bt_insert k v) kvs []"

lemma keys_bt_insert [simp]: "fst ` set (bt_insert k v m) = insert k (fst ` set m)"
  by (induction k v m rule: bt_insert.induct) auto

lemma bt_get_insert [simp]: "bt_get (bt_insert k v m) k' = (if k' = k then Some v else bt_get m k')"
  by (induction k v m rule: bt_insert.induct) auto

lemma bt_wf_Nil [simp]: "bt_wf []"
  by (simp add: bt_wf_def)

lemma bt_wf_Cons: "bt_wf ((a, b) # m) \<longleftrightarrow> (\<forall>x \<in> fst ` set m. a < x) \<and> bt_wf m"
  by (simp add: bt_wf_def)

lemma bt_wf_insert [simp, intro]: "bt_wf m \<Longrightarrow> bt_wf (bt_insert k v m)"
proof (induction k v m rule: bt_insert.induct)
  case (1 k v)
  show ?case by (simp add: bt_wf_def)
next
  case (2 k v a b m)
  show ?case
  proof (cases "a < k")
    case True
    with "2.IH" "2.prems" show ?thesis
      by (auto simp: bt_wf_Cons)
  next
    case False
    with "2.prems" show ?thesis
      by (auto simp: bt_wf_Cons intro: less_trans)
  qed
qed

lemma bt_wf_distinct: "bt_wf m \<Longrightarrow> distinct (map fst m)"
  by (simp add: bt_wf_def strict_sorted_iff)

lemma bt_wf_entry [simp, intro]: "bt_wf m \<Longrightarrow> bt_wf (bt_entry d k f m)"
  by (simp add: bt_entry_def)

lemma bt_get_entry:
  "bt_get (bt_entry d k f m) k' =
     (if k' = k then Some (f (case bt_get m k of None \<Rightarrow> d | Some v \<Rightarrow> v)) else bt_get m k')"
  by (simp add: bt_entry_def)

interpretation bt: finite_map map_of bt_insert bt_wf
  by unfold_locales auto

lemma bt_wf_collect [simp, intro]: "bt_wf (bt_collect kvs)"
  by (simp add: bt_collect_def bt.inv_fold_ins)

lemma bt_get_collect: "bt_get (bt_collect kvs) k = map_of (rev kvs) k"
  by (simp add: bt_collect_def bt.get_fold_ins split: option.split)

text \<open>Two well-formed \<open>BTreeMap\<close>s with the same bindings are equal.\<close>

lemma bt_ext:
  assumes "bt_wf m" and "bt_wf n" and "\<And>k. bt_get m k = bt_get n k"
  shows "m = n"
  using assms
proof (induction m arbitrary: n)
  case Nil
  then show ?case
    by (cases n) (auto dest: meta_spec [where x = "fst (hd n)"])
next
  case (Cons a m)
  obtain k v where a: "a = (k, v)" by (cases a)
  have "dom (map_of n) = dom (map_of (a # m))"
    using Cons.prems(3) by (auto simp: dom_def)
  then have keys: "fst ` set n = insert k (fst ` set m)"
    by (simp add: dom_map_of_conv_image_fst a)
  then obtain b n' where n: "n = b # n'" by (cases n) auto
  obtain k' v' where b: "b = (k', v')" by (cases b)
  have lt: "\<forall>x \<in> fst ` set m. k < x" "\<forall>x \<in> fst ` set n'. k' < x"
    using Cons.prems(1,2) by (auto simp: bt_wf_def a n b)
  have "k = k'"
  proof (rule antisym)
    have "k' \<in> insert k (fst ` set m)" and "k \<in> insert k' (fst ` set n')"
      using keys by (auto simp: n b)
    with lt show "k \<le> k'" "k' \<le> k" by (blast intro: less_imp_le)+
  qed
  moreover have "v = v'"
    using Cons.prems(3) [of k] \<open>k = k'\<close> by (simp add: a n b)
  moreover have "m = n'"
  proof (rule Cons.IH)
    show "bt_wf m" "bt_wf n'" using Cons.prems(1,2) by (auto simp: bt_wf_def a n b)
    show "bt_get m x = bt_get n' x" for x
    proof (cases "x = k")
      case True
      then have "x \<notin> fst ` set m" "x \<notin> fst ` set n'"
        using lt \<open>k = k'\<close> by auto
      then show ?thesis by (simp add: map_of_eq_None_iff [THEN iffD2])
    next
      case False
      then show ?thesis using Cons.prems(3) [of x] \<open>k = k'\<close> by (auto simp: a n b)
    qed
  qed
  ultimately show ?case by (simp add: a n b)
qed

section \<open>Repeated stateful calls\<close>

text \<open>The results of a list of calls, each on the state the one before left.\<close>

fun runs :: "('c \<Rightarrow> 's \<Rightarrow> 'a \<times> 's) \<Rightarrow> 'c list \<Rightarrow> 's \<Rightarrow> 'a list \<times> 's" where
  "runs f [] s = ([], s)"
| "runs f (c # cs) s =
     (let (x, s1) = f c s; (xs, s2) = runs f cs s1 in (x # xs, s2))"

lemma runs_Cons:
  "fst (runs f (c # cs) s) = fst (f c s) # fst (runs f cs (snd (f c s)))"
  "snd (runs f (c # cs) s) = snd (runs f cs (snd (f c s)))"
  by (simp_all add: case_prod_beta)

declare runs.simps(2) [simp del]

lemma runs_append:
  "fst (runs f (cs @ ds) s) = fst (runs f cs s) @ fst (runs f ds (snd (runs f cs s)))"
  "snd (runs f (cs @ ds) s) = snd (runs f ds (snd (runs f cs s)))"
  by (induction cs arbitrary: s) (simp_all add: runs_Cons)

text \<open>
  A cell that is written once and consumed once (\<open>Option::take\<close> behind a lock): what its
  client relies on, and that of any number of reads after a write only the first gets it.
\<close>

locale one_shot =
  fixes put :: "'v \<Rightarrow> 's \<Rightarrow> 's"
    and tk :: "'s \<Rightarrow> 'v option \<times> 's"
  assumes tk_put: "fst (tk (put v s)) = Some v"
    and tk_tk: "fst (tk (snd (tk s))) = None"
    and snd_tk_tk: "snd (tk (snd (tk s))) = snd (tk s)"
begin

lemma tks_emptied: "fst (runs (\<lambda>_. tk) us (snd (tk s))) = replicate (length us) None"
  by (induction us) (simp_all add: runs_Cons tk_tk snd_tk_tk)

lemma only_first_tk:
  "fst (runs (\<lambda>_. tk) (u # us) (put v s)) = Some v # replicate (length us) None"
  by (simp add: runs_Cons tk_put tks_emptied)

end

end
