(* ===== verification/Block_Env.thy ===== *)
theory Block_Env
  imports Anvil_Prelude
begin

text \<open>
  \<open>BlockEnvOverrides\<close> (src/src/block_env.rs): the gas limit and the coinbase are persistent,
  the next base fee is taken by the first reader. The three fields sit behind locks of
  their own; every operation touches one field, so an operation is one atomic step on the
  record. Clones of the handle share the fields: there is one record in the node.
\<close>

record block_env_overrides =
  ov_gas_limit :: "u64 option"
  ov_coinbase :: "address option"
  ov_next_base_fee :: "u64 option"

definition block_env_default :: block_env_overrides where
  "block_env_default = \<lparr>ov_gas_limit = None, ov_coinbase = None, ov_next_base_fee = None\<rparr>"

definition set_gas_limit :: "u64 \<Rightarrow> block_env_overrides \<Rightarrow> block_env_overrides" where
  "set_gas_limit limit b = b\<lparr>ov_gas_limit := Some limit\<rparr>"

definition gas_limit :: "block_env_overrides \<Rightarrow> u64 option" where
  "gas_limit b = ov_gas_limit b"

definition set_coinbase :: "address \<Rightarrow> block_env_overrides \<Rightarrow> block_env_overrides" where
  "set_coinbase a b = b\<lparr>ov_coinbase := Some a\<rparr>"

definition coinbase :: "block_env_overrides \<Rightarrow> address option" where
  "coinbase b = ov_coinbase b"

definition set_next_base_fee :: "u64 \<Rightarrow> block_env_overrides \<Rightarrow> block_env_overrides" where
  "set_next_base_fee fee b = b\<lparr>ov_next_base_fee := Some fee\<rparr>"

definition take_next_base_fee :: "block_env_overrides \<Rightarrow> u64 option \<times> block_env_overrides" where
  "take_next_base_fee b = (ov_next_base_fee b, b\<lparr>ov_next_base_fee := None\<rparr>)"

lemmas block_env_defs = set_gas_limit_def gas_limit_def set_coinbase_def coinbase_def
  set_next_base_fee_def take_next_base_fee_def

interpretation fee: one_shot set_next_base_fee take_next_base_fee
  by unfold_locales (simp_all add: block_env_defs)

lemma gas_limit_simps [simp]:
  "gas_limit (set_gas_limit g b) = Some g"
  "gas_limit (set_coinbase a b) = gas_limit b"
  "gas_limit (set_next_base_fee f b) = gas_limit b"
  "gas_limit (snd (take_next_base_fee b)) = gas_limit b"
  by (simp_all add: block_env_defs)

lemma coinbase_simps [simp]:
  "coinbase (set_coinbase a b) = Some a"
  "coinbase (set_gas_limit g b) = coinbase b"
  "coinbase (set_next_base_fee f b) = coinbase b"
  "coinbase (snd (take_next_base_fee b)) = coinbase b"
  by (simp_all add: block_env_defs)

lemma next_base_fee_simps [simp]:
  "fst (take_next_base_fee (set_next_base_fee f b)) = Some f"
  "fst (take_next_base_fee (set_gas_limit g b)) = fst (take_next_base_fee b)"
  "fst (take_next_base_fee (set_coinbase a b)) = fst (take_next_base_fee b)"
  "fst (take_next_base_fee (snd (take_next_base_fee b))) = None"
  by (simp_all add: block_env_defs)

end
