(* ===== verification/Time_Manager.thy ===== *)
theory Time_Manager
  imports Block_Env
begin

text \<open>
  \<open>TimeManager\<close> (src/src/time.rs): the offset from the wall clock, the timestamp of the last
  mined block, the exact timestamp asked for the next block and the interval between
  blocks. Each operation is modelled as one step on the record (what it does when no other
  thread runs in between; the interleavings of the separate locks are in the theory
  \<open>Time_Race\<close>). The wall clock is an argument: \<open>now\<close> is the number of seconds that
  \<open>duration_since_unix_epoch().as_secs()\<close> returned in that call.
\<close>

section \<open>State and operations\<close>

record time_manager =
  tm_offset :: int
  last_timestamp :: u64
  next_exact_timestamp :: "u64 option"
  tm_interval :: "u64 option"

text \<open>
  A \<open>SystemTime\<close> is its distance from the epoch in nanoseconds; a time before the epoch
  makes \<open>duration_since\<close> fail and the function panic (\<open>None\<close>).
\<close>

definition duration_since_unix_epoch :: "int \<Rightarrow> u64 option" where
  "duration_since_unix_epoch t = (if t < 0 then None else Some (word_of_int (t div 10 ^ 9)))"

definition reset :: "u64 \<Rightarrow> u64 \<Rightarrow> time_manager \<Rightarrow> time_manager" where
  "reset now start tm =
     tm\<lparr>last_timestamp := start,
        tm_offset := uint start - uint now,
        next_exact_timestamp := None\<rparr>"

definition new_time_manager :: "u64 \<Rightarrow> u64 \<Rightarrow> time_manager" where
  "new_time_manager now start =
     reset now start
       \<lparr>tm_offset = 0, last_timestamp = 0, next_exact_timestamp = None, tm_interval = None\<rparr>"

text \<open>\<open>Default\<close> reads the clock for the start value and \<open>reset\<close> reads it again.\<close>

definition default_time_manager :: "u64 \<Rightarrow> u64 \<Rightarrow> time_manager" where
  "default_time_manager now1 now2 = new_time_manager now2 now1"

definition set_time :: "u64 \<Rightarrow> u64 \<Rightarrow> time_manager \<Rightarrow> time_manager" where
  "set_time now timestamp tm = reset now timestamp tm"

definition add_offset :: "int \<Rightarrow> time_manager \<Rightarrow> int \<times> time_manager" where
  "add_offset d tm =
     (let nxt = i128_sat_add (tm_offset tm) d in (nxt, tm\<lparr>tm_offset := nxt\<rparr>))"

definition increase_time :: "u64 \<Rightarrow> time_manager \<Rightarrow> int \<times> time_manager" where
  "increase_time seconds tm = add_offset (uint seconds) tm"

definition timestamp_error :: "u64 \<Rightarrow> string" where
  "timestamp_error t =
     dec (unat t) @ '' is lower than previous block'' @ [CHR 0x27] @ ''s timestamp''"

definition set_next_block_timestamp :: "u64 \<Rightarrow> time_manager \<Rightarrow> string + time_manager" where
  "set_next_block_timestamp t tm =
     (if t < last_timestamp tm then Inl (timestamp_error t)
      else Inr (tm\<lparr>next_exact_timestamp := Some t\<rparr>))"

definition set_block_timestamp_interval :: "u64 \<Rightarrow> time_manager \<Rightarrow> time_manager" where
  "set_block_timestamp_interval i tm = tm\<lparr>tm_interval := Some i\<rparr>"

definition interval :: "time_manager \<Rightarrow> u64 option" where
  "interval tm = tm_interval tm"

definition remove_block_timestamp_interval :: "time_manager \<Rightarrow> bool \<times> time_manager" where
  "remove_block_timestamp_interval tm = (tm_interval tm \<noteq> None, tm\<lparr>tm_interval := None\<rparr>)"

definition compute_next_timestamp :: "u64 \<Rightarrow> time_manager \<Rightarrow> u64 \<times> int option" where
  "compute_next_timestamp now tm =
     (let last = last_timestamp tm;
          (nxt, update_offset, exact) =
            (case next_exact_timestamp tm of
               Some t \<Rightarrow> (t, True, True)
             | None \<Rightarrow>
                 (case tm_interval tm of
                    Some i \<Rightarrow> (sat_add last i, False, False)
                  | None \<Rightarrow> (as_u64 (i128_sat_add (uint now) (tm_offset tm)), False, False)));
          nxt' =
            (if exact then (if nxt < last then sat_add last 1 else nxt)
             else if nxt \<le> last then sat_add last 1
             else nxt)
      in (nxt', if update_offset then Some (uint nxt' - uint now) else None))"

definition next_timestamp :: "u64 \<Rightarrow> time_manager \<Rightarrow> u64 \<times> time_manager" where
  "next_timestamp now tm =
     (let (nxt, next_offset) = compute_next_timestamp now tm;
          tm1 = tm\<lparr>next_exact_timestamp := None\<rparr>;
          tm2 = (case next_offset of Some d \<Rightarrow> tm1\<lparr>tm_offset := d\<rparr> | None \<Rightarrow> tm1)
      in (nxt, tm2\<lparr>last_timestamp := nxt\<rparr>))"

definition current_call_timestamp :: "u64 \<Rightarrow> time_manager \<Rightarrow> u64" where
  "current_call_timestamp now tm = fst (compute_next_timestamp now tm)"

text \<open>
  The hook on the payload attributes of the local miner: it consumes the next timestamp
  and applies the coinbase override. The attributes' other fields are the extension of
  the record, which the hook leaves alone.
\<close>

record payload_attributes =
  pa_timestamp :: u64
  pa_suggested_fee_recipient :: address

definition payload_attributes_hook ::
  "u64 \<Rightarrow> block_env_overrides \<Rightarrow> 'r payload_attributes_scheme \<Rightarrow> time_manager
     \<Rightarrow> 'r payload_attributes_scheme \<times> time_manager" where
  "payload_attributes_hook now block_env attributes tm =
     (let (t, tm') = next_timestamp now tm;
          attributes1 = attributes\<lparr>pa_timestamp := t\<rparr>
      in (case coinbase block_env of
            Some a \<Rightarrow> (attributes1\<lparr>pa_suggested_fee_recipient := a\<rparr>, tm')
          | None \<Rightarrow> (attributes1, tm')))"

section \<open>Reference definition of the next timestamp\<close>

text \<open>
  What the three sources of a timestamp come to, given that a requested exact timestamp is
  not below the last block: the request itself, the last timestamp plus a non-zero
  interval, or the shifted clock pushed above the last timestamp.
\<close>

definition expected_timestamp :: "u64 \<Rightarrow> time_manager \<Rightarrow> u64" where
  "expected_timestamp now tm =
     (case next_exact_timestamp tm of
        Some t \<Rightarrow> t
      | None \<Rightarrow>
          (case tm_interval tm of
             Some i \<Rightarrow> sat_add (last_timestamp tm) (max i 1)
           | None \<Rightarrow> max (as_u64 (i128_sat_add (uint now) (tm_offset tm)))
                        (sat_add (last_timestamp tm) 1)))"

text \<open>The component invariant: a pending request is not in the past, and the offset is an \<open>i128\<close>.\<close>

definition tm_wf :: "time_manager \<Rightarrow> bool" where
  "tm_wf tm \<longleftrightarrow>
     (\<forall>t. next_exact_timestamp tm = Some t \<longrightarrow> last_timestamp tm \<le> t) \<and> in_i128 (tm_offset tm)"

section \<open>The clock interface\<close>

text \<open>
  What the miner relies on: a source of block timestamps never goes below the timestamp it
  handed out last. Any run of such a source is a sorted list.
\<close>

locale block_clock =
  fixes tick :: "'c \<Rightarrow> 's \<Rightarrow> 'w::linorder \<times> 's"
    and lst :: "'s \<Rightarrow> 'w"
    and ok :: "'s \<Rightarrow> bool"
  assumes tick_last: "lst (snd (tick c s)) = fst (tick c s)"
    and tick_ge: "lst s \<le> fst (tick c s)"
    and tick_ok: "ok s \<Longrightarrow> ok (snd (tick c s))"
begin

lemma ticks_sorted: "sorted (lst s # fst (runs tick cs s))"
proof (induction cs arbitrary: s)
  case Nil
  show ?case by simp
next
  case (Cons c cs)
  have "sorted (fst (tick c s) # fst (runs tick cs (snd (tick c s))))"
    using Cons.IH [of "snd (tick c s)"] by (simp only: tick_last)
  then show ?case
    using tick_ge [of s c] by (auto simp: runs_Cons intro: order_trans)
qed

lemma ticks_ok: "ok s \<Longrightarrow> ok (snd (runs tick cs s))"
  by (induction cs arbitrary: s) (simp_all add: runs_Cons tick_ok)

end

section \<open>Lemmas of the component\<close>

lemmas time_defs = reset_def set_time_def add_offset_def increase_time_def
  set_next_block_timestamp_def set_block_timestamp_interval_def
  remove_block_timestamp_interval_def

lemma compute_eq_expected:
  assumes "tm_wf tm"
  shows "fst (compute_next_timestamp now tm) = expected_timestamp now tm"
proof (cases "next_exact_timestamp tm")
  case (Some t)
  with assms show ?thesis
    by (auto simp: compute_next_timestamp_def expected_timestamp_def tm_wf_def Let_def)
next
  case None
  show ?thesis
  proof (cases "tm_interval tm")
    case (Some i)
    then show ?thesis
      using None
      by (auto simp: compute_next_timestamp_def expected_timestamp_def sat_add_le_self
          max_word_1 Let_def)
  next
    case None': None
    show ?thesis
      using None None'
      by (simp add: compute_next_timestamp_def expected_timestamp_def Let_def if_le_sat_add_1)
  qed
qed

lemma compute_ge: "last_timestamp tm \<le> fst (compute_next_timestamp now tm)"
  by (auto simp: compute_next_timestamp_def Let_def split: option.splits)

lemma compute_gt:
  "next_exact_timestamp tm = None \<Longrightarrow> last_timestamp tm \<noteq> - 1 \<Longrightarrow>
     last_timestamp tm < fst (compute_next_timestamp now tm)"
  by (auto simp: compute_next_timestamp_def Let_def less_sat_add_1 split: option.splits)

lemma snd_compute:
  "snd (compute_next_timestamp now tm) =
     map_option (\<lambda>_. uint (fst (compute_next_timestamp now tm)) - uint now)
       (next_exact_timestamp tm)"
  by (auto simp: compute_next_timestamp_def Let_def split: option.splits)

lemma next_timestamp_fields:
  "fst (next_timestamp now tm) = fst (compute_next_timestamp now tm)"
  "last_timestamp (snd (next_timestamp now tm)) = fst (compute_next_timestamp now tm)"
  "next_exact_timestamp (snd (next_timestamp now tm)) = None"
  "tm_interval (snd (next_timestamp now tm)) = tm_interval tm"
  "tm_offset (snd (next_timestamp now tm)) =
     (case next_exact_timestamp tm of
        Some _ \<Rightarrow> uint (fst (compute_next_timestamp now tm)) - uint now
      | None \<Rightarrow> tm_offset tm)"
  by (auto simp: next_timestamp_def case_prod_beta snd_compute Let_def split: option.splits)

subsection \<open>The invariant\<close>

lemma tm_wf_new [wf_intros]: "tm_wf (new_time_manager now start)"
  by (simp add: tm_wf_def new_time_manager_def reset_def)

lemma tm_wf_set_time [wf_intros]: "tm_wf (set_time now t tm)"
  by (simp add: tm_wf_def set_time_def reset_def)

lemma tm_wf_increase_time [wf_intros]: "tm_wf tm \<Longrightarrow> tm_wf (snd (increase_time s tm))"
  by (simp add: tm_wf_def increase_time_def add_offset_def Let_def)

lemma tm_wf_set_next [wf_intros]:
  "tm_wf tm \<Longrightarrow> set_next_block_timestamp t tm = Inr tm' \<Longrightarrow> tm_wf tm'"
  by (auto simp: tm_wf_def set_next_block_timestamp_def split: if_splits)

lemma tm_wf_set_interval [wf_intros]: "tm_wf tm \<Longrightarrow> tm_wf (set_block_timestamp_interval i tm)"
  by (simp add: tm_wf_def set_block_timestamp_interval_def)

lemma tm_wf_remove_interval [wf_intros]:
  "tm_wf tm \<Longrightarrow> tm_wf (snd (remove_block_timestamp_interval tm))"
  by (simp add: tm_wf_def remove_block_timestamp_interval_def)

lemma tm_wf_next [wf_intros]: "tm_wf tm \<Longrightarrow> tm_wf (snd (next_timestamp now tm))"
  by (auto simp: tm_wf_def next_timestamp_fields split: option.splits)

interpretation clock: block_clock next_timestamp last_timestamp tm_wf
  by unfold_locales (simp_all add: next_timestamp_fields compute_ge tm_wf_next)

text \<open>The calls a node makes on its time manager, for statements about any sequence of them.\<close>

datatype time_call =
    SetTime u64 u64
  | IncreaseTime u64
  | SetNextBlockTimestamp u64
  | SetInterval u64
  | RemoveInterval
  | NextTimestamp u64

fun time_exec :: "time_call \<Rightarrow> time_manager \<Rightarrow> time_manager" where
  "time_exec (SetTime now t) tm = set_time now t tm"
| "time_exec (IncreaseTime s) tm = snd (increase_time s tm)"
| "time_exec (SetNextBlockTimestamp t) tm =
     (case set_next_block_timestamp t tm of Inl _ \<Rightarrow> tm | Inr tm' \<Rightarrow> tm')"
| "time_exec (SetInterval i) tm = set_block_timestamp_interval i tm"
| "time_exec RemoveInterval tm = snd (remove_block_timestamp_interval tm)"
| "time_exec (NextTimestamp now) tm = snd (next_timestamp now tm)"

fun keeps_request :: "time_call \<Rightarrow> bool" where
  "keeps_request (IncreaseTime _) = True"
| "keeps_request (SetInterval _) = True"
| "keeps_request RemoveInterval = True"
| "keeps_request _ = False"

lemma tm_wf_time_exec [wf_intros]: "tm_wf tm \<Longrightarrow> tm_wf (time_exec c tm)"
  by (cases c) (auto intro: wf_intros split: sum.split)

lemma tm_wf_time_execs: "tm_wf tm \<Longrightarrow> tm_wf (fold time_exec cs tm)"
  by (induction cs arbitrary: tm) (simp_all add: tm_wf_time_exec)

lemma keeps_request_frame:
  "list_all keeps_request cs \<Longrightarrow>
     next_exact_timestamp (fold time_exec cs tm) = next_exact_timestamp tm \<and>
     last_timestamp (fold time_exec cs tm) = last_timestamp tm"
proof (induction cs arbitrary: tm)
  case Nil
  show ?case by simp
next
  case (Cons c cs)
  then show ?case by (cases c) (simp_all add: time_defs Let_def)
qed

subsection \<open>The clock between requests\<close>

lemma next_timestamp_clock:
  assumes "next_exact_timestamp tm = None" and "tm_interval tm = None"
    and "0 \<le> uint now + tm_offset tm" and "uint now + tm_offset tm < 2 ^ 64"
  shows "fst (next_timestamp now tm) =
    max (word_of_int (uint now + tm_offset tm)) (sat_add (last_timestamp tm) 1)"
proof -
  have "in_i128 (uint now + tm_offset tm)"
    using assms(3,4) unfolding in_i128_iff by simp
  then show ?thesis
    using assms(1,2)
    by (simp add: next_timestamp_fields compute_next_timestamp_def i128_sat_add_exact
        as_u64_def Let_def if_le_sat_add_1)
qed

text \<open>
  After the clock has been pinned to \<open>t\<close> at wall-clock second \<open>now\<close>, it runs on from there: at
  \<open>now'\<close> the next block is \<open>now' - now\<close> seconds later, and at least one.
\<close>

lemma pinned_clock_runs_on:
  assumes "next_exact_timestamp tm = None" and "tm_interval tm = None"
    and "last_timestamp tm = t" and "tm_offset tm = uint t - uint now"
    and "now \<le> now'" and "unat t + (unat now' - unat now) < 2 ^ 64 - 1"
  shows "unat (fst (next_timestamp now' tm)) = unat t + max 1 (unat now' - unat now)"
proof -
  define n where "n = unat t + (unat now' - unat now)"
  let ?x = "uint now' + tm_offset tm"
  have n: "n < 2 ^ 64 - 1" using assms(6) by (simp add: n_def)
  have x: "?x = int n"
    using assms(4,5) unfolding uint_nat word_le_nat_alt n_def by (simp only: of_nat_add of_nat_diff)
  have bnd: "0 \<le> ?x" "?x < 2 ^ 64"
    using n by (simp_all add: x)
  define w :: u64 where "w = word_of_int ?x"
  have u: "unat w = n"
    using n by (simp add: w_def x unat_of_nat)
  have v: "unat (sat_add t 1) = unat t + 1"
    using n by (simp add: unat_sat_add n_def)
  have "unat (max a b) = max (unat a) (unat b)" for a b :: u64
    by (simp add: max_def word_le_nat_alt)
  moreover have "fst (next_timestamp now' tm) = max w (sat_add t 1)"
    unfolding w_def assms(3) [symmetric] by (rule next_timestamp_clock [OF assms(1,2) bnd])
  ultimately show ?thesis by (simp add: u v n_def max_def)
qed

lemma runs_strict:
  "next_exact_timestamp tm = None \<Longrightarrow>
     sorted_wrt (\<lambda>a b. a < b \<or> b = - 1) (last_timestamp tm # fst (runs next_timestamp nows tm))"
proof (induction nows arbitrary: tm)
  case Nil
  show ?case by simp
next
  case (Cons now nows)
  let ?tm = "snd (next_timestamp now tm)"
  have rest: "sorted_wrt (\<lambda>a b. a < b \<or> b = - 1)
      (fst (next_timestamp now tm) # fst (runs next_timestamp nows ?tm))"
    using Cons.IH [of ?tm] by (simp add: next_timestamp_fields)
  have "last_timestamp tm < x \<or> x = - 1"
    if "x \<in> set (fst (next_timestamp now tm) # fst (runs next_timestamp nows ?tm))" for x
  proof -
    have "sorted (last_timestamp tm # fst (runs next_timestamp (now # nows) tm))"
      by (rule clock.ticks_sorted)
    then have ge: "fst (next_timestamp now tm) \<le> x" "last_timestamp tm \<le> x"
      using that by (auto simp: runs_Cons)
    show ?thesis
    proof (cases "last_timestamp tm = - 1")
      case True
      with ge(2) show ?thesis by (simp add: word_order.extremum_unique)
    next
      case False
      then have "last_timestamp tm < fst (next_timestamp now tm)"
        using compute_gt [OF Cons.prems] by (simp add: next_timestamp_fields)
      with ge(1) show ?thesis by (auto intro: less_le_trans)
    qed
  qed
  with rest show ?case by (simp add: runs_Cons)
qed

section \<open>Properties\<close>

text \<open>
  C1: In a state that satisfies the component's invariant, the code's nested choice of the
  next block's timestamp computes the reference value: an exact request is used as it is,
  otherwise the interval (at least one second) is added to the last timestamp, otherwise
  the shifted clock is used, pushed above the last timestamp; taking it records it as the
  last timestamp, consumes the request, rebases the offset only for a request, and keeps
  the interval.
\<close>

theorem next_timestamp_correct:
  assumes "tm_wf tm"
  shows "next_timestamp now tm =
    (expected_timestamp now tm,
     tm\<lparr>last_timestamp := expected_timestamp now tm,
        next_exact_timestamp := None,
        tm_offset := (if next_exact_timestamp tm = None then tm_offset tm
                      else uint (expected_timestamp now tm) - uint now)\<rparr>)"
  using compute_eq_expected [OF assms, of now] snd_compute [of now tm]
  by (auto simp: next_timestamp_def case_prod_beta split: option.splits)

theorem next_timestamp_correct_witness:
  "next_timestamp 1000 \<lparr>tm_offset = 5, last_timestamp = 1100, next_exact_timestamp = Some 1200,
       tm_interval = Some 10\<rparr> =
     (1200, \<lparr>tm_offset = 200, last_timestamp = 1200, next_exact_timestamp = None,
       tm_interval = Some 10\<rparr>)"
proof -
  let ?tm = "\<lparr>tm_offset = 5, last_timestamp = 1100, next_exact_timestamp = Some 1200,
       tm_interval = Some 10\<rparr>"
  have "tm_wf ?tm" by (simp add: tm_wf_def in_i128_iff)
  from next_timestamp_correct [OF this, of 1000] show ?thesis
    by (simp add: expected_timestamp_def)
qed

text \<open>
  Whatever sequence of calls a node makes on its time manager, a pending exact
  timestamp is never below the last block's timestamp, and the offset stays an \<open>i128\<close>.
\<close>

theorem time_manager_invariant: "tm_wf (fold time_exec cs (new_time_manager now start))"
  by (rule tm_wf_time_execs) (rule tm_wf_new)

text \<open>
  C18: An exact timestamp that was accepted is the timestamp of the next block, whatever
  time increases and interval changes come in between, and it is consumed by that block.
\<close>

theorem exact_request_honoured:
  assumes "set_next_block_timestamp t tm = Inr tm'" and "list_all keeps_request cs"
  shows "fst (next_timestamp now (fold time_exec cs tm')) = t \<and>
    next_exact_timestamp (snd (next_timestamp now (fold time_exec cs tm'))) = None"
proof -
  have "next_exact_timestamp tm' = Some t" and "\<not> t < last_timestamp tm'"
    using assms(1) by (auto simp: set_next_block_timestamp_def split: if_splits)
  then show ?thesis
    using keeps_request_frame [OF assms(2), of tm']
    by (simp add: next_timestamp_fields compute_next_timestamp_def Let_def)
qed

theorem exact_request_honoured_witness:
  "fst (next_timestamp 3000 (fold time_exec [IncreaseTime 77, SetInterval 5]
     ((new_time_manager 1000 500)\<lparr>next_exact_timestamp := Some 900\<rparr>))) = 900"
proof -
  let ?tm = "new_time_manager 1000 500"
  have "set_next_block_timestamp 900 ?tm = Inr (?tm\<lparr>next_exact_timestamp := Some 900\<rparr>)"
    by (simp add: set_next_block_timestamp_def new_time_manager_def reset_def)
  moreover have "list_all keeps_request [IncreaseTime 77, SetInterval 5]" by simp
  ultimately show ?thesis by (rule exact_request_honoured [THEN conjunct1])
qed

text \<open>
  The timestamps of successive blocks never decrease and never go below the last
  block's timestamp, however the wall clock moves between the blocks.
\<close>

theorem block_timestamps_sorted:
  "sorted (last_timestamp tm # fst (runs next_timestamp nows tm))"
  by (rule clock.ticks_sorted)

text \<open>
  With no exact request pending, each block's timestamp is strictly above all the
  earlier ones, unless it has reached the largest \<open>u64\<close>.
\<close>

theorem block_timestamps_strict:
  assumes "next_exact_timestamp tm = None"
  shows "sorted_wrt (\<lambda>a b. a < b \<or> b = - 1)
    (last_timestamp tm # fst (runs next_timestamp nows tm))"
  using assms by (rule runs_strict)

theorem block_timestamps_strict_witness:
  "sorted_wrt (\<lambda>a b. a < b \<or> b = - 1)
    (7 # fst (runs next_timestamp [3, 3, 1] (new_time_manager 3 7)))"
  using block_timestamps_strict [of "new_time_manager 3 7" "[3, 3, 1]"]
  by (simp add: new_time_manager_def reset_def)

text \<open>
  While an interval \<open>i > 0\<close> is set, the \<open>k\<close>-th of the next \<open>n\<close> blocks is stamped exactly
  \<open>k * i\<close> seconds after the last block, whatever the wall clock reads (as long as the sum
  fits a \<open>u64\<close>).
\<close>

theorem interval_spacing:
  assumes "next_exact_timestamp tm = None" and "tm_interval tm = Some i" and "0 < i"
    and "unat (last_timestamp tm) + length nows * unat i < 2 ^ 64"
  shows "map unat (fst (runs next_timestamp nows tm)) =
    map (\<lambda>k. unat (last_timestamp tm) + Suc k * unat i) [0..<length nows]"
  using assms
proof (induction nows arbitrary: tm)
  case Nil
  then show ?case by simp
next
  case (Cons now nows)
  let ?tm = "snd (next_timestamp now tm)"
  have one: "unat (last_timestamp tm) + unat i < 2 ^ 64"
    using Cons.prems(4) by simp
  have "fst (compute_next_timestamp now tm) = sat_add (last_timestamp tm) i"
    using Cons.prems(1-3)
    by (auto simp: compute_next_timestamp_def sat_add_le_self Let_def)
  then have t: "unat (last_timestamp ?tm) = unat (last_timestamp tm) + unat i"
    using one by (simp add: next_timestamp_fields unat_sat_add)
  have "map unat (fst (runs next_timestamp nows ?tm)) =
      map (\<lambda>k. unat (last_timestamp ?tm) + Suc k * unat i) [0..<length nows]"
    using Cons.prems t by (intro Cons.IH) (simp_all add: next_timestamp_fields)
  then show ?case
    using t
    by (simp add: runs_Cons next_timestamp_fields map_upt_Suc del: upt_Suc)
qed

theorem interval_spacing_witness:
  "map unat (fst (runs next_timestamp [9, 0]
     \<lparr>tm_offset = 0, last_timestamp = 100, next_exact_timestamp = None, tm_interval = Some 10\<rparr>))
   = [110, 120]"
  using interval_spacing [of "\<lparr>tm_offset = 0, last_timestamp = 100, next_exact_timestamp = None,
      tm_interval = Some 10\<rparr>" 10 "[9, 0]"]
  by (simp add: upt_rec)

text \<open>
  A block mined at an exact timestamp \<open>t\<close> rebases the clock: with no interval set, a
  block mined \<open>d\<close> wall-clock seconds later is stamped \<open>t + max 1 d\<close>.
\<close>

theorem exact_block_rebases_clock:
  assumes "set_next_block_timestamp t tm = Inr tm'" and "tm_interval tm = None"
    and "now \<le> now'" and "unat t + (unat now' - unat now) < 2 ^ 64 - 1"
  shows "unat (fst (next_timestamp now' (snd (next_timestamp now tm')))) =
    unat t + max 1 (unat now' - unat now)"
proof (rule pinned_clock_runs_on [OF _ _ _ _ assms(3,4)])
  have tm': "tm' = tm\<lparr>next_exact_timestamp := Some t\<rparr>" "\<not> t < last_timestamp tm"
    using assms(1) by (auto simp: set_next_block_timestamp_def split: if_splits)
  then have c: "fst (compute_next_timestamp now tm') = t"
    by (simp add: compute_next_timestamp_def Let_def)
  show "next_exact_timestamp (snd (next_timestamp now tm')) = None"
    and "tm_interval (snd (next_timestamp now tm')) = None"
    and "last_timestamp (snd (next_timestamp now tm')) = t"
    and "tm_offset (snd (next_timestamp now tm')) = uint t - uint now"
    using assms(2) c tm' by (simp_all add: next_timestamp_fields)
qed

theorem exact_block_rebases_clock_witness:
  "unat (fst (next_timestamp 1007 (snd (next_timestamp 1000
     ((new_time_manager 1000 500)\<lparr>next_exact_timestamp := Some 900\<rparr>))))) = 907"
proof -
  let ?tm = "new_time_manager 1000 500"
  have "set_next_block_timestamp 900 ?tm = Inr (?tm\<lparr>next_exact_timestamp := Some 900\<rparr>)"
    by (simp add: set_next_block_timestamp_def new_time_manager_def reset_def)
  moreover have "tm_interval ?tm = None" by (simp add: new_time_manager_def reset_def)
  ultimately show ?thesis
    using exact_block_rebases_clock [of 900 ?tm _ 1000 1007] by simp
qed

text \<open>
  \<open>set_time t\<close> moves the baseline without pinning the next block: with no interval set,
  a block mined \<open>d\<close> wall-clock seconds after it is stamped \<open>t + max 1 d\<close>, and a pending
  exact request is forgotten.
\<close>

theorem set_time_moves_baseline:
  assumes "tm_interval tm = None"
    and "now \<le> now'" and "unat t + (unat now' - unat now) < 2 ^ 64 - 1"
  shows "unat (fst (next_timestamp now' (set_time now t tm))) =
    unat t + max 1 (unat now' - unat now)"
  by (rule pinned_clock_runs_on [OF _ _ _ _ assms(2,3)])
    (simp_all add: set_time_def reset_def assms(1))

theorem set_time_moves_baseline_witness:
  "unat (fst (next_timestamp 1003 (set_time 1000 40
     ((new_time_manager 1000 500)\<lparr>next_exact_timestamp := Some 900\<rparr>)))) = 43"
  using set_time_moves_baseline [of "(new_time_manager 1000 500)\<lparr>next_exact_timestamp := Some 900\<rparr>"
      1000 1003 40]
  by (simp add: new_time_manager_def reset_def)

text \<open>
  \<open>increase_time s\<close> moves the shifted clock \<open>s\<close> seconds forward: with no exact request and
  no interval, the next block is stamped with the wall clock plus the old offset plus \<open>s\<close>,
  or just above the last block if that is later (while the sum fits a \<open>u64\<close>); the call
  returns the new total offset.
\<close>

theorem increase_time_moves_forward:
  assumes "next_exact_timestamp tm = None" and "tm_interval tm = None"
    and "0 \<le> uint now + tm_offset tm" and "uint now + tm_offset tm + uint s < 2 ^ 64"
  shows "fst (increase_time s tm) = tm_offset tm + uint s \<and>
    fst (next_timestamp now (snd (increase_time s tm))) =
      max (word_of_int (uint now + tm_offset tm + uint s)) (sat_add (last_timestamp tm) 1)"
proof -
  have "- 18446744073709551616 < tm_offset tm" "tm_offset tm + uint s < 18446744073709551616"
    using assms(3,4) uint_lt2p [of now] uint_ge_0 [of now]
    unfolding len_64 two_64 by linarith+
  then have "in_i128 (tm_offset tm + uint s)"
    unfolding in_i128_iff using uint_ge_0 [of s] by linarith
  then have off: "increase_time s tm =
      (tm_offset tm + uint s, tm\<lparr>tm_offset := tm_offset tm + uint s\<rparr>)"
    by (simp add: increase_time_def add_offset_def i128_sat_add_exact Let_def)
  have pos: "0 \<le> uint now + (tm_offset tm + uint s)"
    using assms(3) uint_ge_0 [of s] by linarith
  have "fst (next_timestamp now (tm\<lparr>tm_offset := tm_offset tm + uint s\<rparr>)) =
      max (word_of_int (uint now + (tm_offset tm + uint s))) (sat_add (last_timestamp tm) 1)"
    using next_timestamp_clock [of "tm\<lparr>tm_offset := tm_offset tm + uint s\<rparr>" now] pos assms
    by (simp add: add.assoc)
  then show ?thesis by (simp add: off add.assoc)
qed

theorem increase_time_moves_forward_witness:
  "fst (next_timestamp 1000 (snd (increase_time 30 (new_time_manager 1000 500)))) = 530"
proof -
  let ?tm = "new_time_manager 1000 500"
  have "next_exact_timestamp ?tm = None" "tm_interval ?tm = None"
    "0 \<le> uint (1000::u64) + tm_offset ?tm" "uint (1000::u64) + tm_offset ?tm + uint (30::u64) < 2 ^ 64"
    by (simp_all add: new_time_manager_def reset_def)
  from increase_time_moves_forward [OF this] show ?thesis
    by (simp add: new_time_manager_def reset_def sat_add_def)
qed

text \<open>
  C19: The cast of the shifted clock to \<open>u64\<close> wraps: if the wall clock steps back after
  \<open>set_time t\<close> by more than \<open>t\<close> seconds, the next block is stamped close to the largest
  \<open>u64\<close> instead of just above \<open>t\<close>.
\<close>

theorem clock_step_back_wraps:
  assumes "tm_interval tm = None" and "unat t + unat now' < unat now"
  shows "unat (fst (next_timestamp now' (set_time now t tm))) =
    2 ^ 64 - (unat now - (unat t + unat now'))"
proof -
  define d where "d = unat now - (unat t + unat now')"
  define w where "w = as_u64 (i128_sat_add (uint now') (uint t - uint now))"
  have d: "0 < d" "unat t + d < 2 ^ 64"
    using assms(2) unat_bound [of now] by (simp_all add: d_def)
  have x: "uint now' + (uint t - uint now) = - int d"
    using assms(2) unfolding d_def uint_nat by (simp add: of_nat_diff)
  have "in_i128 (- int d)" using d unfolding in_i128_iff by simp
  then have "w = word_of_int (- int d)"
    by (simp add: w_def as_u64_def i128_sat_add_exact x)
  then have "uint w = (- int d) mod 2 ^ 64" by (simp only: uint_word_of_int len_64)
  also have "\<dots> = (2 ^ 64 - int d) mod 2 ^ 64" by simp
  also have "\<dots> = 2 ^ 64 - int d"
    using d by (intro mod_pos_pos_trivial) simp_all
  finally have "int (unat w) = 2 ^ 64 - int d" by (simp only: uint_nat)
  then have w: "unat w = 2 ^ 64 - d" using d unfolding two_64 by linarith
  have "unat t + 1 \<le> unat w" using w d by linarith
  then have "\<not> w \<le> t" by (simp add: word_le_nat_alt)
  then have "fst (compute_next_timestamp now' (set_time now t tm)) = w"
    using assms(1) by (simp add: compute_next_timestamp_def set_time_def reset_def Let_def w_def)
  then show ?thesis by (simp add: next_timestamp_fields w d_def)
qed

theorem clock_step_back_wraps_witness:
  "unat (fst (next_timestamp 999 (set_time 1000 0 (new_time_manager 1000 500)))) = 2 ^ 64 - 1"
  using clock_step_back_wraps [of "new_time_manager 1000 500" 0 999 1000]
  by (simp add: new_time_manager_def reset_def)

text \<open>
  The payload attributes of a block the local miner builds carry the timestamp the time
  manager hands out, and the coinbase override for every block once it is set; the other
  attributes pass through unchanged.
\<close>

theorem payload_hook_attributes:
  "fst (payload_attributes_hook now b attrs tm) =
     attrs\<lparr>pa_timestamp := fst (next_timestamp now tm),
           pa_suggested_fee_recipient :=
             (case coinbase b of Some a \<Rightarrow> a | None \<Rightarrow> pa_suggested_fee_recipient attrs)\<rparr>
   \<and> snd (payload_attributes_hook now b attrs tm) = snd (next_timestamp now tm)"
  by (auto simp: payload_attributes_hook_def case_prod_beta Let_def split: option.splits)

end
