(* ===== verification/Time_Race.thy ===== *)
theory Time_Race
  imports Time_Manager
begin

text \<open>
  The time manager under concurrency. Its four fields sit behind four locks, and
  \<open>next_timestamp\<close> and \<open>set_next_block_timestamp\<close> (src/src/time.rs) take them one after
  the other, so RPC calls can run between two of the miner's lock acquisitions. Here one
  lock acquisition is one step. The miner runs \<open>next_timestamp\<close> over and over; any number
  of RPC threads run \<open>set_next_block_timestamp\<close>; \<open>increase_time\<close> and the interval calls
  take one lock each and are single steps. \<open>set_time\<close> is left out: it sets the last
  timestamp itself, and the statements here are about the miner being its only writer.

  In \<open>compute_next_timestamp\<close> the read guard of \<open>next_exact_timestamp\<close> lives until the end
  of the \<open>if let ... else\<close> chain (a temporary of its scrutinee), so while the miner reads
  the interval and the offset no request can be written: the steps \<open>set_write\<close> wait for
  the states \<open>MInterval\<close> and \<open>MOffset\<close> to be left.
\<close>

section \<open>Threads and steps\<close>

text \<open>
  The miner's local state: the values it has read so far (\<open>now\<close>, the last timestamp), then
  the computed result on its way to being stored.
\<close>

datatype miner_pc =
    MIdle
  | MRead u64 u64
  | MInterval u64 u64
  | MOffset u64 u64
  | MComputed u64 "int option"
  | MTaken u64 "int option"
  | MStored u64

datatype setter_pc =
    SIdle
  | SChecked u64
  | SOk u64
  | SErr u64

record race =
  shared :: time_manager
  miner :: miner_pc
  setters :: "nat \<Rightarrow> setter_pc"
  mined :: "u64 list"

fun exact_guard_held :: "miner_pc \<Rightarrow> bool" where
  "exact_guard_held (MInterval _ _) = True"
| "exact_guard_held (MOffset _ _) = True"
| "exact_guard_held _ = False"

fun setter_free :: "setter_pc \<Rightarrow> bool" where
  "setter_free (SChecked _) = False"
| "setter_free _ = True"

inductive race_step :: "race \<Rightarrow> race \<Rightarrow> bool" where
  mine_start:
    "miner s = MIdle \<Longrightarrow>
     race_step s (s\<lparr>miner := MRead now (last_timestamp (shared s))\<rparr>)"
| mine_exact:
    "miner s = MRead now l \<Longrightarrow> next_exact_timestamp (shared s) = Some t \<Longrightarrow>
     compute_next_timestamp now ((shared s)\<lparr>last_timestamp := l\<rparr>) = (nxt, off) \<Longrightarrow>
     race_step s (s\<lparr>miner := MComputed nxt off\<rparr>)"
| mine_no_exact:
    "miner s = MRead now l \<Longrightarrow> next_exact_timestamp (shared s) = None \<Longrightarrow>
     race_step s (s\<lparr>miner := MInterval now l\<rparr>)"
| mine_interval:
    "miner s = MInterval now l \<Longrightarrow> tm_interval (shared s) = Some i \<Longrightarrow>
     compute_next_timestamp now ((shared s)\<lparr>last_timestamp := l\<rparr>) = (nxt, off) \<Longrightarrow>
     race_step s (s\<lparr>miner := MComputed nxt off\<rparr>)"
| mine_no_interval:
    "miner s = MInterval now l \<Longrightarrow> tm_interval (shared s) = None \<Longrightarrow>
     race_step s (s\<lparr>miner := MOffset now l\<rparr>)"
| mine_offset:
    "miner s = MOffset now l \<Longrightarrow>
     compute_next_timestamp now ((shared s)\<lparr>last_timestamp := l, tm_interval := None\<rparr>) = (nxt, off) \<Longrightarrow>
     race_step s (s\<lparr>miner := MComputed nxt off\<rparr>)"
| mine_take:
    "miner s = MComputed nxt off \<Longrightarrow>
     race_step s (s\<lparr>miner := MTaken nxt off,
                   shared := (shared s)\<lparr>next_exact_timestamp := None\<rparr>\<rparr>)"
| mine_store_offset:
    "miner s = MTaken nxt off \<Longrightarrow>
     race_step s (s\<lparr>miner := MStored nxt,
                   shared := (case off of Some d \<Rightarrow> (shared s)\<lparr>tm_offset := d\<rparr> | None \<Rightarrow> shared s)\<rparr>)"
| mine_store_last:
    "miner s = MStored nxt \<Longrightarrow>
     race_step s (s\<lparr>miner := MIdle, mined := nxt # mined s,
                   shared := (shared s)\<lparr>last_timestamp := nxt\<rparr>\<rparr>)"
| set_check:
    "setter_free (setters s i) \<Longrightarrow> \<not> t < last_timestamp (shared s) \<Longrightarrow>
     race_step s (s\<lparr>setters := (setters s)(i := SChecked t)\<rparr>)"
| set_reject:
    "setter_free (setters s i) \<Longrightarrow> t < last_timestamp (shared s) \<Longrightarrow>
     race_step s (s\<lparr>setters := (setters s)(i := SErr t)\<rparr>)"
| set_write:
    "setters s i = SChecked t \<Longrightarrow> \<not> exact_guard_held (miner s) \<Longrightarrow>
     race_step s (s\<lparr>setters := (setters s)(i := SOk t),
                   shared := (shared s)\<lparr>next_exact_timestamp := Some t\<rparr>\<rparr>)"
| env_increase:
    "race_step s (s\<lparr>shared := snd (increase_time d (shared s))\<rparr>)"
| env_set_interval:
    "race_step s (s\<lparr>shared := set_block_timestamp_interval d (shared s)\<rparr>)"
| env_remove_interval:
    "race_step s (s\<lparr>shared := snd (remove_block_timestamp_interval (shared s))\<rparr>)"

definition race_init :: "time_manager \<Rightarrow> race" where
  "race_init tm = \<lparr>shared = tm, miner = MIdle, setters = (\<lambda>_. SIdle), mined = []\<rparr>"

inductive race_reach :: "time_manager \<Rightarrow> race \<Rightarrow> bool" for tm where
  race_start: "race_reach tm (race_init tm)"
| race_next: "race_reach tm s \<Longrightarrow> race_step s s' \<Longrightarrow> race_reach tm s'"

inductive_cases race_stepE: "race_step s s'"

section \<open>Invariant of the interleavings\<close>

text \<open>
  The miner is the only writer of the last timestamp, so the value it has read is still
  current when it computes, and the result it carries is not below it.
\<close>

fun miner_ok :: "u64 \<Rightarrow> miner_pc \<Rightarrow> bool" where
  "miner_ok lt MIdle = True"
| "miner_ok lt (MRead _ l) = (l = lt)"
| "miner_ok lt (MInterval _ l) = (l = lt)"
| "miner_ok lt (MOffset _ l) = (l = lt)"
| "miner_ok lt (MComputed nxt _) = (lt \<le> nxt)"
| "miner_ok lt (MTaken nxt _) = (lt \<le> nxt)"
| "miner_ok lt (MStored nxt) = (lt \<le> nxt)"

definition race_inv :: "time_manager \<Rightarrow> race \<Rightarrow> bool" where
  "race_inv tm s \<longleftrightarrow>
     miner_ok (last_timestamp (shared s)) (miner s) \<and>
     sorted_wrt (\<ge>) (last_timestamp (shared s) # mined s @ [last_timestamp tm])"

lemma compute_ge_fst: "compute_next_timestamp now tm = (nxt, off) \<Longrightarrow> last_timestamp tm \<le> nxt"
  using compute_ge [of tm now] by simp

lemma race_inv_init: "race_inv tm (race_init tm)"
  by (simp add: race_inv_def race_init_def)

lemma race_inv_step: "race_step s s' \<Longrightarrow> race_inv tm s \<Longrightarrow> race_inv tm s'"
  by (induction rule: race_step.induct)
    (auto simp: race_inv_def time_defs Let_def intro: order_trans
      dest!: compute_ge_fst split: option.split)

lemma race_reach_inv: "race_reach tm s \<Longrightarrow> race_inv tm s"
  by (induction rule: race_reach.induct) (auto intro: race_inv_init race_inv_step)

section \<open>Runs\<close>

text \<open>
  The miner's steps for one block with an interval set, from a state where it is idle: up
  to the computed result, and from there to the stored block.
\<close>

lemma same_last [simp]: "tm\<lparr>last_timestamp := last_timestamp tm\<rparr> = tm"
  by (cases tm) simp

lemma race_then: "race_reach tm s \<Longrightarrow> race_step s t \<Longrightarrow> t = s' \<Longrightarrow> race_reach tm s'"
  by (auto intro: race_next)

lemma reach_computed:
  assumes "race_reach tm s" and "miner s = MIdle" and "next_exact_timestamp (shared s) = None"
    and "tm_interval (shared s) = Some i"
  shows "race_reach tm (s\<lparr>miner := MComputed (fst (compute_next_timestamp now (shared s))) None\<rparr>)"
proof -
  let ?l = "last_timestamp (shared s)"
  have "race_reach tm (s\<lparr>miner := MRead now ?l\<rparr>)"
    by (rule race_next [OF assms(1) mine_start [OF assms(2)]])
  then have "race_reach tm (s\<lparr>miner := MInterval now ?l\<rparr>)"
    by (rule race_then [OF _ mine_no_exact]) (simp_all add: assms(3))
  then show ?thesis
    by (rule race_then [OF _ mine_interval [of _ now ?l i
          "fst (compute_next_timestamp now (shared s))" None]])
      (simp_all add: prod_eq_iff snd_compute assms(3,4))
qed

lemma reach_mined:
  assumes "race_reach tm s" and "miner s = MComputed nxt None"
  shows "race_reach tm (s\<lparr>miner := MIdle, mined := nxt # mined s,
    shared := (shared s)\<lparr>next_exact_timestamp := None, last_timestamp := nxt\<rparr>\<rparr>)"
proof -
  have "race_reach tm (s\<lparr>miner := MTaken nxt None,
      shared := (shared s)\<lparr>next_exact_timestamp := None\<rparr>\<rparr>)"
    by (rule race_next [OF assms(1) mine_take [OF assms(2)]])
  then have "race_reach tm (s\<lparr>miner := MStored nxt,
      shared := (shared s)\<lparr>next_exact_timestamp := None\<rparr>\<rparr>)"
    by (rule race_then [OF _ mine_store_offset [of _ nxt None, simplified option.case]]) simp_all
  then show ?thesis
    by (rule race_then [OF _ mine_store_last]) simp_all
qed

lemma reach_checked:
  assumes "race_reach tm s" and "setter_free (setters s i)" and "\<not> t < last_timestamp (shared s)"
  shows "race_reach tm (s\<lparr>setters := (setters s)(i := SChecked t)\<rparr>)"
  by (rule race_next [OF assms(1) set_check [OF assms(2,3)]])

lemma reach_written:
  assumes "race_reach tm s" and "setters s i = SChecked t" and "\<not> exact_guard_held (miner s)"
  shows "race_reach tm (s\<lparr>setters := (setters s)(i := SOk t),
    shared := (shared s)\<lparr>next_exact_timestamp := Some t\<rparr>\<rparr>)"
  by (rule race_next [OF assms(1) set_write [OF assms(2,3)]])

section \<open>Properties\<close>

text \<open>
  C2: Under every interleaving of the miner with requests for exact timestamps, time
  increases and interval changes, the timestamps of the mined blocks are in order and not
  below the timestamp the time manager started from.
\<close>

theorem interleaved_blocks_sorted:
  assumes "race_reach tm s"
  shows "sorted (last_timestamp tm # rev (mined s))"
proof -
  have "sorted_wrt (\<ge>) (mined s @ [last_timestamp tm])"
    using race_reach_inv [OF assms] by (simp add: race_inv_def)
  then have "sorted_wrt (\<lambda>x y. y \<ge> x) (rev (mined s @ [last_timestamp tm]))"
    by (subst sorted_wrt_rev)
  then show ?thesis by simp
qed

theorem interleaved_blocks_sorted_witness:
  "\<exists>s. race_reach \<lparr>tm_offset = 0, last_timestamp = 100, next_exact_timestamp = None,
       tm_interval = Some 10\<rparr> s \<and> mined s = [110] \<and> sorted (100 # rev (mined s))"
proof -
  let ?tm = "\<lparr>tm_offset = 0, last_timestamp = 100, next_exact_timestamp = None,
    tm_interval = Some 10\<rparr>"
  let ?s = "(race_init ?tm)\<lparr>mined := [110], shared := ?tm\<lparr>last_timestamp := 110\<rparr>\<rparr>"
  have "race_reach ?tm ((race_init ?tm)\<lparr>miner := MComputed (fst (compute_next_timestamp 7 ?tm)) None\<rparr>)"
    using reach_computed [OF race_start [of ?tm], of 10 7] by (simp add: race_init_def)
  from reach_mined [OF this, of "fst (compute_next_timestamp 7 ?tm)"]
  have "race_reach ?tm ?s"
    by (simp add: race_init_def compute_next_timestamp_def sat_add_def)
  from this interleaved_blocks_sorted [OF this] show ?thesis
    by (intro exI [of _ ?s]) simp
qed

text \<open>
  C20: A request for an exact timestamp can be lost: there is an interleaving in which the
  call is answered with success after the miner has computed the next timestamp and before
  it clears the request, so that the block is stamped without it and nothing is pending
  afterwards.
\<close>

theorem exact_request_can_be_lost:
  assumes "next_exact_timestamp tm = None" and "tm_interval tm = Some i"
    and "last_timestamp tm \<le> t"
  shows "\<exists>s. race_reach tm s \<and> setters s 0 = SOk t \<and> miner s = MIdle \<and>
    next_exact_timestamp (shared s) = None \<and>
    mined s = [fst (compute_next_timestamp now tm)]"
proof -
  let ?nxt = "fst (compute_next_timestamp now tm)"
  have "race_reach tm ((race_init tm)\<lparr>miner := MComputed ?nxt None\<rparr>)"
    using reach_computed [OF race_start [of tm], of i now] assms by (simp add: race_init_def)
  from reach_checked [OF this, of 0 t] assms(3)
  have "race_reach tm ((race_init tm)\<lparr>miner := MComputed ?nxt None,
      setters := (\<lambda>_. SIdle)(0 := SChecked t)\<rparr>)"
    by (simp add: race_init_def)
  from reach_written [OF this, of 0 t]
  have "race_reach tm ((race_init tm)\<lparr>miner := MComputed ?nxt None,
      setters := (\<lambda>_. SIdle)(0 := SOk t), shared := tm\<lparr>next_exact_timestamp := Some t\<rparr>\<rparr>)"
    by (simp add: race_init_def)
  from reach_mined [OF this, of ?nxt] show ?thesis
    by (intro exI conjI) (assumption | simp add: race_init_def)+
qed

theorem exact_request_can_be_lost_witness:
  "\<exists>s. race_reach \<lparr>tm_offset = 0, last_timestamp = 100, next_exact_timestamp = None,
       tm_interval = Some 10\<rparr> s \<and> setters s 0 = SOk 500 \<and>
     next_exact_timestamp (shared s) = None \<and> mined s = [110]"
  using exact_request_can_be_lost [of "\<lparr>tm_offset = 0, last_timestamp = 100,
      next_exact_timestamp = None, tm_interval = Some 10\<rparr>" 10 500 7]
  by (auto simp: compute_next_timestamp_def sat_add_def)

text \<open>
  A request can become stale while it is being written: there is an interleaving that
  leaves a pending exact timestamp below the last block's timestamp, so the guard on that
  case in \<open>compute_next_timestamp\<close> is needed, and the block after it is stamped one above
  the last one instead of the requested value.
\<close>

theorem stale_request_reachable:
  assumes "next_exact_timestamp tm = None" and "tm_interval tm = Some i"
    and "last_timestamp tm \<noteq> - 1"
  shows "\<exists>s. race_reach tm s \<and> next_exact_timestamp (shared s) = Some (last_timestamp tm) \<and>
    last_timestamp tm < last_timestamp (shared s) \<and>
    fst (next_timestamp now (shared s)) = sat_add (last_timestamp (shared s)) 1"
proof -
  let ?l = "last_timestamp tm" and ?nxt = "fst (compute_next_timestamp now tm)"
  let ?set = "\<lambda>pc. (\<lambda>_. SIdle)(0 := pc)"
  have "race_reach tm ((race_init tm)\<lparr>setters := ?set (SChecked ?l)\<rparr>)"
    using reach_checked [OF race_start [of tm], of 0 ?l] by (simp add: race_init_def)
  from reach_computed [OF this, of i now] assms(1,2)
  have "race_reach tm ((race_init tm)\<lparr>setters := ?set (SChecked ?l), miner := MComputed ?nxt None\<rparr>)"
    by (simp add: race_init_def)
  from reach_mined [OF this, of ?nxt]
  have "race_reach tm \<lparr>shared = tm\<lparr>next_exact_timestamp := None, last_timestamp := ?nxt\<rparr>,
      miner = MIdle, setters = ?set (SChecked ?l), mined = [?nxt]\<rparr>"
    by (simp add: race_init_def)
  from reach_written [OF this, of 0 ?l]
  have "race_reach tm \<lparr>shared = tm\<lparr>last_timestamp := ?nxt, next_exact_timestamp := Some ?l\<rparr>,
      miner = MIdle, setters = ?set (SOk ?l), mined = [?nxt]\<rparr>"
    by simp
  moreover have "?l < ?nxt" by (rule compute_gt [OF assms(1,3)])
  then have "fst (compute_next_timestamp now
      (tm\<lparr>last_timestamp := ?nxt, next_exact_timestamp := Some ?l\<rparr>)) = sat_add ?nxt 1"
    by (subst compute_next_timestamp_def) (simp add: Let_def)
  ultimately show ?thesis
    using \<open>?l < ?nxt\<close>
    by (intro exI conjI) (assumption | simp add: next_timestamp_fields)+
qed

theorem stale_request_reachable_witness:
  "\<exists>s. race_reach \<lparr>tm_offset = 0, last_timestamp = 100, next_exact_timestamp = None,
       tm_interval = Some 10\<rparr> s \<and> next_exact_timestamp (shared s) = Some 100 \<and>
     100 < last_timestamp (shared s)"
  using stale_request_reachable [of "\<lparr>tm_offset = 0, last_timestamp = 100,
      next_exact_timestamp = None, tm_interval = Some 10\<rparr>" 10]
  by auto

end
