(* ===== verification/Reset_Race.thy ===== *)
theory Reset_Race
  imports Time_Race
begin

text \<open>
  \<open>TimeManager::set_time\<close> against the miner (src/src/time.rs). \<open>reset\<close> writes the last
  timestamp, the offset and the exact timestamp under three locks, one after the other;
  here each is a step, among the steps of \<open>Time_Race\<close>. The last write waits while the miner
  holds the read guard of the exact timestamp.
\<close>

section \<open>Steps\<close>

datatype reset_pc = ResetIdle | ResetOffset u64 u64 | ResetTake u64 | ResetDone u64

record reset_race =
  rr_race :: race
  rr_reset :: reset_pc

inductive rr_step :: "reset_race \<Rightarrow> reset_race \<Rightarrow> bool" where
  rr_other:
    "race_step (rr_race s) r \<Longrightarrow> rr_step s (s\<lparr>rr_race := r\<rparr>)"
| reset_last:
    "rr_reset s = ResetIdle \<Longrightarrow>
     rr_step s (s\<lparr>rr_reset := ResetOffset now t,
       rr_race := (rr_race s)\<lparr>shared := (shared (rr_race s))\<lparr>last_timestamp := t\<rparr>\<rparr>\<rparr>)"
| reset_offset:
    "rr_reset s = ResetOffset now t \<Longrightarrow>
     rr_step s (s\<lparr>rr_reset := ResetTake t,
       rr_race := (rr_race s)\<lparr>shared :=
         (shared (rr_race s))\<lparr>tm_offset := uint t - uint now\<rparr>\<rparr>\<rparr>)"
| reset_take:
    "rr_reset s = ResetTake t \<Longrightarrow> \<not> exact_guard_held (miner (rr_race s)) \<Longrightarrow>
     rr_step s (s\<lparr>rr_reset := ResetDone t,
       rr_race := (rr_race s)\<lparr>shared :=
         (shared (rr_race s))\<lparr>next_exact_timestamp := None\<rparr>\<rparr>\<rparr>)"

definition rr_init :: "time_manager \<Rightarrow> reset_race" where
  "rr_init tm = \<lparr>rr_race = race_init tm, rr_reset = ResetIdle\<rparr>"

inductive rr_reach :: "time_manager \<Rightarrow> reset_race \<Rightarrow> bool" for tm where
  rr_start: "rr_reach tm (rr_init tm)"
| rr_next: "rr_reach tm s \<Longrightarrow> rr_step s s' \<Longrightarrow> rr_reach tm s'"

lemma rr_then: "rr_reach tm s \<Longrightarrow> rr_step s t \<Longrightarrow> t = s' \<Longrightarrow> rr_reach tm s'"
  by (auto intro: rr_next)

text \<open>The steps of \<open>Time_Race\<close> are runs here, with the reset waiting.\<close>

lemma rr_of_race:
  "race_reach tm r \<Longrightarrow> rr_reach tm \<lparr>rr_race = r, rr_reset = ResetIdle\<rparr>"
proof (induction rule: race_reach.induct)
  case race_start
  show ?case using rr_start [of tm] by (simp add: rr_init_def)
next
  case (race_next r r')
  from race_next(3) show ?case by (rule rr_then [OF _ rr_other]) (use race_next(2) in auto)
qed

text \<open>The three writes in a row, while the miner holds no guard.\<close>

lemma rr_reset_run:
  assumes "rr_reach tm \<lparr>rr_race = r, rr_reset = ResetIdle\<rparr>" and "\<not> exact_guard_held (miner r)"
  shows "rr_reach tm \<lparr>rr_race = r\<lparr>shared := set_time now t (shared r)\<rparr>, rr_reset = ResetDone t\<rparr>"
proof -
  let ?s1 = "(shared r)\<lparr>last_timestamp := t\<rparr>"
  have "rr_reach tm \<lparr>rr_race = r\<lparr>shared := ?s1\<rparr>, rr_reset = ResetOffset now t\<rparr>"
    by (rule rr_then [OF assms(1) reset_last [where now = now and t = t]]) simp_all
  then have "rr_reach tm \<lparr>rr_race = r\<lparr>shared := ?s1\<lparr>tm_offset := uint t - uint now\<rparr>\<rparr>, rr_reset = ResetTake t\<rparr>"
    by (rule rr_then [OF _ reset_offset [where now = now and t = t]]) simp_all
  then show ?thesis
    by (rule rr_then [OF _ reset_take [where t = t]]) (simp_all add: assms(2) set_time_def reset_def)
qed

text \<open>The miner's last three steps.\<close>

lemma rr_store_run:
  assumes "rr_reach tm \<lparr>rr_race = r, rr_reset = pc\<rparr>" and "miner r = MComputed nxt (Some d)"
  shows "rr_reach tm \<lparr>rr_race = r\<lparr>miner := MIdle, mined := nxt # mined r,
      shared := (shared r)\<lparr>next_exact_timestamp := None, tm_offset := d, last_timestamp := nxt\<rparr>\<rparr>,
    rr_reset = pc\<rparr>"
proof -
  let ?t = "(shared r)\<lparr>next_exact_timestamp := None\<rparr>"
  have "rr_reach tm \<lparr>rr_race = r\<lparr>miner := MTaken nxt (Some d), shared := ?t\<rparr>, rr_reset = pc\<rparr>"
    by (rule rr_then [OF assms(1) rr_other [OF mine_take]]) (simp_all add: assms(2))
  then have "rr_reach tm \<lparr>rr_race = r\<lparr>miner := MStored nxt, shared := ?t\<lparr>tm_offset := d\<rparr>\<rparr>, rr_reset = pc\<rparr>"
    by (rule rr_then [OF _ rr_other [OF mine_store_offset [of _ nxt "Some d", simplified option.case]]]) simp_all
  then show ?thesis
    by (rule rr_then [OF _ rr_other [OF mine_store_last]]) simp_all
qed

section \<open>Properties\<close>

text \<open>
  C36: A new time baseline can be lost: while the miner is stamping a block with a requested
  exact timestamp, a \<open>set_time\<close> can run from start to end and be answered, and the time
  manager ends exactly as if it had never been called, whereas after the block or before it
  it would have moved the clock to the new time.
\<close>

theorem set_time_can_be_lost:
  assumes "next_exact_timestamp tm = Some x"
  shows "\<exists>s. rr_reach tm s \<and> rr_reset s = ResetDone t \<and> miner (rr_race s) = MIdle \<and>
      mined (rr_race s) = [fst (next_timestamp now tm)] \<and>
      shared (rr_race s) = snd (next_timestamp now tm) \<and>
    last_timestamp (set_time now' t (snd (next_timestamp now tm))) = t"
proof -
  obtain nxt off where c: "compute_next_timestamp now tm = (nxt, off)" by (rule prod.exhaust)
  obtain d where d: "off = Some d"
    using c assms by (auto simp: compute_next_timestamp_def Let_def)
  have "race_reach tm ((race_init tm)\<lparr>miner := MRead now (last_timestamp tm)\<rparr>)"
    by (rule race_then [OF race_start mine_start [of _ now]]) (simp_all add: race_init_def)
  then have "race_reach tm ((race_init tm)\<lparr>miner := MComputed nxt (Some d)\<rparr>)"
    by (rule race_then [OF _ mine_exact [of _ now "last_timestamp tm" x nxt "Some d"]])
      (simp_all add: race_init_def assms c d)
  from rr_reset_run [OF rr_of_race [OF this], of now' t]
  have "rr_reach tm \<lparr>rr_race = (race_init tm)\<lparr>miner := MComputed nxt (Some d), shared := set_time now' t tm\<rparr>,
      rr_reset = ResetDone t\<rparr>"
    by (simp add: race_init_def)
  from rr_store_run [OF this, of nxt d]
  have "rr_reach tm \<lparr>rr_race = \<lparr>shared = (set_time now' t tm)\<lparr>next_exact_timestamp := None,
      tm_offset := d, last_timestamp := nxt\<rparr>, miner = MIdle, setters = \<lambda>_. SIdle, mined = [nxt]\<rparr>,
      rr_reset = ResetDone t\<rparr>"
    by (simp add: race_init_def)
  moreover have "fst (next_timestamp now tm) = nxt"
    and "snd (next_timestamp now tm) = (set_time now' t tm)\<lparr>next_exact_timestamp := None,
      tm_offset := d, last_timestamp := nxt\<rparr>"
    using c d by (simp_all add: next_timestamp_def set_time_def reset_def)
  ultimately show ?thesis
    by (intro exI conjI) (assumption | simp add: set_time_def reset_def)+
qed

theorem set_time_can_be_lost_witness:
  "\<exists>s. rr_reach \<lparr>tm_offset = 0, last_timestamp = 100, next_exact_timestamp = Some 200,
       tm_interval = None\<rparr> s \<and> rr_reset s = ResetDone 5000 \<and>
     last_timestamp (shared (rr_race s)) = 200 \<and> tm_offset (shared (rr_race s)) = 93"
  using set_time_can_be_lost [of "\<lparr>tm_offset = 0, last_timestamp = 100,
      next_exact_timestamp = Some 200, tm_interval = None\<rparr>" 200 5000 107 107]
  by (auto simp: next_timestamp_def compute_next_timestamp_def)

end
