(* ===== verification/Impersonation.thy ===== *)
theory Impersonation
  imports Anvil_Prelude
begin

text \<open>
  \<open>ImpersonationState\<close> and the impersonated signer (src/src/impersonation.rs): the set of
  impersonated accounts, the flag that impersonates every account, and the registry of the
  senders of impersonated transactions, which pool validator and block execution share.
  Every operation takes the one lock once and is one step. The lock's \<open>unwrap\<close> panics only
  when a thread panicked while writing; no code inside the critical sections can.
\<close>

section \<open>State and operations\<close>

record impersonation =
  imp_accounts :: "address hashset"
  auto_impersonate :: bool
  tx_senders :: "(b256, address) hashmap"

definition impersonation_default :: impersonation where
  "impersonation_default = \<lparr>imp_accounts = [], auto_impersonate = False, tx_senders = []\<rparr>"

definition impersonate :: "address \<Rightarrow> impersonation \<Rightarrow> impersonation" where
  "impersonate a s = s\<lparr>imp_accounts := List.insert a (imp_accounts s)\<rparr>"

definition stop_impersonating :: "address \<Rightarrow> impersonation \<Rightarrow> impersonation" where
  "stop_impersonating a s = s\<lparr>imp_accounts := removeAll a (imp_accounts s)\<rparr>"

definition set_auto_impersonate :: "bool \<Rightarrow> impersonation \<Rightarrow> impersonation" where
  "set_auto_impersonate enabled s = s\<lparr>auto_impersonate := enabled\<rparr>"

definition is_impersonated :: "impersonation \<Rightarrow> address \<Rightarrow> bool" where
  "is_impersonated s a \<longleftrightarrow> auto_impersonate s \<or> a \<in> set (imp_accounts s)"

definition impersonated_accounts :: "impersonation \<Rightarrow> address list" where
  "impersonated_accounts s = imp_accounts s"

definition remember_tx_sender :: "b256 \<Rightarrow> address \<Rightarrow> impersonation \<Rightarrow> impersonation" where
  "remember_tx_sender h a s = s\<lparr>tx_senders := hm_insert h a (tx_senders s)\<rparr>"

definition forget_tx_sender :: "b256 \<Rightarrow> impersonation \<Rightarrow> impersonation" where
  "forget_tx_sender h s = s\<lparr>tx_senders := hm_remove h (tx_senders s)\<rparr>"

definition forget_tx_senders :: "b256 list \<Rightarrow> impersonation \<Rightarrow> impersonation" where
  "forget_tx_senders hs s = s\<lparr>tx_senders := fold hm_remove hs (tx_senders s)\<rparr>"

definition tx_sender :: "impersonation \<Rightarrow> b256 \<Rightarrow> address option" where
  "tx_sender s h = hm_get (tx_senders s) h"

subsection \<open>The signer\<close>

datatype signature = Signature u256 u256 bool

datatype sign_error = CouldNotSign | InvalidTransactionRequest

text \<open>
  A \<open>TxSigner\<close>: the address it signs for and what it makes of a transaction. The placeholder
  signer answers every transaction with the same empty signature.
\<close>

record 'tx tx_signer =
  signer_address :: address
  signer_sign :: "'tx \<Rightarrow> string + signature"

definition impersonated_tx_signer :: "address \<Rightarrow> 'tx tx_signer" where
  "impersonated_tx_signer a =
     \<lparr>signer_address = a, signer_sign = (\<lambda>_. Inr (Signature 0 0 False))\<rparr>"

text \<open>
  \<open>ImpersonatedSigner\<close> holds a handle of the shared state (its marker has no content); a
  clone holds the same handle.
\<close>

record 'h impersonated_signer =
  is_state :: 'h

definition impersonated_signer_new :: "'h \<Rightarrow> 'h impersonated_signer" where
  "impersonated_signer_new state = \<lparr>is_state = state\<rparr>"

definition impersonated_signer_clone :: "'h impersonated_signer \<Rightarrow> 'h impersonated_signer" where
  "impersonated_signer_clone self = \<lparr>is_state = is_state self\<rparr>"

text \<open>
  \<open>ImpersonatedSigner\<close> as an \<open>EthSigner\<close>. \<open>try_build_and_sign\<close> is the request type's own
  method (a parameter): it builds the transaction and has the given signer sign it.
\<close>

definition eth_signer_accounts :: "impersonation \<Rightarrow> address list" where
  "eth_signer_accounts s = impersonated_accounts s"

definition is_signer_for :: "impersonation \<Rightarrow> address \<Rightarrow> bool" where
  "is_signer_for s a = is_impersonated s a"

definition eth_sign :: "address \<Rightarrow> bytes \<Rightarrow> sign_error + signature" where
  "eth_sign a message = Inl CouldNotSign"

definition eth_sign_transaction ::
  "('req \<Rightarrow> 'tx tx_signer \<Rightarrow> 'e + 't) \<Rightarrow> 'req \<Rightarrow> address \<Rightarrow> sign_error + 't" where
  "eth_sign_transaction try_build_and_sign request a =
     (case try_build_and_sign request (impersonated_tx_signer a) of
        Inl _ \<Rightarrow> Inl InvalidTransactionRequest
      | Inr t \<Rightarrow> Inr t)"

definition eth_sign_typed_data :: "address \<Rightarrow> 'd \<Rightarrow> sign_error + signature" where
  "eth_sign_typed_data a payload = Inl CouldNotSign"

section \<open>The sender registry as an interface\<close>

text \<open>
  What the pool validator and the block executor rely on: a remembered sender is found
  until it is forgotten, and other transactions are not disturbed.
\<close>

locale sender_registry =
  fixes remember :: "'h \<Rightarrow> 'a \<Rightarrow> 's \<Rightarrow> 's"
    and forget :: "'h \<Rightarrow> 's \<Rightarrow> 's"
    and sender :: "'s \<Rightarrow> 'h \<Rightarrow> 'a option"
  assumes sender_remember: "sender (remember h a s) h' = (if h' = h then Some a else sender s h')"
    and sender_forget: "sender (forget h s) h' = (if h' = h then None else sender s h')"
begin

lemma sender_forgets: "sender (fold forget hs s) h = (if h \<in> set hs then None else sender s h)"
  by (induction hs arbitrary: s) (auto simp: sender_forget)

lemma remember_then_forgets:
  "sender (fold forget hs (remember h a s)) h = (if h \<in> set hs then None else Some a)"
  by (simp add: sender_forgets sender_remember)

end

interpretation reg: sender_registry remember_tx_sender forget_tx_sender tx_sender
  by unfold_locales (simp_all add: remember_tx_sender_def forget_tx_sender_def tx_sender_def)

lemma forget_tx_senders_fold: "forget_tx_senders hs s = fold forget_tx_sender hs s"
proof -
  have "fold forget_tx_sender hs s = s\<lparr>tx_senders := fold hm_remove hs (tx_senders s)\<rparr>"
    by (induction hs arbitrary: s) (simp_all add: forget_tx_sender_def)
  then show ?thesis by (simp add: forget_tx_senders_def)
qed

section \<open>Abstract specification\<close>

text \<open>
  What the state promises: a set of accounts, a flag and a partial map. The operations of
  the code, over a list and an association list, implement the abstract ones.
\<close>

record abs_impersonation =
  abs_accounts :: "address set"
  abs_auto :: bool
  abs_senders :: "b256 \<Rightarrow> address option"

datatype imp_call =
    Impersonate address
  | StopImpersonating address
  | SetAuto bool
  | Remember b256 address
  | Forget b256
  | ForgetAll "b256 list"

fun imp_exec :: "imp_call \<Rightarrow> impersonation \<Rightarrow> impersonation" where
  "imp_exec (Impersonate a) s = impersonate a s"
| "imp_exec (StopImpersonating a) s = stop_impersonating a s"
| "imp_exec (SetAuto b) s = set_auto_impersonate b s"
| "imp_exec (Remember h a) s = remember_tx_sender h a s"
| "imp_exec (Forget h) s = forget_tx_sender h s"
| "imp_exec (ForgetAll hs) s = forget_tx_senders hs s"

fun spec_exec :: "imp_call \<Rightarrow> abs_impersonation \<Rightarrow> abs_impersonation" where
  "spec_exec (Impersonate a) s = s\<lparr>abs_accounts := insert a (abs_accounts s)\<rparr>"
| "spec_exec (StopImpersonating a) s = s\<lparr>abs_accounts := abs_accounts s - {a}\<rparr>"
| "spec_exec (SetAuto b) s = s\<lparr>abs_auto := b\<rparr>"
| "spec_exec (Remember h a) s = s\<lparr>abs_senders := (abs_senders s)(h \<mapsto> a)\<rparr>"
| "spec_exec (Forget h) s = s\<lparr>abs_senders := (abs_senders s)(h := None)\<rparr>"
| "spec_exec (ForgetAll hs) s = s\<lparr>abs_senders := abs_senders s |` (- set hs)\<rparr>"

definition abs_imp :: "impersonation \<Rightarrow> abs_impersonation" where
  "abs_imp s =
     \<lparr>abs_accounts = set (imp_accounts s), abs_auto = auto_impersonate s, abs_senders = tx_sender s\<rparr>"

lemmas imp_defs = impersonate_def stop_impersonating_def set_auto_impersonate_def
  remember_tx_sender_def forget_tx_sender_def forget_tx_senders_def tx_sender_def

lemma imp_exec_refines: "abs_imp (imp_exec c s) = spec_exec c (abs_imp s)"
  by (cases c)
    (auto simp: abs_imp_def imp_defs hm_get_fold_remove fun_eq_iff restrict_map_def)

definition imp_wf :: "impersonation \<Rightarrow> bool" where
  "imp_wf s \<longleftrightarrow> distinct (imp_accounts s) \<and> hm_wf (tx_senders s)"

lemma imp_wf_exec [wf_intros]: "imp_wf s \<Longrightarrow> imp_wf (imp_exec c s)"
  by (cases c) (auto simp: imp_wf_def imp_defs distinct_removeAll hm_wf_fold_remove)

lemma imp_wf_default [wf_intros]: "imp_wf impersonation_default"
  by (simp add: imp_wf_def impersonation_default_def)

lemma tx_sender_frame [simp]:
  "tx_sender (impersonate a s) = tx_sender s"
  "tx_sender (stop_impersonating a s) = tx_sender s"
  "tx_sender (set_auto_impersonate b s) = tx_sender s"
  by (simp_all add: imp_defs fun_eq_iff)

lemma is_impersonated_frame [simp]:
  "is_impersonated (remember_tx_sender h x s) a = is_impersonated s a"
  "is_impersonated (forget_tx_sender h s) a = is_impersonated s a"
  "is_impersonated (forget_tx_senders hs s) a = is_impersonated s a"
  by (simp_all add: imp_defs is_impersonated_def)

text \<open>The calls that leave the entry of the transaction \<open>h\<close> alone.\<close>

fun keeps_sender :: "b256 \<Rightarrow> imp_call \<Rightarrow> bool" where
  "keeps_sender h (Remember h' _) = (h' \<noteq> h)"
| "keeps_sender h (Forget h') = (h' \<noteq> h)"
| "keeps_sender h (ForgetAll hs) = (h \<notin> set hs)"
| "keeps_sender h _ = True"

lemma keeps_sender_exec: "keeps_sender h c \<Longrightarrow> tx_sender (imp_exec c s) h = tx_sender s h"
  by (cases c) (auto simp: imp_defs hm_get_fold_remove)

lemma keeps_sender_execs:
  "list_all (keeps_sender h) cs \<Longrightarrow> tx_sender (fold imp_exec cs s) h = tx_sender s h"
  by (induction cs arbitrary: s) (simp_all add: keeps_sender_exec)

section \<open>Properties\<close>

text \<open>
  C21: Any sequence of calls on the impersonation state acts on its abstraction (a set of
  accounts, a flag, a map from transaction to sender) as the abstract operations do, and
  the containers never hold duplicates.
\<close>

theorem impersonation_refines_spec:
  "abs_imp (fold imp_exec cs impersonation_default) =
     fold spec_exec cs \<lparr>abs_accounts = {}, abs_auto = False, abs_senders = Map.empty\<rparr> \<and>
   imp_wf (fold imp_exec cs impersonation_default)"
proof
  have "abs_imp (fold imp_exec cs s) = fold spec_exec cs (abs_imp s)" for s
    by (induction cs arbitrary: s) (simp_all add: imp_exec_refines)
  moreover have "abs_imp impersonation_default =
      \<lparr>abs_accounts = {}, abs_auto = False, abs_senders = Map.empty\<rparr>"
    by (simp add: abs_imp_def impersonation_default_def tx_sender_def fun_eq_iff)
  ultimately show "abs_imp (fold imp_exec cs impersonation_default) =
      fold spec_exec cs \<lparr>abs_accounts = {}, abs_auto = False, abs_senders = Map.empty\<rparr>"
    by simp
  have "imp_wf s \<Longrightarrow> imp_wf (fold imp_exec cs s)" for s
    by (induction cs arbitrary: s) (simp_all add: imp_wf_exec)
  then show "imp_wf (fold imp_exec cs impersonation_default)"
    by (simp add: imp_wf_default)
qed

text \<open>
  The dynamic signer answers for an account exactly while it is impersonated: at once
  after \<open>impersonate\<close>, for every account under auto-impersonation, and no longer after
  \<open>stop_impersonating\<close> unless auto-impersonation is on; other accounts keep their answer.
\<close>

theorem signer_follows_impersonation:
  "is_signer_for (impersonate a s) b = (b = a \<or> is_signer_for s b) \<and>
   is_signer_for (stop_impersonating a s) b =
     (if b = a then auto_impersonate s else is_signer_for s b) \<and>
   is_signer_for (set_auto_impersonate e s) b = (e \<or> b \<in> set (eth_signer_accounts s))"
  by (auto simp: is_signer_for_def is_impersonated_def eth_signer_accounts_def
      impersonated_accounts_def imp_defs)

end
