(* ===== verification/Pool_Validator.thy ===== *)
theory Pool_Validator
  imports Impersonation
begin

text \<open>
  \<open>AnvilValidator\<close> (src/src/pool.rs): it answers for impersonated senders itself and hands
  every other transaction to the wrapped validator. A pool transaction is seen through the
  methods the code calls on it (its hash, sender and nonce); the wrapped validator, its
  answers and its blocks are parameters.
\<close>

record 'tx pool_transaction =
  pt_hash :: "'tx \<Rightarrow> b256"
  pt_sender :: "'tx \<Rightarrow> address"
  pt_nonce :: "'tx \<Rightarrow> u64"

text \<open>
  The answer the code builds (balance, state nonce, bytecode hash, transaction, propagate,
  authorities), or some other answer of the wrapped validator.
\<close>

datatype ('tx, 'o) validation_outcome =
    ValidTx u256 u64 "b256 option" 'tx bool "address list option"
  | OtherOutcome 'o

definition validate_transaction ::
  "'tx pool_transaction \<Rightarrow> ('origin \<Rightarrow> 'tx \<Rightarrow> ('tx, 'o) validation_outcome)
     \<Rightarrow> 'origin \<Rightarrow> 'tx \<Rightarrow> impersonation \<Rightarrow> ('tx, 'o) validation_outcome \<times> impersonation" where
  "validate_transaction T inner_validate origin transaction s =
     (if is_impersonated s (pt_sender T transaction)
      then (ValidTx (- 1) (pt_nonce T transaction) None transaction True None,
            remember_tx_sender (pt_hash T transaction) (pt_sender T transaction) s)
      else (inner_validate origin transaction, s))"

text \<open>
  A new canonical block: its transactions' senders are forgotten, then the wrapped
  validator (state \<open>'v\<close>) sees the block. \<open>tx_hashes\<close> reads the transaction hashes off the
  block's body.
\<close>

definition on_new_head_block ::
  "('blk \<Rightarrow> b256 list) \<Rightarrow> ('blk \<Rightarrow> 'v \<Rightarrow> 'v) \<Rightarrow> 'blk \<Rightarrow> 'v \<times> impersonation \<Rightarrow> 'v \<times> impersonation" where
  "on_new_head_block tx_hashes inner_on_new_head new_tip_block = (\<lambda>(v, s).
     (inner_on_new_head new_tip_block v, forget_tx_senders (tx_hashes new_tip_block) s))"

lemma validate_impersonated:
  "is_impersonated s (pt_sender T tx) \<Longrightarrow>
     tx_sender (snd (validate_transaction T inner origin tx s)) (pt_hash T tx) =
       Some (pt_sender T tx)"
  by (simp add: validate_transaction_def reg.sender_remember)

lemma validate_frame:
  "h \<noteq> pt_hash T tx \<Longrightarrow>
     tx_sender (snd (validate_transaction T inner origin tx s)) h = tx_sender s h"
  by (simp add: validate_transaction_def reg.sender_remember)

lemma imp_wf_validate [wf_intros]:
  "imp_wf s \<Longrightarrow> imp_wf (snd (validate_transaction T inner origin tx s))"
  using imp_wf_exec [of s "Remember (pt_hash T tx) (pt_sender T tx)"]
  by (simp add: validate_transaction_def)

lemma imp_wf_new_head [wf_intros]:
  "imp_wf (snd p) \<Longrightarrow> imp_wf (snd (on_new_head_block hashes inner blk p))"
  using imp_wf_exec [of "snd p" "ForgetAll (hashes blk)"]
  by (simp add: on_new_head_block_def case_prod_beta)

section \<open>Properties\<close>

text \<open>
  A transaction is accepted without asking the wrapped validator exactly when its sender
  is impersonated: then it is valid with the largest balance and its own nonce as the state
  nonce, and its sender is on record; otherwise the wrapped validator's answer is the
  answer and nothing is recorded. Other transactions' records never change.
\<close>

theorem validator_short_circuits_impersonated:
  "validate_transaction T inner origin tx s =
     (if auto_impersonate s \<or> pt_sender T tx \<in> set (imp_accounts s)
      then (ValidTx (- 1) (pt_nonce T tx) None tx True None,
            snd (validate_transaction T inner origin tx s))
      else (inner origin tx, s)) \<and>
   tx_sender (snd (validate_transaction T inner origin tx s)) h =
     (if h = pt_hash T tx \<and> is_impersonated s (pt_sender T tx) then Some (pt_sender T tx)
      else tx_sender s h)"
  by (auto simp: validate_transaction_def is_impersonated_def reg.sender_remember)

text \<open>
  After a new canonical block the senders of exactly its transactions are forgotten;
  the impersonated accounts and every other record are untouched.
\<close>

theorem new_head_forgets_block_senders:
  "tx_sender (snd (on_new_head_block hashes inner blk (v, s))) h =
     (if h \<in> set (hashes blk) then None else tx_sender s h) \<and>
   is_impersonated (snd (on_new_head_block hashes inner blk (v, s))) a = is_impersonated s a"
  by (simp_all add: on_new_head_block_def forget_tx_senders_fold reg.sender_forgets
      flip: forget_tx_senders_fold) (simp_all add: forget_tx_senders_fold reg.sender_forgets)

end
