(* ===== verification/Evm_Config.thy ===== *)
theory Evm_Config
  imports Pool_Validator Block_Env
begin

text \<open>
  \<open>AnvilEvmConfig\<close> (src/src/evm.rs): the wrapped EVM configuration with the gas-limit and
  base-fee overrides applied to the environment of the next block, and with the senders of
  impersonated transactions taken from the registry when a payload is executed.

  The wrapped configuration is a record of the functions the code calls (its values are
  opaque types); errors are its error values.
\<close>

section \<open>The wrapped configuration\<close>

text \<open>The attributes of the next block: the gas limit the code overrides, and the rest.\<close>

record next_block_attributes =
  nb_gas_limit :: u64

record ('e, 'hdr, 'env, 'ctx, 'blk, 'attr) evm_config =
  ev_block_executor_factory :: 'ctx
  ev_block_assembler :: 'ctx
  ev_evm_env :: "'hdr \<Rightarrow> 'e + 'env"
  ev_next_evm_env :: "'hdr \<Rightarrow> 'attr \<Rightarrow> 'e + 'env"
  ev_context_for_block :: "'blk \<Rightarrow> 'e + 'ctx"
  ev_context_for_next_block :: "'hdr \<Rightarrow> 'attr \<Rightarrow> 'e + 'ctx"
  ev_evm_env_for_payload :: "'blk \<Rightarrow> 'e + 'env"
  ev_context_for_payload :: "'blk \<Rightarrow> 'e + 'ctx"

section \<open>The configuration and its builder\<close>

text \<open>
  \<open>AnvilEvmConfig\<close> holds the wrapped configuration and handles of the impersonation state and
  of the overrides (what is behind a handle is in \<open>Node_Wiring\<close>; the methods below take the
  wrapped configuration and what the handles lead to). \<open>AnvilExecutorBuilder\<close> makes it from
  its own handles and the stock configuration of the chain, which is a parameter.
\<close>

record ('evm, 'h, 'g) anvil_evm_config =
  aec_inner :: 'evm
  aec_state :: 'h
  aec_block_env :: 'g

definition anvil_evm_config_new :: "'evm \<Rightarrow> 'h \<Rightarrow> 'g \<Rightarrow> ('evm, 'h, 'g) anvil_evm_config" where
  "anvil_evm_config_new inner state block_env =
     \<lparr>aec_inner = inner, aec_state = state, aec_block_env = block_env\<rparr>"

record ('h, 'g) anvil_executor_builder =
  xb_state :: 'h
  xb_block_env :: 'g

definition build_evm ::
  "('spec \<Rightarrow> 'evm) \<Rightarrow> ('h, 'g) anvil_executor_builder \<Rightarrow> 'spec
     \<Rightarrow> 'err + ('evm, 'h, 'g) anvil_evm_config" where
  "build_evm eth_evm_config_new self chain_spec =
     Inr (anvil_evm_config_new (eth_evm_config_new chain_spec) (xb_state self) (xb_block_env self))"

section \<open>Block environments\<close>

text \<open>
  \<open>next_evm_env\<close>: the gas limit override goes into the attributes, the wrapped
  configuration builds the environment, and only if that succeeds is the base-fee override
  taken. \<open>set_base_fee_opt\<close> (the environment's own method) is a parameter.
\<close>

definition apply_gas_limit ::
  "block_env_overrides \<Rightarrow> 'r next_block_attributes_scheme \<Rightarrow> 'r next_block_attributes_scheme" where
  "apply_gas_limit b attributes =
     (case gas_limit b of Some g \<Rightarrow> attributes\<lparr>nb_gas_limit := g\<rparr> | None \<Rightarrow> attributes)"

definition next_evm_env ::
  "('env \<Rightarrow> u64 option \<Rightarrow> 'env)
     \<Rightarrow> ('e, 'hdr, 'env, 'ctx, 'blk, 'r next_block_attributes_scheme) evm_config
     \<Rightarrow> 'hdr \<Rightarrow> 'r next_block_attributes_scheme \<Rightarrow> block_env_overrides
     \<Rightarrow> ('e + 'env) \<times> block_env_overrides" where
  "next_evm_env set_base_fee_opt inner parent attributes b =
     (case ev_next_evm_env inner parent (apply_gas_limit b attributes) of
        Inl e \<Rightarrow> (Inl e, b)
      | Inr env \<Rightarrow>
          (let (fee, b') = take_next_base_fee b in (Inr (set_base_fee_opt env fee), b')))"

text \<open>The methods that only delegate.\<close>

definition evm_env :: "('e, 'hdr, 'env, 'ctx, 'blk, 'attr) evm_config \<Rightarrow> 'hdr \<Rightarrow> 'e + 'env" where
  "evm_env inner header = ev_evm_env inner header"

definition block_executor_factory :: "('e, 'hdr, 'env, 'ctx, 'blk, 'attr) evm_config \<Rightarrow> 'ctx" where
  "block_executor_factory inner = ev_block_executor_factory inner"

definition block_assembler :: "('e, 'hdr, 'env, 'ctx, 'blk, 'attr) evm_config \<Rightarrow> 'ctx" where
  "block_assembler inner = ev_block_assembler inner"

definition context_for_block ::
  "('e, 'hdr, 'env, 'ctx, 'blk, 'attr) evm_config \<Rightarrow> 'blk \<Rightarrow> 'e + 'ctx" where
  "context_for_block inner block = ev_context_for_block inner block"

definition context_for_next_block ::
  "('e, 'hdr, 'env, 'ctx, 'blk, 'attr) evm_config \<Rightarrow> 'hdr \<Rightarrow> 'attr \<Rightarrow> 'e + 'ctx" where
  "context_for_next_block inner parent attributes = ev_context_for_next_block inner parent attributes"

definition evm_env_for_payload ::
  "('e, 'hdr, 'env, 'ctx, 'blk, 'attr) evm_config \<Rightarrow> 'blk \<Rightarrow> 'e + 'env" where
  "evm_env_for_payload inner payload = ev_evm_env_for_payload inner payload"

definition context_for_payload ::
  "('e, 'hdr, 'env, 'ctx, 'blk, 'attr) evm_config \<Rightarrow> 'blk \<Rightarrow> 'e + 'ctx" where
  "context_for_payload inner payload = ev_context_for_payload inner payload"

section \<open>Payload transactions\<close>

text \<open>
  The transaction codec the closure of \<open>tx_iterator_for_payload\<close> uses: decoding (with the
  error's text), the hash of a decoded transaction and the recovery of its signer.
\<close>

record 'tx tx_codec =
  decode_2718_exact :: "bytes \<Rightarrow> string + 'tx"
  recalculate_hash :: "'tx \<Rightarrow> b256"
  try_recover :: "'tx \<Rightarrow> string + address"

datatype tx_convert_error = TxConvertError string

fun tx_convert_error_display :: "tx_convert_error \<Rightarrow> string" where
  "tx_convert_error_display (TxConvertError message) = message"

definition convert_tx ::
  "'tx tx_codec \<Rightarrow> impersonation \<Rightarrow> bytes \<Rightarrow> tx_convert_error + ('tx \<times> address)" where
  "convert_tx C s raw =
     (case decode_2718_exact C raw of
        Inl e \<Rightarrow> Inl (TxConvertError e)
      | Inr tx \<Rightarrow>
          (case tx_sender s (recalculate_hash C tx) of
             Some sender \<Rightarrow> Inr (tx, sender)
           | None \<Rightarrow>
               (case try_recover C tx of
                  Inl e \<Rightarrow> Inl (TxConvertError e)
                | Inr signer \<Rightarrow> Inr (tx, signer))))"

text \<open>The iterator: the raw transactions of the payload and the closure over the shared state.\<close>

definition tx_iterator_for_payload ::
  "'tx tx_codec \<Rightarrow> ('p \<Rightarrow> bytes list) \<Rightarrow> 'p
     \<Rightarrow> bytes list \<times> (impersonation \<Rightarrow> bytes \<Rightarrow> tx_convert_error + ('tx \<times> address))" where
  "tx_iterator_for_payload C transactions payload = (transactions payload, convert_tx C)"

section \<open>Properties\<close>

lemma snd_next_evm_env:
  "snd (next_evm_env sb inner parent attrs b) =
     (if isl (fst (next_evm_env sb inner parent attrs b)) then b else snd (take_next_base_fee b))"
  by (auto simp: next_evm_env_def case_prod_beta Let_def split: sum.splits option.splits)

lemma gas_limit_next_evm_env [simp]:
  "gas_limit (snd (next_evm_env sb inner parent attrs b)) = gas_limit b"
  by (simp add: snd_next_evm_env)

lemma coinbase_next_evm_env [simp]:
  "coinbase (snd (next_evm_env sb inner parent attrs b)) = coinbase b"
  by (simp add: snd_next_evm_env)

lemma apply_gas_limit_fee [simp]:
  "apply_gas_limit (b\<lparr>ov_next_base_fee := x\<rparr>) = apply_gas_limit b"
  by (simp add: apply_gas_limit_def gas_limit_def fun_eq_iff)

text \<open>The environments of a run of builds, starting from any override.\<close>

lemma runs_next_evm_env:
  "fst (runs (\<lambda>(p, a). next_evm_env sb inner p a) pas b) =
     map (\<lambda>i. map_sum id
           (\<lambda>env. sb env
              (if list_all (\<lambda>(p, a). isl (ev_next_evm_env inner p (apply_gas_limit b a))) (take i pas)
               then ov_next_base_fee b else None))
           (ev_next_evm_env inner (fst (pas ! i)) (apply_gas_limit b (snd (pas ! i)))))
       [0..<length pas]"
proof (induction pas arbitrary: b)
  case Nil
  show ?case by simp
next
  case (Cons pa pas)
  obtain p a where pa: "pa = (p, a)" by (cases pa)
  show ?case
  proof (cases "ev_next_evm_env inner p (apply_gas_limit b a)")
    case (Inl e)
    then have "next_evm_env sb inner p a b = (Inl e, b)"
      by (simp add: next_evm_env_def)
    then show ?thesis
      using Inl by (simp add: runs_Cons pa Cons.IH map_upt_Suc del: upt_Suc)
  next
    case (Inr env)
    then have "next_evm_env sb inner p a b =
        (Inr (sb env (ov_next_base_fee b)), b\<lparr>ov_next_base_fee := None\<rparr>)"
      by (simp add: next_evm_env_def take_next_base_fee_def)
    then show ?thesis
      using Inr by (simp add: runs_Cons pa Cons.IH map_upt_Suc del: upt_Suc)
  qed
qed

text \<open>
  In any run of block-environment builds after a base fee was set, the first build that
  succeeds gets the override and no other one does; builds that fail before it consume
  nothing, and every build asks the wrapped configuration with the gas limit applied.
\<close>

theorem base_fee_used_once:
  "fst (runs (\<lambda>(p, a). next_evm_env sb inner p a) pas (set_next_base_fee fee b)) =
     map (\<lambda>i. map_sum id
           (\<lambda>env. sb env
              (if list_all (\<lambda>(p, a). isl (ev_next_evm_env inner p (apply_gas_limit b a))) (take i pas)
               then Some fee else None))
           (ev_next_evm_env inner (fst (pas ! i)) (apply_gas_limit b (snd (pas ! i)))))
       [0..<length pas]"
  by (simp add: runs_next_evm_env set_next_base_fee_def)

text \<open>
  Once a gas limit is set, every later block environment is requested with it, however
  many environments were built in between, and the other attributes pass through.
\<close>

theorem gas_limit_persists:
  "map_sum id (\<lambda>_. ()) (fst (next_evm_env sb inner parent attrs
      (snd (runs (\<lambda>(p, a). next_evm_env sb inner p a) pas (set_gas_limit g b))))) =
    map_sum id (\<lambda>_. ()) (ev_next_evm_env inner parent (attrs\<lparr>nb_gas_limit := g\<rparr>))"
proof -
  have "gas_limit (snd (runs (\<lambda>(p, a). next_evm_env sb inner p a) pas b)) = gas_limit b" for b
    by (induction pas arbitrary: b) (auto simp: runs_Cons)
  then have "apply_gas_limit (snd (runs (\<lambda>(p, a). next_evm_env sb inner p a) pas (set_gas_limit g b)))
      attrs = attrs\<lparr>nb_gas_limit := g\<rparr>"
    by (simp add: apply_gas_limit_def)
  then show ?thesis
    by (simp add: next_evm_env_def case_prod_beta split: sum.split)
qed

text \<open>
  C5: An impersonated transaction keeps its sender from validation to execution: if the pool
  validated it while its sender was impersonated, then whatever the impersonation state
  went through since (impersonation stopped, other transactions recorded, dropped or mined),
  as long as this transaction itself was not forgotten, executing its encoding attributes
  it to that sender and does not run signature recovery.
\<close>

theorem impersonated_sender_reaches_execution:
  assumes "is_impersonated s (pt_sender T tx)"
    and "list_all (keeps_sender (pt_hash T tx)) cs"
    and "decode_2718_exact C raw = Inr btx" and "recalculate_hash C btx = pt_hash T tx"
  shows "convert_tx C (fold imp_exec cs (snd (validate_transaction T inner origin tx s))) raw =
    Inr (btx, pt_sender T tx)"
  using assms
  by (simp add: convert_tx_def keeps_sender_execs validate_impersonated)

text \<open>An instance: transactions are (hash, sender, nonce) triples, encoded by the hash's low byte.\<close>

definition demo_tx :: "(b256 \<times> address \<times> u64) pool_transaction" where
  "demo_tx = \<lparr>pt_hash = fst, pt_sender = fst \<circ> snd, pt_nonce = snd \<circ> snd\<rparr>"

definition demo_codec :: "b256 tx_codec" where
  "demo_codec =
     \<lparr>decode_2718_exact = (\<lambda>bs. case bs of [x] \<Rightarrow> Inr (ucast x) | _ \<Rightarrow> Inl ''unexpected length''),
      recalculate_hash = id, try_recover = (\<lambda>_. Inl ''invalid signature'')\<rparr>"

theorem impersonated_sender_reaches_execution_witness:
  "convert_tx demo_codec (fold imp_exec [StopImpersonating 9, Forget 3]
     (snd (validate_transaction demo_tx (\<lambda>_ _. OtherOutcome ()) () (7, 9, 0)
       (impersonate 9 impersonation_default)))) [7] = Inr (7, 9)"
  using impersonated_sender_reaches_execution [of "impersonate 9 impersonation_default" demo_tx
      "(7, 9, 0)" "[StopImpersonating 9, Forget 3]" demo_codec "[7]" 7 "\<lambda>_ _. OtherOutcome ()" "()"]
  by (simp add: demo_tx_def demo_codec_def is_impersonated_def impersonate_def)

text \<open>
  Executing a payload transaction fails exactly when its encoding does not decode, or its
  sender is not on record and its signature does not recover; the error carries the text of
  the failure, and otherwise the sender on record has priority over the recovered one.
\<close>

theorem convert_tx_cases:
  "convert_tx C s raw =
     (case decode_2718_exact C raw of
        Inl e \<Rightarrow> Inl (TxConvertError e)
      | Inr tx \<Rightarrow>
          map_sum TxConvertError (Pair tx)
            (case abs_senders (abs_imp s) (recalculate_hash C tx) of
               Some a \<Rightarrow> Inr a | None \<Rightarrow> try_recover C tx))"
  by (auto simp: convert_tx_def abs_imp_def split: sum.split option.split)

end
