(* ===== verification/Mining.thy ===== *)
theory Mining
  imports Anvil_Prelude
begin

text \<open>
  Mining control (src/src/mining.rs): the mode (automine, manual, interval) in a watch
  channel, the counter of outstanding block triggers with its wake-up signal, the stream the
  local miner polls, and the automine task. The interval task is in \<open>Interval_Task\<close>, the
  stream and its triggers under concurrency in \<open>Mining_Race\<close>.

  The watch channel and \<open>Notify\<close> are tokio's: records of the functions the code calls, with
  their documented behaviour as laws. The atomic counter is the standard library's.
\<close>

section \<open>Library interfaces\<close>

type_synonym usize = "64 word"

text \<open>\<open>Duration\<close>: seconds and nanoseconds.\<close>

record duration =
  dur_secs :: u64
  dur_nanos :: "32 word"

definition from_secs :: "u64 \<Rightarrow> duration" where
  "from_secs s = \<lparr>dur_secs = s, dur_nanos = 0\<rparr>"

definition as_secs :: "duration \<Rightarrow> u64" where
  "as_secs d = dur_secs d"

text \<open>
  The watch channel (state \<open>'w\<close>, a receiver's position \<open>'rx\<close>): a cell with the latest value,
  and receivers that can tell whether they have seen it.
\<close>

record ('w, 'rx, 'a) watch_ops =
  w_channel :: "'a \<Rightarrow> 'w"
  w_borrow :: "'w \<Rightarrow> 'a"
  w_send_replace :: "'a \<Rightarrow> 'w \<Rightarrow> 'w"
  w_subscribe :: "'w \<Rightarrow> 'rx"
  w_borrow_and_update :: "'w \<Rightarrow> 'rx \<Rightarrow> 'a \<times> 'rx"
  w_has_changed :: "'w \<Rightarrow> 'rx \<Rightarrow> bool"
  w_mark_seen :: "'w \<Rightarrow> 'rx \<Rightarrow> 'rx"
  w_closed :: "'w \<Rightarrow> bool"

definition watch_laws :: "('w, 'rx, 'a) watch_ops \<Rightarrow> bool" where
  "watch_laws W \<longleftrightarrow>
     (\<forall>v. w_borrow W (w_channel W v) = v) \<and>
     (\<forall>v w. w_borrow W (w_send_replace W v w) = v) \<and>
     (\<forall>w rx. fst (w_borrow_and_update W w rx) = w_borrow W w)"

text \<open>For the receivers of a channel (\<open>attached\<close>): when a value counts as seen.\<close>

definition watch_receiver_laws ::
  "('w, 'rx, 'a) watch_ops \<Rightarrow> ('w \<Rightarrow> 'rx \<Rightarrow> bool) \<Rightarrow> bool" where
  "watch_receiver_laws W attached \<longleftrightarrow>
     (\<forall>w. attached w (w_subscribe W w) \<and> \<not> w_has_changed W w (w_subscribe W w)) \<and>
     (\<forall>w rx. attached w rx \<longrightarrow> attached w (snd (w_borrow_and_update W w rx)) \<and>
        \<not> w_has_changed W w (snd (w_borrow_and_update W w rx))) \<and>
     (\<forall>w rx. attached w rx \<longrightarrow> attached w (w_mark_seen W w rx) \<and>
        \<not> w_has_changed W w (w_mark_seen W w rx)) \<and>
     (\<forall>v w rx. attached w rx \<longrightarrow> attached (w_send_replace W v w) rx \<and>
        w_has_changed W (w_send_replace W v w) rx)"

text \<open>
  \<open>Notify\<close> (state \<open>'n\<close>, a \<open>notified()\<close> future \<open>'f\<close>): polling a future tells whether it is
  ready. \<open>sole\<close> says that the given future is the only live one. With a single future, a
  \<open>notify_one\<close> makes it ready, or the next one created: if the future is waiting it is
  notified, and otherwise a permit is stored, of which there is at most one. A future that is
  ready in its first poll has used the permit up; one that was waiting has not, so that a
  second \<open>notify_one\<close> can leave a permit behind.
\<close>

record ('n, 'f) notify_ops =
  n_default :: 'n
  n_notify_one :: "'n \<Rightarrow> 'n"
  n_notified :: "'n \<Rightarrow> 'f \<times> 'n"
  n_poll :: "'f \<Rightarrow> 'n \<Rightarrow> bool \<times> 'f \<times> 'n"

definition armed :: "('n, 'f) notify_ops \<Rightarrow> 'f option \<Rightarrow> 'n \<Rightarrow> bool" where
  "armed N fo n =
     (case fo of
        Some f \<Rightarrow> fst (n_poll N f n)
      | None \<Rightarrow> (let (f, n') = n_notified N n in fst (n_poll N f n')))"

definition notify_laws :: "('n, 'f) notify_ops \<Rightarrow> ('f option \<Rightarrow> 'n \<Rightarrow> bool) \<Rightarrow> bool" where
  "notify_laws N sole \<longleftrightarrow>
     sole None (n_default N) \<and>
     (\<forall>fo n. sole fo n \<longrightarrow> sole fo (n_notify_one N n) \<and> armed N fo (n_notify_one N n)) \<and>
     (\<forall>n f n'. sole None n \<and> n_notified N n = (f, n') \<longrightarrow> sole (Some f) n') \<and>
     (\<forall>f n f' n'. sole (Some f) n \<and> n_poll N f n = (False, f', n') \<longrightarrow> sole (Some f') n') \<and>
     (\<forall>f n f' n'. sole (Some f) n \<and> n_poll N f n = (True, f', n') \<longrightarrow> sole None n') \<and>
     (\<forall>n f n' f' n''. sole None n \<and> n_notified N n = (f, n') \<and> n_poll N f n' = (True, f', n'') \<longrightarrow>
        \<not> armed N None n'')"

lemma notify_lawsD:
  assumes "notify_laws N sole"
  shows "sole None (n_default N)"
    and "sole fo n \<Longrightarrow> sole fo (n_notify_one N n)"
    and "sole fo n \<Longrightarrow> armed N fo (n_notify_one N n)"
    and "sole None n \<Longrightarrow> n_notified N n = (f, n') \<Longrightarrow> sole (Some f) n'"
    and "sole (Some f) n \<Longrightarrow> n_poll N f n = (False, f', n') \<Longrightarrow> sole (Some f') n'"
    and "sole (Some f) n \<Longrightarrow> n_poll N f n = (True, f', n') \<Longrightarrow> sole None n'"
    and "sole None n \<Longrightarrow> n_notified N n = (f, n') \<Longrightarrow> n_poll N f n' = (True, f', n'') \<Longrightarrow>
      \<not> armed N None n''"
  using assms unfolding notify_laws_def by blast+

text \<open>\<open>AtomicUsize\<close>: \<open>fetch_add\<close> wraps.\<close>

definition fetch_add :: "usize \<Rightarrow> usize \<Rightarrow> usize \<times> usize" where
  "fetch_add d p = (p, p + d)"

definition compare_exchange :: "usize \<Rightarrow> usize \<Rightarrow> usize \<Rightarrow> bool \<times> usize" where
  "compare_exchange current new p = (if p = current then (True, new) else (False, p))"

section \<open>Mode and controller\<close>

datatype mining_mode =
    Automine
  | Manual
  | Interval duration

record 'n mining_triggers =
  mt_pending :: usize
  mt_notify :: 'n

record ('w, 'n) mining_controller =
  mode_tx :: 'w
  triggers :: "'n mining_triggers"

type_synonym ('w, 'rx) mode_watch = "('w, 'rx, mining_mode) watch_ops"

definition mining_triggers_default :: "('n, 'f) notify_ops \<Rightarrow> 'n mining_triggers" where
  "mining_triggers_default N = \<lparr>mt_pending = 0, mt_notify = n_default N\<rparr>"

definition mining_controller_default ::
  "('w, 'rx) mode_watch \<Rightarrow> ('n, 'f) notify_ops \<Rightarrow> ('w, 'n) mining_controller" where
  "mining_controller_default W N =
     \<lparr>mode_tx = w_channel W Automine, triggers = mining_triggers_default N\<rparr>"

definition is_automine :: "('w, 'rx) mode_watch \<Rightarrow> ('w, 'n) mining_controller \<Rightarrow> bool" where
  "is_automine W m \<longleftrightarrow> w_borrow W (mode_tx m) = Automine"

definition interval_mining :: "('w, 'rx) mode_watch \<Rightarrow> ('w, 'n) mining_controller \<Rightarrow> u64 option" where
  "interval_mining W m =
     (case w_borrow W (mode_tx m) of
        Interval d \<Rightarrow> Some (as_secs d)
      | Automine \<Rightarrow> None
      | Manual \<Rightarrow> None)"

text \<open>The match of \<open>set_automine\<close>: the mode to send, or \<open>None\<close> for its early returns.\<close>

definition automine_next :: "mining_mode \<Rightarrow> bool \<Rightarrow> mining_mode option" where
  "automine_next current enabled =
     (case (current, enabled) of
        (Automine, True) \<Rightarrow> None
      | (Automine, False) \<Rightarrow> Some Manual
      | (_, True) \<Rightarrow> Some Automine
      | (_, False) \<Rightarrow> None)"

definition set_automine ::
  "('w, 'rx) mode_watch \<Rightarrow> bool \<Rightarrow> ('w, 'n) mining_controller \<Rightarrow> ('w, 'n) mining_controller" where
  "set_automine W enabled m =
     (case automine_next (w_borrow W (mode_tx m)) enabled of
        None \<Rightarrow> m
      | Some next_mode \<Rightarrow> m\<lparr>mode_tx := w_send_replace W next_mode (mode_tx m)\<rparr>)"

declare automine_next_def [simp]

definition set_interval_mining ::
  "('w, 'rx) mode_watch \<Rightarrow> u64 \<Rightarrow> ('w, 'n) mining_controller \<Rightarrow> ('w, 'n) mining_controller" where
  "set_interval_mining W interval_secs m =
     m\<lparr>mode_tx := w_send_replace W
         (if interval_secs = 0 then Manual else Interval (from_secs interval_secs)) (mode_tx m)\<rparr>"

definition subscribe_mode :: "('w, 'rx) mode_watch \<Rightarrow> ('w, 'n) mining_controller \<Rightarrow> 'rx" where
  "subscribe_mode W m = w_subscribe W (mode_tx m)"

section \<open>Triggers and their stream\<close>

definition triggers_trigger :: "('n, 'f) notify_ops \<Rightarrow> 'n mining_triggers \<Rightarrow> 'n mining_triggers" where
  "triggers_trigger N t =
     (let (_, p) = fetch_add 1 (mt_pending t);
          t1 = t\<lparr>mt_pending := p\<rparr>
      in t1\<lparr>mt_notify := n_notify_one N (mt_notify t1)\<rparr>)"

definition trigger ::
  "('n, 'f) notify_ops \<Rightarrow> ('w, 'n) mining_controller \<Rightarrow> ('w, 'n) mining_controller" where
  "trigger N m = m\<lparr>triggers := triggers_trigger N (triggers m)\<rparr>"

text \<open>
  The stream shares the counter and the signal with the controller; its own state is the
  future it is waiting on.
\<close>

record 'f mining_trigger_stream =
  notified :: "'f option"

definition triggers_stream :: "'n mining_triggers \<Rightarrow> 'f mining_trigger_stream" where
  "triggers_stream t = \<lparr>notified = None\<rparr>"

definition trigger_stream :: "('w, 'n) mining_controller \<Rightarrow> 'f mining_trigger_stream" where
  "trigger_stream m = triggers_stream (triggers m)"

datatype 'a poll = PollReady 'a | PollPending

text \<open>
  \<open>poll_next\<close> when no trigger interferes; the loop may run for ever for an arbitrary
  \<open>Notify\<close>, so the result is an option. The item of the stream is the unit value.
\<close>

partial_function (option) poll_next ::
  "('n, 'f) notify_ops \<Rightarrow> 'f mining_trigger_stream \<Rightarrow> 'n mining_triggers
     \<Rightarrow> (unit option poll \<times> 'f mining_trigger_stream \<times> 'n mining_triggers) option" where
  "poll_next N self t =
     (let pending = mt_pending t
      in if 0 < pending
         then (let (exchanged, p) = compare_exchange pending (pending - 1) (mt_pending t)
               in if exchanged
                  then Some (PollReady (Some ()), self, t\<lparr>mt_pending := p\<rparr>)
                  else poll_next N self t)
         else (let (f, n) = (case notified self of
                               None \<Rightarrow> n_notified N (mt_notify t)
                             | Some f \<Rightarrow> (f, mt_notify t));
                   (ready, f', n') = n_poll N f n
               in if ready
                  then poll_next N (self\<lparr>notified := None\<rparr>) (t\<lparr>mt_notify := n'\<rparr>)
                  else Some (PollPending, self\<lparr>notified := Some f'\<rparr>, t\<lparr>mt_notify := n'\<rparr>)))"

section \<open>Automine task\<close>

text \<open>
  One message of the pool's listener: if mining is automatic and the pool has a pending
  transaction at that moment, a block is triggered. The task runs until the listener ends.
  Every round comes with what happened before it: the calls of others (a function on the
  controller), and the number of pending transactions the pool reports.
\<close>

definition automine_round ::
  "('w, 'rx) mode_watch \<Rightarrow> ('n, 'f) notify_ops \<Rightarrow> nat
     \<Rightarrow> ('w, 'n) mining_controller \<Rightarrow> ('w, 'n) mining_controller" where
  "automine_round W N pending_txn_count m =
     (if is_automine W m \<and> 0 < pending_txn_count then trigger N m else m)"

fun run_automine_task ::
  "('w, 'rx) mode_watch \<Rightarrow> ('n, 'f) notify_ops
     \<Rightarrow> ((('w, 'n) mining_controller \<Rightarrow> ('w, 'n) mining_controller) \<times> nat) list
     \<Rightarrow> ('w, 'n) mining_controller \<Rightarrow> ('w, 'n) mining_controller" where
  "run_automine_task W N [] m = m"
| "run_automine_task W N ((others, count) # recvs) m =
     run_automine_task W N recvs (automine_round W N count (others m))"

section \<open>The mode\<close>

definition mode :: "('w, 'rx) mode_watch \<Rightarrow> ('w, 'n) mining_controller \<Rightarrow> mining_mode" where
  "mode W m = w_borrow W (mode_tx m)"

text \<open>The calls on the controller, and what they do to the mode alone.\<close>

datatype mining_call = SetAutomine bool | SetInterval u64 | Trigger

fun mining_exec ::
  "('w, 'rx) mode_watch \<Rightarrow> ('n, 'f) notify_ops \<Rightarrow> mining_call
     \<Rightarrow> ('w, 'n) mining_controller \<Rightarrow> ('w, 'n) mining_controller" where
  "mining_exec W N (SetAutomine b) m = set_automine W b m"
| "mining_exec W N (SetInterval s) m = set_interval_mining W s m"
| "mining_exec W N Trigger m = trigger N m"

fun spec_mode :: "mining_call \<Rightarrow> mining_mode \<Rightarrow> mining_mode" where
  "spec_mode (SetAutomine True) _ = Automine"
| "spec_mode (SetAutomine False) md = (if md = Automine then Manual else md)"
| "spec_mode (SetInterval s) _ = (if s = 0 then Manual else Interval (from_secs s))"
| "spec_mode Trigger md = md"

lemma mode_default: "watch_laws W \<Longrightarrow> mode W (mining_controller_default W N) = Automine"
  by (simp add: mode_def mining_controller_default_def watch_laws_def)

lemma mode_exec: "watch_laws W \<Longrightarrow> mode W (mining_exec W N c m) = spec_mode c (mode W m)"
  by (cases "(c, mode W m)" rule: spec_mode.cases)
    (auto simp: mode_def set_automine_def set_interval_mining_def trigger_def watch_laws_def
      split: mining_mode.split)

lemma mode_execs:
  "watch_laws W \<Longrightarrow> mode W (fold (mining_exec W N) cs m) = fold spec_mode cs (mode W m)"
  by (induction cs arbitrary: m) (simp_all add: mode_exec)

lemma mode_trigger [simp]: "mode W (trigger N m) = mode W m"
  by (simp add: mode_def trigger_def)

lemma set_mode_triggers [simp]:
  "triggers (set_automine W b m) = triggers m"
  "triggers (set_interval_mining W s m) = triggers m"
  by (auto simp: set_automine_def set_interval_mining_def split: option.split)

lemma is_automine_mode: "is_automine W m \<longleftrightarrow> mode W m = Automine"
  by (simp add: is_automine_def mode_def)

lemma interval_mining_mode:
  "interval_mining W m = (case mode W m of Interval d \<Rightarrow> Some (as_secs d) | _ \<Rightarrow> None)"
  by (simp add: interval_mining_def mode_def split: mining_mode.split)

section \<open>Triggers and polls\<close>

text \<open>
  A source of triggers and its consumer: what the RPC handlers and the local miner rely on.
  Every trigger is delivered to exactly one poll, and no poll invents one.
\<close>

locale trigger_source =
  fixes trig :: "'s \<Rightarrow> 's"
    and poll :: "'s \<Rightarrow> bool \<times> 's"
    and outstanding :: "'s \<Rightarrow> nat"
    and bound :: nat
    and ok :: "'s \<Rightarrow> bool"
  assumes outstanding_trig: "ok s \<Longrightarrow> outstanding s < bound \<Longrightarrow> outstanding (trig s) = Suc (outstanding s)"
    and ok_trig: "ok s \<Longrightarrow> ok (trig s)"
    and poll_iff: "ok s \<Longrightarrow> fst (poll s) \<longleftrightarrow> 0 < outstanding s"
    and outstanding_poll: "ok s \<Longrightarrow> outstanding (snd (poll s)) = outstanding s - 1"
    and ok_poll: "ok s \<Longrightarrow> ok (snd (poll s))"
begin

lemma outstanding_trigs:
  "ok s \<Longrightarrow> outstanding s + k \<le> bound \<Longrightarrow>
     ok ((trig ^^ k) s) \<and> outstanding ((trig ^^ k) s) = outstanding s + k"
  by (induction k) (auto simp: ok_trig outstanding_trig)

lemma polls_deliver:
  "ok s \<Longrightarrow> fst (runs (\<lambda>_. poll) us s) =
     map (\<lambda>i. i < outstanding s) [0..<length us]"
proof (induction us arbitrary: s)
  case Nil
  show ?case by simp
next
  case (Cons u us)
  then show ?case
    by (auto simp: runs_Cons poll_iff outstanding_poll ok_poll map_upt_Suc simp del: upt_Suc)
qed

lemma trigs_then_polls:
  assumes "ok s" and "outstanding s + k \<le> bound"
  shows "fst (runs (\<lambda>_. poll) us ((trig ^^ k) s)) =
    map (\<lambda>i. i < outstanding s + k) [0..<length us]"
proof -
  have "ok ((trig ^^ k) s)" and "outstanding ((trig ^^ k) s) = outstanding s + k"
    using outstanding_trigs [OF assms] by simp_all
  then show ?thesis using polls_deliver [of "(trig ^^ k) s" us] by simp
qed

end

text \<open>The counter and the stream together, as the miner sees them.\<close>

type_synonym ('n, 'f) trigger_state = "'f mining_trigger_stream \<times> 'n mining_triggers"

definition trig_step :: "('n, 'f) notify_ops \<Rightarrow> ('n, 'f) trigger_state \<Rightarrow> ('n, 'f) trigger_state" where
  "trig_step N = (\<lambda>(self, t). (self, triggers_trigger N t))"

definition poll_step ::
  "('n, 'f) notify_ops \<Rightarrow> ('n, 'f) trigger_state \<Rightarrow> bool \<times> ('n, 'f) trigger_state" where
  "poll_step N = (\<lambda>(self, t).
     (case poll_next N self t of
        Some (r, self', t') \<Rightarrow> (r = PollReady (Some ()), (self', t'))
      | None \<Rightarrow> (False, (self, t))))"

definition outstanding_triggers :: "('n, 'f) trigger_state \<Rightarrow> nat" where
  "outstanding_triggers = (\<lambda>(self, t). unat (mt_pending t))"

definition trigger_ok ::
  "('n, 'f) notify_ops \<Rightarrow> ('f option \<Rightarrow> 'n \<Rightarrow> bool) \<Rightarrow> ('n, 'f) trigger_state \<Rightarrow> bool" where
  "trigger_ok N sole = (\<lambda>(self, t). notify_laws N sole \<and> sole (notified self) (mt_notify t))"

lemma poll_next_ready:
  "0 < mt_pending t \<Longrightarrow> poll_next N self t =
     Some (PollReady (Some ()), self, t\<lparr>mt_pending := mt_pending t - 1\<rparr>)"
  by (subst poll_next.simps) (simp add: compare_exchange_def)

text \<open>
  With no trigger outstanding the loop ends after at most three rounds: a future that was
  notified while it waited, a permit left behind, and a new future that waits.
\<close>

lemma poll_next_round:
  assumes "notify_laws N sole" and "sole (notified u) (mt_notify t)" and "mt_pending t = 0"
  shows "\<not> armed N (notified u) (mt_notify t) \<Longrightarrow>
      \<exists>self' n'. poll_next N u t = Some (PollPending, self', t\<lparr>mt_notify := n'\<rparr>) \<and> sole (notified self') n'"
    and "armed N (notified u) (mt_notify t) \<Longrightarrow>
      \<exists>n'. poll_next N u t = poll_next N (u\<lparr>notified := None\<rparr>) (t\<lparr>mt_notify := n'\<rparr>) \<and> sole None n' \<and>
        (notified u = None \<longrightarrow> \<not> armed N None n')"
proof -
  note laws = notify_lawsD [OF assms(1)]
  obtain f n where fn: "(case notified u of None \<Rightarrow> n_notified N (mt_notify t)
      | Some f \<Rightarrow> (f, mt_notify t)) = (f, n)" by (rule prod.exhaust)
  obtain b f' n' where p: "n_poll N f n = (b, f', n')" by (rule prod_cases3)
  have sole: "sole (Some f) n" and b: "b = armed N (notified u) (mt_notify t)"
    using assms(2) fn p laws(4) by (auto simp: armed_def split: option.splits)
  have used: "\<not> armed N None n'" if "notified u = None" "b"
    using that assms(2) fn p laws(7) by auto
  show "\<exists>self' n'. poll_next N u t = Some (PollPending, self', t\<lparr>mt_notify := n'\<rparr>) \<and> sole (notified self') n'"
    if "\<not> armed N (notified u) (mt_notify t)"
    using that b laws(5) [OF sole] p
    by (intro exI [of _ "u\<lparr>notified := Some f'\<rparr>"] exI [of _ n'], subst poll_next.simps)
      (simp add: assms(3) fn)
  show "\<exists>n'. poll_next N u t = poll_next N (u\<lparr>notified := None\<rparr>) (t\<lparr>mt_notify := n'\<rparr>) \<and> sole None n' \<and>
      (notified u = None \<longrightarrow> \<not> armed N None n')"
    if "armed N (notified u) (mt_notify t)"
    using that b laws(6) [OF sole] p used
    by (intro exI [of _ n'], subst poll_next.simps) (simp add: assms(3) fn)
qed

lemma poll_next_idle:
  assumes "notify_laws N sole" and "sole (notified self) (mt_notify t)" and "mt_pending t = 0"
  shows "\<exists>self' n'. poll_next N self t = Some (PollPending, self', t\<lparr>mt_notify := n'\<rparr>) \<and>
    sole (notified self') n'"
proof -
  have fresh: "\<exists>self' n'. poll_next N u t' = Some (PollPending, self', t'\<lparr>mt_notify := n'\<rparr>) \<and>
      sole (notified self') n'"
    if u: "notified u = None" and t': "sole None (mt_notify t')" "mt_pending t' = 0"
    for u and t' :: "'a mining_triggers"
  proof (cases "armed N None (mt_notify t')")
    case True
    then obtain n' where n': "poll_next N u t' = poll_next N (u\<lparr>notified := None\<rparr>) (t'\<lparr>mt_notify := n'\<rparr>)"
      "sole None n'" "\<not> armed N None n'"
      using poll_next_round(2) [OF assms(1), of u t'] u t' by auto
    then show ?thesis
      using poll_next_round(1) [OF assms(1), of "u\<lparr>notified := None\<rparr>" "t'\<lparr>mt_notify := n'\<rparr>"] t'(2)
      by (auto simp: n'(1))
  next
    case False
    then show ?thesis using poll_next_round(1) [OF assms(1), of u t'] u t' by auto
  qed
  show ?thesis
  proof (cases "armed N (notified self) (mt_notify t)")
    case False
    then show ?thesis using poll_next_round(1) [OF assms] by blast
  next
    case True
    then obtain n' where n': "poll_next N self t = poll_next N (self\<lparr>notified := None\<rparr>) (t\<lparr>mt_notify := n'\<rparr>)"
      "sole None n'"
      using poll_next_round(2) [OF assms] by blast
    then show ?thesis
      using fresh [of "self\<lparr>notified := None\<rparr>" "t\<lparr>mt_notify := n'\<rparr>"] assms(3) by auto
  qed
qed

lemma poll_step_cases:
  assumes "trigger_ok N sole s"
  shows "fst (poll_step N s) \<longleftrightarrow> 0 < outstanding_triggers s"
    and "outstanding_triggers (snd (poll_step N s)) = outstanding_triggers s - 1"
    and "trigger_ok N sole (snd (poll_step N s))"
proof -
  obtain self t where s: "s = (self, t)" by (cases s)
  have ok: "notify_laws N sole" "sole (notified self) (mt_notify t)"
    using assms by (simp_all add: s trigger_ok_def)
  have "(fst (poll_step N s) \<longleftrightarrow> 0 < outstanding_triggers s) \<and>
     outstanding_triggers (snd (poll_step N s)) = outstanding_triggers s - 1 \<and>
     trigger_ok N sole (snd (poll_step N s))"
  proof (cases "mt_pending t = 0")
    case True
    then show ?thesis
      using poll_next_idle [OF ok] ok(1)
      by (auto simp: s poll_step_def outstanding_triggers_def trigger_ok_def)
  next
    case False
    then have pos: "0 < mt_pending t" by (simp add: word_neq_0_conv)
    then have "unat (mt_pending t - 1) = unat (mt_pending t) - 1"
      by (simp add: unat_minus_one False)
    with pos show ?thesis
      using ok by (simp add: s poll_step_def poll_next_ready outstanding_triggers_def trigger_ok_def
          unat_gt_0 False)
  qed
  then show "fst (poll_step N s) \<longleftrightarrow> 0 < outstanding_triggers s"
    and "outstanding_triggers (snd (poll_step N s)) = outstanding_triggers s - 1"
    and "trigger_ok N sole (snd (poll_step N s))"
    by simp_all
qed

lemma pending_trigger [simp]: "mt_pending (triggers_trigger N t) = mt_pending t + 1"
  by (simp add: triggers_trigger_def fetch_add_def)

lemma trig_step_ok: "trigger_ok N sole s \<Longrightarrow> trigger_ok N sole (trig_step N s)"
  by (cases s) (auto simp: trigger_ok_def trig_step_def triggers_trigger_def fetch_add_def
      intro: notify_lawsD)

lemma outstanding_trig_step:
  "outstanding_triggers s < 2 ^ 64 - 1 \<Longrightarrow>
     outstanding_triggers (trig_step N s) = Suc (outstanding_triggers s)"
  by (cases s) (simp add: outstanding_triggers_def trig_step_def unat_word_ariths)

interpretation trg: trigger_source "trig_step N" "poll_step N" outstanding_triggers "2 ^ 64 - 1"
    "trigger_ok N sole" for N sole
  by unfold_locales (simp_all add: poll_step_cases trig_step_ok outstanding_trig_step)

section \<open>Rounds of the automine task\<close>

text \<open>How many triggers a run of rounds issues, from the abstract mode alone.\<close>

fun spec_triggers :: "mining_mode \<Rightarrow> (mining_call list \<times> nat) list \<Rightarrow> nat" where
  "spec_triggers md [] = 0"
| "spec_triggers md ((cs, count) # recvs) =
     (let md' = fold spec_mode cs md
      in length (filter (\<lambda>c. c = Trigger) cs) +
         (if md' = Automine \<and> 0 < count then 1 else 0) + spec_triggers md' recvs)"

lemma pending_trigger_controller [simp]:
  "mt_pending (triggers (trigger N m)) = mt_pending (triggers m) + 1"
  by (simp add: trigger_def)

lemma pending_execs:
  "mt_pending (triggers (fold (mining_exec W N) cs m)) =
     mt_pending (triggers m) + of_nat (length (filter (\<lambda>c. c = Trigger) cs))"
proof (induction cs arbitrary: m)
  case (Cons c cs)
  then show ?case by (cases c) simp_all
qed simp

lemma pending_automine_task:
  "watch_laws W \<Longrightarrow>
   mt_pending (triggers (run_automine_task W N
      (map (\<lambda>(cs, count). (fold (mining_exec W N) cs, count)) recvs) m)) =
     mt_pending (triggers m) + of_nat (spec_triggers (mode W m) recvs)"
proof (induction recvs arbitrary: m)
  case Nil
  then show ?case by simp
next
  case (Cons r recvs)
  obtain cs count where r: "r = (cs, count)" by (cases r)
  let ?m = "fold (mining_exec W N) cs m"
  have md: "mode W ?m = fold spec_mode cs (mode W m)"
    using Cons.prems by (rule mode_execs)
  show ?case
    using Cons.IH [OF Cons.prems, of "automine_round W N count ?m"]
    by (simp add: r automine_round_def is_automine_mode md pending_execs Let_def)
qed

section \<open>Instances of the library interfaces\<close>

text \<open>
  For the witnesses: a watch channel is its value and a version, a receiver the version it
  has seen. \<open>Notify\<close> once as a flag, for the nodes whose triggers nobody waits for, and once in
  full for a single future: the stored permit, and whether the future is new, waiting or
  notified.
\<close>

definition demo_watch :: "(mining_mode \<times> nat, nat) mode_watch" where
  "demo_watch =
     \<lparr>w_channel = (\<lambda>v. (v, 0)), w_borrow = fst, w_send_replace = (\<lambda>v w. (v, Suc (snd w))),
      w_subscribe = snd, w_borrow_and_update = (\<lambda>w _. w),
      w_has_changed = (\<lambda>w rx. rx < snd w), w_mark_seen = (\<lambda>w _. snd w),
      w_closed = (\<lambda>_. False)\<rparr>"

definition demo_notify :: "(bool, unit) notify_ops" where
  "demo_notify =
     \<lparr>n_default = False, n_notify_one = (\<lambda>_. True), n_notified = Pair (),
      n_poll = (\<lambda>f n. (n, f, False))\<rparr>"

lemma demo_watch_laws: "watch_laws demo_watch"
  "watch_receiver_laws demo_watch (\<lambda>w rx. rx \<le> snd w)"
  by (simp_all add: watch_laws_def watch_receiver_laws_def demo_watch_def)

lemma demo_notify_armed: "armed demo_notify fo n = n"
  by (cases fo) (simp_all add: armed_def demo_notify_def)

datatype future_state = FNew | FWaiting | FNotified

definition permit_notify :: "(bool \<times> future_state, unit) notify_ops" where
  "permit_notify =
     \<lparr>n_default = (False, FNew),
      n_notify_one = (\<lambda>(permit, f). if f = FWaiting then (permit, FNotified) else (True, f)),
      n_notified = (\<lambda>(permit, f). ((), permit, FNew)),
      n_poll = (\<lambda>_ (permit, f). if f = FNotified then (True, (), permit, FNew)
        else if permit then (True, (), False, FNew) else (False, (), False, FWaiting))\<rparr>"

text \<open>A future that is dropped or done is not waiting, and a permit is stored only if none waits.\<close>

definition permit_sole :: "unit option \<Rightarrow> bool \<times> future_state \<Rightarrow> bool" where
  "permit_sole fo n \<longleftrightarrow> (fo = None \<longrightarrow> snd n = FNew) \<and> (snd n = FWaiting \<longrightarrow> \<not> fst n)"

lemma permit_notify_armed:
  "armed permit_notify fo n \<longleftrightarrow> fst n \<or> (fo \<noteq> None \<and> snd n = FNotified)"
  by (cases fo; cases n) (auto simp: armed_def permit_notify_def)

lemma permit_notify_laws: "notify_laws permit_notify permit_sole"
  unfolding notify_laws_def permit_notify_armed
  by (auto simp: permit_notify_def permit_sole_def split: if_splits)

section \<open>Properties\<close>

text \<open>
  The mode after any calls is what the mode machine says: automine can always be switched
  on; switching it off turns automatic mining into manual mining and leaves interval mining
  running; a zero interval is manual mining. The mode calls never touch the outstanding
  triggers, and a trigger never touches the mode.
\<close>

theorem mining_mode_machine:
  assumes "watch_laws W"
  shows "mode W (fold (mining_exec W N) cs (mining_controller_default W N)) =
      fold spec_mode cs Automine \<and>
    is_automine W (set_automine W b m) = b \<and>
    interval_mining W (set_automine W False m) = interval_mining W m \<and>
    interval_mining W (set_interval_mining W s m) = (if s = 0 then None else Some s) \<and>
    is_automine W (set_interval_mining W s m) = False \<and>
    triggers (set_interval_mining W s (set_automine W b m)) = triggers m \<and>
    mode W (trigger N m) = mode W m"
  using assms mode_exec [OF assms, of N "SetAutomine b" m] mode_exec [OF assms, of N "SetAutomine False" m]
    mode_exec [OF assms, of N "SetInterval s" m]
  by (auto simp: mode_execs mode_default is_automine_mode interval_mining_mode from_secs_def as_secs_def
      split: mining_mode.split; cases b; auto)

text \<open>
  C26: After any number of triggers the stream yields exactly that many items more than were
  outstanding, in the first polls, and is pending from then on; the poll loop always ends.
  (As long as fewer than \<open>2 ^ 64\<close> triggers are outstanding.)
\<close>

theorem stream_delivers_triggers:
  assumes "notify_laws N sole" and "sole (notified self) (mt_notify t)"
    and "unat (mt_pending t) + k < 2 ^ 64"
  shows "fst (runs (\<lambda>_. poll_step N) us (((trig_step N) ^^ k) (self, t))) =
      map (\<lambda>i. i < unat (mt_pending t) + k) [0..<length us] \<and>
    poll_next N self t \<noteq> None"
proof
  have ok: "trigger_ok N sole (self, t)"
    using assms(1,2) by (simp add: trigger_ok_def)
  have "outstanding_triggers (self, t) + k \<le> 2 ^ 64 - 1"
    using assms(3) by (simp add: outstanding_triggers_def)
  from trg.trigs_then_polls [OF ok this]
  show "fst (runs (\<lambda>_. poll_step N) us (((trig_step N) ^^ k) (self, t))) =
      map (\<lambda>i. i < unat (mt_pending t) + k) [0..<length us]"
    by (simp add: outstanding_triggers_def)
  show "poll_next N self t \<noteq> None"
  proof (cases "mt_pending t = 0")
    case True
    then show ?thesis using poll_next_idle [OF assms(1,2)] by auto
  next
    case False
    then show ?thesis by (simp add: poll_next_ready word_neq_0_conv)
  qed
qed

text \<open>The stream is waiting, and two triggers come in: the second leaves a permit.\<close>

theorem stream_delivers_triggers_witness:
  "fst (runs (\<lambda>_. poll_step permit_notify) [(), (), ()]
     (((trig_step permit_notify) ^^ 2) (\<lparr>notified = Some ()\<rparr>, \<lparr>mt_pending = 0, mt_notify = (False, FWaiting)\<rparr>))) =
     [True, True, False] \<and>
   snd (trig_step permit_notify (trig_step permit_notify
     (\<lparr>notified = Some ()\<rparr>, \<lparr>mt_pending = 0, mt_notify = (False, FWaiting)\<rparr>))) =
     \<lparr>mt_pending = 2, mt_notify = (True, FNotified)\<rparr>"
proof
  have "permit_sole (notified \<lparr>notified = Some ()\<rparr>)
      (mt_notify \<lparr>mt_pending = 0, mt_notify = (False, FWaiting)\<rparr>)"
    by (simp add: permit_sole_def)
  from stream_delivers_triggers [OF permit_notify_laws this, where k = 2 and us = "[(), (), ()]"]
  show "fst (runs (\<lambda>_. poll_step permit_notify) [(), (), ()]
     (((trig_step permit_notify) ^^ 2) (\<lparr>notified = Some ()\<rparr>, \<lparr>mt_pending = 0, mt_notify = (False, FWaiting)\<rparr>))) =
     [True, True, False]"
    by (simp add: upt_rec)
  show "snd (trig_step permit_notify (trig_step permit_notify
     (\<lparr>notified = Some ()\<rparr>, \<lparr>mt_pending = 0, mt_notify = (False, FWaiting)\<rparr>))) =
     \<lparr>mt_pending = 2, mt_notify = (True, FNotified)\<rparr>"
    by (simp add: trig_step_def triggers_trigger_def fetch_add_def permit_notify_def)
qed

text \<open>
  The automine task triggers one block for each message of the pool listener that arrives
  while the mode is automine and the pool reports a pending transaction, and none
  otherwise, whatever mode changes and triggers other parties make in between.
\<close>

theorem automine_task_triggers:
  assumes "watch_laws W"
  shows "mt_pending (triggers (run_automine_task W N
      (map (\<lambda>(cs, count). (fold (mining_exec W N) cs, count)) recvs)
      (mining_controller_default W N))) = of_nat (spec_triggers Automine recvs)"
  using pending_automine_task [OF assms, of N recvs "mining_controller_default W N"]
  by (simp add: mode_default [OF assms])
    (simp add: mining_controller_default_def mining_triggers_default_def)

theorem mining_mode_machine_witness:
  "interval_mining demo_watch (fold (mining_exec demo_watch demo_notify)
     [SetAutomine False, SetInterval 5, SetAutomine False]
     (mining_controller_default demo_watch demo_notify)) = Some 5"
  using mining_mode_machine [OF demo_watch_laws(1), where N = demo_notify
      and cs = "[SetAutomine False, SetInterval 5, SetAutomine False]"]
  by (simp add: interval_mining_mode from_secs_def as_secs_def)

theorem automine_task_triggers_witness:
  "mt_pending (triggers (run_automine_task demo_watch demo_notify
      (map (\<lambda>(cs, count). (fold (mining_exec demo_watch demo_notify) cs, count))
        [([], 1), ([SetAutomine False], 4), ([SetAutomine True], 2)])
      (mining_controller_default demo_watch demo_notify))) = 2"
  using automine_task_triggers [OF demo_watch_laws(1), where N = demo_notify
      and recvs = "[([], 1), ([SetAutomine False], 4), ([SetAutomine True], 2)]"]
  by simp

end
