(* ===== verification/Mining_Race.thy ===== *)
theory Mining_Race
  imports Mining
begin

text \<open>
  Triggers and the trigger stream (src/src/mining.rs) under concurrency: any number of
  threads call \<open>trigger\<close> while the local miner polls the one stream the node creates. One
  atomic operation on the counter, or one call into \<open>Notify\<close>, is one step. The interesting
  point is the wake-up: a poll that has seen a zero counter is about to wait while a trigger
  comes in.
\<close>

section \<open>Threads and steps\<close>

text \<open>
  The consumer in \<open>poll_next\<close>: not polling, about to load the counter, with the loaded
  value, with the future in place and about to poll it, or returned \<open>Pending\<close>.
\<close>

datatype consumer_pc = CIdle | CLoading | CLoaded usize | CArmed | CParked

record ('n, 'f) mining_race =
  mr_triggers :: "'n mining_triggers"
  mr_stream :: "'f mining_trigger_stream"
  mr_pc :: consumer_pc
  mr_adding :: "nat \<Rightarrow> bool"
  mr_added :: nat
  mr_yielded :: nat

inductive mr_step ::
  "('n, 'f) notify_ops \<Rightarrow> ('n, 'f) mining_race \<Rightarrow> ('n, 'f) mining_race \<Rightarrow> bool" for N where
  trigger_add:
    "\<not> mr_adding s i \<Longrightarrow> fetch_add 1 (mt_pending (mr_triggers s)) = (old, p) \<Longrightarrow>
     mr_step N s (s\<lparr>mr_triggers := (mr_triggers s)\<lparr>mt_pending := p\<rparr>,
                    mr_adding := (mr_adding s)(i := True), mr_added := Suc (mr_added s)\<rparr>)"
| trigger_notify:
    "mr_adding s i \<Longrightarrow>
     mr_step N s (s\<lparr>mr_triggers :=
                      (mr_triggers s)\<lparr>mt_notify := n_notify_one N (mt_notify (mr_triggers s))\<rparr>,
                    mr_adding := (mr_adding s)(i := False)\<rparr>)"
| poll_start:
    "mr_pc s = CIdle \<or> mr_pc s = CParked \<Longrightarrow> mr_step N s (s\<lparr>mr_pc := CLoading\<rparr>)"
| poll_load:
    "mr_pc s = CLoading \<Longrightarrow>
     mr_step N s (s\<lparr>mr_pc := CLoaded (mt_pending (mr_triggers s))\<rparr>)"
| poll_take:
    "mr_pc s = CLoaded p \<Longrightarrow> 0 < p \<Longrightarrow>
     compare_exchange p (p - 1) (mt_pending (mr_triggers s)) = (True, p') \<Longrightarrow>
     mr_step N s (s\<lparr>mr_triggers := (mr_triggers s)\<lparr>mt_pending := p'\<rparr>, mr_pc := CIdle,
                    mr_yielded := Suc (mr_yielded s)\<rparr>)"
| poll_retry:
    "mr_pc s = CLoaded p \<Longrightarrow> 0 < p \<Longrightarrow>
     compare_exchange p (p - 1) (mt_pending (mr_triggers s)) = (False, p') \<Longrightarrow>
     mr_step N s (s\<lparr>mr_pc := CLoading\<rparr>)"
| poll_arm_new:
    "mr_pc s = CLoaded 0 \<Longrightarrow> notified (mr_stream s) = None \<Longrightarrow>
     n_notified N (mt_notify (mr_triggers s)) = (f, n) \<Longrightarrow>
     mr_step N s (s\<lparr>mr_triggers := (mr_triggers s)\<lparr>mt_notify := n\<rparr>,
                    mr_stream := (mr_stream s)\<lparr>notified := Some f\<rparr>, mr_pc := CArmed\<rparr>)"
| poll_arm_old:
    "mr_pc s = CLoaded 0 \<Longrightarrow> notified (mr_stream s) = Some f \<Longrightarrow>
     mr_step N s (s\<lparr>mr_pc := CArmed\<rparr>)"
| poll_ready:
    "mr_pc s = CArmed \<Longrightarrow> notified (mr_stream s) = Some f \<Longrightarrow>
     n_poll N f (mt_notify (mr_triggers s)) = (True, f', n) \<Longrightarrow>
     mr_step N s (s\<lparr>mr_triggers := (mr_triggers s)\<lparr>mt_notify := n\<rparr>,
                    mr_stream := (mr_stream s)\<lparr>notified := None\<rparr>, mr_pc := CLoading\<rparr>)"
| poll_park:
    "mr_pc s = CArmed \<Longrightarrow> notified (mr_stream s) = Some f \<Longrightarrow>
     n_poll N f (mt_notify (mr_triggers s)) = (False, f', n) \<Longrightarrow>
     mr_step N s (s\<lparr>mr_triggers := (mr_triggers s)\<lparr>mt_notify := n\<rparr>,
                    mr_stream := (mr_stream s)\<lparr>notified := Some f'\<rparr>, mr_pc := CParked\<rparr>)"

definition mr_init :: "('n, 'f) notify_ops \<Rightarrow> ('n, 'f) mining_race" where
  "mr_init N =
     \<lparr>mr_triggers = mining_triggers_default N,
      mr_stream = triggers_stream (mining_triggers_default N), mr_pc = CIdle,
      mr_adding = (\<lambda>_. False), mr_added = 0, mr_yielded = 0\<rparr>"

inductive mr_reach :: "('n, 'f) notify_ops \<Rightarrow> ('n, 'f) mining_race \<Rightarrow> bool" for N where
  mr_start: "mr_reach N (mr_init N)"
| mr_next: "mr_reach N s \<Longrightarrow> mr_step N s s' \<Longrightarrow> mr_reach N s'"

inductive_cases mr_stepE: "mr_step N s s'"

section \<open>Invariant\<close>

text \<open>
  The consumer past its load of a zero counter, or parked, with a trigger outstanding whose
  \<open>notify_one\<close> has happened: then its future is (or will be) ready.
\<close>

fun waits :: "consumer_pc \<Rightarrow> bool" where
  "waits CIdle = False"
| "waits CLoading = False"
| "waits (CLoaded p) = (p = 0)"
| "waits CArmed = True"
| "waits CParked = True"

definition wakeup_inv :: "('n, 'f) notify_ops \<Rightarrow> ('n, 'f) mining_race \<Rightarrow> bool" where
  "wakeup_inv N s \<longleftrightarrow>
     (waits (mr_pc s) \<and> 0 < mt_pending (mr_triggers s) \<and> (\<forall>i. \<not> mr_adding s i) \<longrightarrow>
        armed N (notified (mr_stream s)) (mt_notify (mr_triggers s)))"

definition count_inv :: "('n, 'f) mining_race \<Rightarrow> bool" where
  "count_inv s \<longleftrightarrow>
     (mr_added s < 2 ^ 64 \<longrightarrow> mr_yielded s + unat (mt_pending (mr_triggers s)) = mr_added s)"

definition sole_inv :: "('f option \<Rightarrow> 'n \<Rightarrow> bool) \<Rightarrow> ('n, 'f) mining_race \<Rightarrow> bool" where
  "sole_inv sole s \<longleftrightarrow> sole (notified (mr_stream s)) (mt_notify (mr_triggers s))"

lemma sole_step:
  assumes "notify_laws N sole" and "mr_step N s s'" and "sole_inv sole s"
  shows "sole_inv sole s'"
  using assms(2,3)
  by (cases rule: mr_step.cases)
    (auto simp: sole_inv_def fetch_add_def compare_exchange_def intro: notify_lawsD(2,4-6) [OF assms(1)])

lemma wakeup_step:
  assumes laws: "notify_laws N sole" and step: "mr_step N s s'" and sole: "sole_inv sole s"
    and inv: "wakeup_inv N s"
  shows "wakeup_inv N s'"
  using step
proof (cases rule: mr_step.cases)
  case (trigger_notify i)
  then show ?thesis
    using sole notify_lawsD(3) [OF laws] by (auto simp: wakeup_inv_def sole_inv_def)
next
  case (poll_arm_new f n)
  then show ?thesis
    using inv by (auto simp: wakeup_inv_def armed_def)
next
  case (poll_park f f' n)
  have "\<not> (0 < mt_pending (mr_triggers s) \<and> (\<forall>i. \<not> mr_adding s i))"
    using inv poll_park by (auto simp: wakeup_inv_def armed_def)
  then show ?thesis
    using poll_park by (auto simp: wakeup_inv_def)
qed (use inv in \<open>auto simp: wakeup_inv_def fetch_add_def compare_exchange_def\<close>)

lemma count_step: "mr_step N s s' \<Longrightarrow> count_inv s \<Longrightarrow> count_inv s'"
proof (induction rule: mr_step.induct)
  case (trigger_add s i old p)
  then show ?case
    by (auto simp: count_inv_def fetch_add_def unat_word_ariths)
next
  case (poll_take s p p')
  then have "mt_pending (mr_triggers s) = p" "p' = p - 1" "p \<noteq> 0"
    by (auto simp: compare_exchange_def split: if_splits)
  moreover from \<open>p \<noteq> 0\<close> have "Suc (unat (p - 1)) = unat p"
    by (simp add: unat_minus_one unat_gt_0)
  ultimately show ?case
    using poll_take(4) by (auto simp: count_inv_def)
qed (auto simp: count_inv_def)

lemma mr_invariants:
  assumes "notify_laws N sole" and "mr_reach N s"
  shows "sole_inv sole s \<and> wakeup_inv N s \<and> count_inv s"
  using assms(2)
proof (induction rule: mr_reach.induct)
  case mr_start
  show ?case
    using notify_lawsD(1) [OF assms(1)]
    by (simp add: sole_inv_def wakeup_inv_def count_inv_def mr_init_def triggers_stream_def
        mining_triggers_default_def)
next
  case (mr_next s s')
  then show ?case
    using sole_step [OF assms(1)] wakeup_step [OF assms(1)] count_step by blast
qed

section \<open>Properties\<close>

text \<open>
  C6: No trigger is lost and none is served twice, however triggers and polls interleave: the
  blocks yielded and the triggers outstanding add up to the triggers made; and when the
  miner is parked with a trigger outstanding whose call has returned, its future has been
  made ready, so that it is polled again.
\<close>

theorem no_trigger_lost:
  assumes "notify_laws N sole" and "mr_reach N s"
  shows "(mr_added s < 2 ^ 64 \<longrightarrow>
      mr_yielded s + unat (mt_pending (mr_triggers s)) = mr_added s) \<and>
    (mr_pc s = CParked \<and> 0 < mt_pending (mr_triggers s) \<and> (\<forall>i. \<not> mr_adding s i) \<longrightarrow>
      armed N (notified (mr_stream s)) (mt_notify (mr_triggers s)))"
  using mr_invariants [OF assms] by (auto simp: wakeup_inv_def count_inv_def)

text \<open>
  A run: the miner finds nothing and is about to wait when a trigger comes in, and another
  one while it is parked. The first makes its future ready, the second leaves a permit.
\<close>

lemma demo_race:
  "mr_reach permit_notify
     \<lparr>mr_triggers = \<lparr>mt_pending = 2, mt_notify = (True, FNotified)\<rparr>, mr_stream = \<lparr>notified = Some ()\<rparr>,
      mr_pc = CParked, mr_adding = (\<lambda>_. False)(0 := False), mr_added = 2, mr_yielded = 0\<rparr>"
proof -
  let ?N = permit_notify
  let ?st = "\<lambda>p n f pc b k. \<lparr>mr_triggers = \<lparr>mt_pending = p, mt_notify = n\<rparr>,
    mr_stream = \<lparr>notified = f\<rparr>, mr_pc = pc, mr_adding = (\<lambda>_. False)(0 := b), mr_added = k,
    mr_yielded = 0\<rparr> :: (bool \<times> future_state, unit) mining_race"
  let ?new = "(False, FNew)" and ?wait = "(False, FWaiting)" and ?woken = "(False, FNotified)"
  have "mr_init ?N = ?st 0 ?new None CIdle False 0"
    by (simp add: mr_init_def mining_triggers_default_def permit_notify_def triggers_stream_def fun_eq_iff)
  then have "mr_reach ?N (?st 0 ?new None CIdle False 0)"
    using mr_start [of ?N] by simp
  moreover have "mr_step ?N (?st 0 ?new None CIdle False 0) (?st 0 ?new None CLoading False 0)"
    using poll_start [of "?st 0 ?new None CIdle False 0" ?N] by simp
  moreover have "mr_step ?N (?st 0 ?new None CLoading False 0) (?st 0 ?new None (CLoaded 0) False 0)"
    using poll_load [of "?st 0 ?new None CLoading False 0" ?N] by simp
  moreover have "mr_step ?N (?st 0 ?new None (CLoaded 0) False 0) (?st 0 ?new (Some ()) CArmed False 0)"
    using poll_arm_new [of "?st 0 ?new None (CLoaded 0) False 0" ?N "()" ?new]
    by (simp add: permit_notify_def)
  moreover have "mr_step ?N (?st 0 ?new (Some ()) CArmed False 0) (?st 1 ?new (Some ()) CArmed True 1)"
    using trigger_add [of "?st 0 ?new (Some ()) CArmed False 0" 0 0 1 ?N]
    by (simp add: fetch_add_def)
  moreover have "mr_step ?N (?st 1 ?new (Some ()) CArmed True 1) (?st 1 ?wait (Some ()) CParked True 1)"
    using poll_park [of "?st 1 ?new (Some ()) CArmed True 1" "()" ?N "()" ?wait]
    by (simp add: permit_notify_def)
  moreover have "mr_step ?N (?st 1 ?wait (Some ()) CParked True 1) (?st 1 ?woken (Some ()) CParked False 1)"
    using trigger_notify [of "?st 1 ?wait (Some ()) CParked True 1" 0 ?N]
    by (simp add: permit_notify_def)
  moreover have "mr_step ?N (?st 1 ?woken (Some ()) CParked False 1) (?st 2 ?woken (Some ()) CParked True 2)"
    using trigger_add [of "?st 1 ?woken (Some ()) CParked False 1" 0 1 2 ?N]
    by (simp add: fetch_add_def numeral_2_eq_2)
  moreover have "mr_step ?N (?st 2 ?woken (Some ()) CParked True 2) (?st 2 (True, FNotified) (Some ()) CParked False 2)"
    using trigger_notify [of "?st 2 ?woken (Some ()) CParked True 2" 0 ?N]
    by (simp add: permit_notify_def)
  ultimately show ?thesis
    by (meson mr_next)
qed

theorem no_trigger_lost_witness:
  "\<exists>s. mr_reach permit_notify s \<and> mr_pc s = CParked \<and> mr_added s = 2 \<and>
     mr_yielded s + unat (mt_pending (mr_triggers s)) = 2 \<and>
     armed permit_notify (notified (mr_stream s)) (mt_notify (mr_triggers s))"
proof -
  define s :: "(bool \<times> future_state, unit) mining_race" where
    "s = \<lparr>mr_triggers = \<lparr>mt_pending = 2, mt_notify = (True, FNotified)\<rparr>,
      mr_stream = \<lparr>notified = Some ()\<rparr>, mr_pc = CParked, mr_adding = (\<lambda>_. False)(0 := False),
      mr_added = 2, mr_yielded = 0\<rparr>"
  have reach: "mr_reach permit_notify s" unfolding s_def by (rule demo_race)
  have s: "mr_pc s = CParked" "mr_added s = 2" "0 < mt_pending (mr_triggers s)" "\<forall>i. \<not> mr_adding s i"
    by (simp_all add: s_def)
  from no_trigger_lost [OF permit_notify_laws reach] show ?thesis
    using reach s by (intro exI [of _ s]) simp
qed

end
