(* ===== verification/Interval_Task.thy ===== *)
theory Interval_Task
  imports Mining
begin

text \<open>
  The interval mining task (\<open>run_interval_mining_task\<close>, src/src/mining.rs) as a state machine
  against the calls of the RPC handlers and the passing of time. A step of the task is
  at most one access of the watch channel or one trigger; in between other threads can call
  the controller. A step of the environment is one such call, or an advance of the clock (in
  nanoseconds).
\<close>

section \<open>The state machine\<close>

text \<open>
  The task at the head of its loop, awaiting a mode change, in the \<open>select!\<close> with the
  deadline of its sleep, past the check of the mode and about to trigger, or returned. For
  the theorems a log is kept of the triggers and of the sleeps that led to one: the interval,
  the beginning, when the mode was checked, and what was seen.
\<close>

datatype task_pc = TTop | TChanged | TSelect duration nat | TFire | TDone

record ('w, 'rx, 'n) interval_task =
  it_mining :: "('w, 'n) mining_controller"
  it_rx :: 'rx
  it_pc :: task_pc
  it_now :: nat
  it_fired :: nat
  it_sleeps :: "(duration \<times> nat \<times> nat \<times> mining_mode) list"

definition as_nanos :: "duration \<Rightarrow> nat" where
  "as_nanos d = unat (dur_secs d) * 10 ^ 9 + unat (dur_nanos d)"

inductive it_step ::
  "('w, 'rx) mode_watch \<Rightarrow> ('n, 'f) notify_ops
     \<Rightarrow> ('w, 'rx, 'n) interval_task \<Rightarrow> ('w, 'rx, 'n) interval_task \<Rightarrow> bool" for W N where
  read_not_interval:
    "it_pc s = TTop \<Longrightarrow>
     w_borrow_and_update W (mode_tx (it_mining s)) (it_rx s) = (md, rx) \<Longrightarrow>
     md = Automine \<or> md = Manual \<Longrightarrow>
     it_step W N s (s\<lparr>it_rx := rx, it_pc := TChanged\<rparr>)"
| read_interval:
    "it_pc s = TTop \<Longrightarrow>
     w_borrow_and_update W (mode_tx (it_mining s)) (it_rx s) = (Interval d, rx) \<Longrightarrow>
     it_step W N s (s\<lparr>it_rx := rx, it_pc := TSelect d (it_now s + as_nanos d)\<rparr>)"
| changed_ok:
    "it_pc s = TChanged \<or> it_pc s = TSelect d deadline \<Longrightarrow>
     w_has_changed W (mode_tx (it_mining s)) (it_rx s) \<Longrightarrow>
     it_step W N s (s\<lparr>it_rx := w_mark_seen W (mode_tx (it_mining s)) (it_rx s), it_pc := TTop\<rparr>)"
| changed_err:
    "it_pc s = TChanged \<or> it_pc s = TSelect d deadline \<Longrightarrow>
     \<not> w_has_changed W (mode_tx (it_mining s)) (it_rx s) \<Longrightarrow> w_closed W (mode_tx (it_mining s)) \<Longrightarrow>
     it_step W N s (s\<lparr>it_pc := TDone\<rparr>)"
| slept_check:
    "it_pc s = TSelect d deadline \<Longrightarrow> deadline \<le> it_now s \<Longrightarrow>
     w_borrow W (mode_tx (it_mining s)) = md \<Longrightarrow> md = Interval d' \<Longrightarrow>
     it_step W N s (s\<lparr>it_pc := TFire,
                      it_sleeps := (d, deadline - as_nanos d, it_now s, md) # it_sleeps s\<rparr>)"
| task_trigger:
    "it_pc s = TFire \<Longrightarrow>
     it_step W N s (s\<lparr>it_mining := trigger N (it_mining s), it_pc := TTop,
                      it_fired := Suc (it_fired s)\<rparr>)"
| slept_skip:
    "it_pc s = TSelect d deadline \<Longrightarrow> deadline \<le> it_now s \<Longrightarrow>
     w_borrow W (mode_tx (it_mining s)) = Automine \<or> w_borrow W (mode_tx (it_mining s)) = Manual \<Longrightarrow>
     it_step W N s (s\<lparr>it_pc := TTop\<rparr>)"
| other_call:
    "it_step W N s (s\<lparr>it_mining := mining_exec W N c (it_mining s)\<rparr>)"
| time_passes:
    "it_step W N s (s\<lparr>it_now := it_now s + k\<rparr>)"

definition it_init ::
  "('w, 'rx) mode_watch \<Rightarrow> ('n, 'f) notify_ops \<Rightarrow> ('w, 'rx, 'n) interval_task" where
  "it_init W N =
     (let mining = mining_controller_default W N
      in \<lparr>it_mining = mining, it_rx = subscribe_mode W mining, it_pc = TTop, it_now = 0,
          it_fired = 0, it_sleeps = []\<rparr>)"

inductive it_reach ::
  "('w, 'rx) mode_watch \<Rightarrow> ('n, 'f) notify_ops \<Rightarrow> ('w, 'rx, 'n) interval_task \<Rightarrow> bool" for W N where
  it_start: "it_reach W N (it_init W N)"
| it_next: "it_reach W N s \<Longrightarrow> it_step W N s s' \<Longrightarrow> it_reach W N s'"

inductive_cases it_stepE: "it_step W N s s'"

section \<open>Invariants\<close>

text \<open>Every interval that reaches the task is at least a second: zero means manual mining.\<close>

fun mode_positive :: "mining_mode \<Rightarrow> bool" where
  "mode_positive (Interval d) = (10 ^ 9 \<le> as_nanos d)"
| "mode_positive _ = True"

lemma spec_mode_positive: "mode_positive md \<Longrightarrow> mode_positive (spec_mode c md)"
proof (induction c md rule: spec_mode.induct)
  case (3 s md)
  have "s \<noteq> 0 \<Longrightarrow> 1 \<le> unat s" by (simp add: unat_gt_0 Suc_leI)
  then show ?case by (simp add: as_nanos_def from_secs_def)
qed auto

text \<open>
  The sleeps in a log, latest first, one after the other up to a moment: each lasts its
  interval, which is at least a second, and ends with a look at the mode that shows an interval.
\<close>

fun separate :: "(duration \<times> nat \<times> nat \<times> mining_mode) list \<Rightarrow> nat \<Rightarrow> bool" where
  "separate [] t = True"
| "separate ((d, start, checked, md) # sleeps) t \<longleftrightarrow>
     10 ^ 9 \<le> as_nanos d \<and> start + as_nanos d \<le> checked \<and> checked \<le> t \<and>
     (\<exists>d'. md = Interval d') \<and> separate sleeps start"

lemma separate_mono: "separate sleeps t \<Longrightarrow> t \<le> t' \<Longrightarrow> separate sleeps t'"
  by (cases "(sleeps, t)" rule: separate.cases) auto

lemma separate_length: "separate sleeps t \<Longrightarrow> length sleeps * 10 ^ 9 \<le> t"
  by (induction sleeps t rule: separate.induct) auto

definition sleep_inv :: "('w, 'rx) mode_watch \<Rightarrow> ('w, 'rx, 'n) interval_task \<Rightarrow> bool" where
  "sleep_inv W s \<longleftrightarrow>
     mode_positive (mode W (it_mining s)) \<and>
     length (it_sleeps s) = it_fired s + (if it_pc s = TFire then 1 else 0) \<and>
     separate (it_sleeps s) (it_now s) \<and>
     (case it_pc s of
        TSelect d deadline \<Rightarrow> 10 ^ 9 \<le> as_nanos d \<and> as_nanos d \<le> deadline \<and>
          separate (it_sleeps s) (deadline - as_nanos d)
      | _ \<Rightarrow> True)"

text \<open>The task follows the mode: what it waits in is the mode of now, or it will be woken.\<close>

definition track_inv ::
  "('w, 'rx) mode_watch \<Rightarrow> ('w \<Rightarrow> 'rx \<Rightarrow> bool) \<Rightarrow> ('w, 'rx, 'n) interval_task \<Rightarrow> bool" where
  "track_inv W attached s \<longleftrightarrow>
     attached (mode_tx (it_mining s)) (it_rx s) \<and>
     (w_has_changed W (mode_tx (it_mining s)) (it_rx s) \<or>
      (case it_pc s of
         TChanged \<Rightarrow> interval_mining W (it_mining s) = None
       | TSelect d _ \<Rightarrow> mode W (it_mining s) = Interval d
       | _ \<Rightarrow> True))"

lemma sleep_step:
  assumes "watch_laws W" and "it_step W N s s'" and "sleep_inv W s"
  shows "sleep_inv W s'"
  using assms(2)
proof (cases rule: it_step.cases)
  case (read_interval d rx)
  have "mode W (it_mining s) = Interval d"
    using assms(1) read_interval(3) unfolding watch_laws_def mode_def by (metis fst_conv)
  with read_interval assms(3) show ?thesis
    by (auto simp: sleep_inv_def)
next
  case (other_call c)
  then show ?thesis
    using assms(3) spec_mode_positive [of "mode W (it_mining s)" c]
    by (auto simp: sleep_inv_def mode_exec [OF assms(1)] split: task_pc.splits)
next
  case (time_passes k)
  then show ?thesis
    using assms(3) separate_mono [of "it_sleeps s" "it_now s" "it_now s + k"]
    by (auto simp: sleep_inv_def split: task_pc.splits)
qed (use assms(3) in \<open>auto simp: sleep_inv_def split: task_pc.splits\<close>)

lemma receiver_laws:
  assumes "watch_receiver_laws W attached"
  shows "attached w (w_subscribe W w)"
    and "attached w rx \<Longrightarrow> attached w (snd (w_borrow_and_update W w rx))"
    and "attached w rx \<Longrightarrow> attached w (w_mark_seen W w rx)"
    and "attached w rx \<Longrightarrow> attached (w_send_replace W v w) rx"
    and "attached w rx \<Longrightarrow> w_has_changed W (w_send_replace W v w) rx"
  using assms unfolding watch_receiver_laws_def by blast+

lemma call_attached:
  assumes "watch_receiver_laws W attached" and "attached (mode_tx m) rx"
  shows "attached (mode_tx (mining_exec W N c m)) rx \<and>
    (mode_tx (mining_exec W N c m) = mode_tx m \<or> w_has_changed W (mode_tx (mining_exec W N c m)) rx)"
  using assms(2)
  by (cases c)
    (auto simp: receiver_laws [OF assms(1)] set_automine_def set_interval_mining_def trigger_def
      split: option.split)

lemma track_cong:
  "mode_tx m = mode_tx m' \<Longrightarrow> mode W m = mode W m' \<and> interval_mining W m = interval_mining W m'"
  by (simp add: mode_def interval_mining_def)

lemma track_step:
  assumes laws: "watch_laws W" "watch_receiver_laws W attached"
    and step: "it_step W N s s'" and inv: "track_inv W attached s"
  shows "track_inv W attached s'"
proof -
  have att: "attached (mode_tx (it_mining s)) (it_rx s)"
    using inv by (simp add: track_inv_def)
  note R = receiver_laws [OF laws(2)]
  have read: "md = mode W (it_mining s) \<and> attached (mode_tx (it_mining s)) rx"
    if "w_borrow_and_update W (mode_tx (it_mining s)) (it_rx s) = (md, rx)" for md rx
    using that laws(1) R(2) [OF att] unfolding watch_laws_def mode_def by (metis fst_conv snd_conv)
  show ?thesis
    using step
  proof (cases rule: it_step.cases)
    case (read_not_interval md rx)
    then show ?thesis
      using read by (auto simp: track_inv_def interval_mining_mode)
  next
    case (read_interval d rx)
    then show ?thesis
      using read by (auto simp: track_inv_def)
  next
    case (changed_ok d deadline)
    then show ?thesis
      using R(3) [OF att] by (simp add: track_inv_def)
  next
    case (changed_err d deadline)
    then show ?thesis
      using att by (simp add: track_inv_def)
  next
    case (slept_check d deadline md d')
    then show ?thesis
      using att by (simp add: track_inv_def)
  next
    case task_trigger
    then show ?thesis
      using att by (simp add: track_inv_def trigger_def)
  next
    case (slept_skip d deadline)
    then show ?thesis
      using att by (simp add: track_inv_def)
  next
    case (other_call c)
    let ?m = "mining_exec W N c (it_mining s)"
    from call_attached [OF laws(2) att, of N c] consider
        (same) "attached (mode_tx ?m) (it_rx s)" "mode_tx ?m = mode_tx (it_mining s)"
      | (seen) "attached (mode_tx ?m) (it_rx s)" "w_has_changed W (mode_tx ?m) (it_rx s)"
      by blast
    then show ?thesis
    proof cases
      case same
      then show ?thesis
        using other_call inv track_cong [OF same(2), of W]
        by (simp add: track_inv_def split: task_pc.splits)
    next
      case seen
      then show ?thesis
        using other_call by (simp add: track_inv_def)
    qed
  next
    case (time_passes k)
    then show ?thesis
      using inv by (simp add: track_inv_def split: task_pc.splits)
  qed
qed

lemma it_sleep:
  assumes "watch_laws W"
  shows "it_reach W N s \<Longrightarrow> sleep_inv W s"
proof (induction rule: it_reach.induct)
  case it_start
  show ?case
    using mode_default [OF assms, of N] by (simp add: sleep_inv_def it_init_def Let_def)
next
  case (it_next s s')
  then show ?case using sleep_step [OF assms] by blast
qed

lemma it_track:
  assumes "watch_laws W" and "watch_receiver_laws W attached"
  shows "it_reach W N s \<Longrightarrow> track_inv W attached s"
proof (induction rule: it_reach.induct)
  case it_start
  show ?case
    using receiver_laws(1) [OF assms(2)]
    by (simp add: track_inv_def it_init_def Let_def subscribe_mode_def)
next
  case (it_next s s')
  then show ?case using track_step [OF assms] by blast
qed

section \<open>The task as a function\<close>

text \<open>
  The steps the task itself takes, for those who run it: it is woken by a change of the mode,
  and it runs on from where it is.
\<close>

definition it_wake ::
  "('w, 'rx) mode_watch \<Rightarrow> ('w, 'rx, 'n) interval_task \<Rightarrow> ('w, 'rx, 'n) interval_task" where
  "it_wake W s =
     (if it_pc s \<noteq> TChanged \<and> (\<forall>d deadline. it_pc s \<noteq> TSelect d deadline) then s
      else if w_has_changed W (mode_tx (it_mining s)) (it_rx s)
      then s\<lparr>it_rx := w_mark_seen W (mode_tx (it_mining s)) (it_rx s), it_pc := TTop\<rparr>
      else if w_closed W (mode_tx (it_mining s)) then s\<lparr>it_pc := TDone\<rparr> else s)"

definition it_run ::
  "('w, 'rx) mode_watch \<Rightarrow> ('n, 'f) notify_ops
     \<Rightarrow> ('w, 'rx, 'n) interval_task \<Rightarrow> ('w, 'rx, 'n) interval_task" where
  "it_run W N s =
     (case it_pc s of
        TTop \<Rightarrow>
          (let (md, rx) = w_borrow_and_update W (mode_tx (it_mining s)) (it_rx s)
           in s\<lparr>it_rx := rx, it_pc := (case md of
                  Interval d \<Rightarrow> TSelect d (it_now s + as_nanos d)
                | Automine \<Rightarrow> TChanged
                | Manual \<Rightarrow> TChanged)\<rparr>)
      | TSelect d deadline \<Rightarrow>
          if it_now s < deadline then s
          else (case w_borrow W (mode_tx (it_mining s)) of
                  Interval d' \<Rightarrow> s\<lparr>it_pc := TFire,
                    it_sleeps := (d, deadline - as_nanos d, it_now s, Interval d') # it_sleeps s\<rparr>
                | Automine \<Rightarrow> s\<lparr>it_pc := TTop\<rparr>
                | Manual \<Rightarrow> s\<lparr>it_pc := TTop\<rparr>)
      | TFire \<Rightarrow> s\<lparr>it_mining := trigger N (it_mining s), it_pc := TTop, it_fired := Suc (it_fired s)\<rparr>
      | _ \<Rightarrow> s)"

lemma it_wake_step: "it_wake W s = s \<or> it_step W N s (it_wake W s)"
  by (cases "it_pc s") (auto simp: it_wake_def intro: changed_ok changed_err)

lemma it_run_step: "it_run W N s = s \<or> it_step W N s (it_run W N s)"
proof (cases "it_pc s")
  case TTop
  obtain md rx where md: "w_borrow_and_update W (mode_tx (it_mining s)) (it_rx s) = (md, rx)"
    by (rule prod.exhaust)
  show ?thesis
    using read_interval [OF TTop, of W _ rx N] read_not_interval [OF TTop md, of N] md TTop
    by (cases md) (simp_all add: it_run_def)
next
  case (TSelect d deadline)
  show ?thesis
    using slept_check [OF TSelect _ refl, of W _ N] slept_skip [OF TSelect, of W N] TSelect
    by (cases "w_borrow W (mode_tx (it_mining s))") (auto simp: it_run_def)
next
  case TFire
  then show ?thesis using task_trigger [of s W N] by (simp add: it_run_def)
qed (simp_all add: it_run_def)

section \<open>Properties\<close>

text \<open>
  C17: Interval mining is never faster than one block a second, whatever intervals are set and
  however often: in every reachable state the triggers the task has issued, in seconds, do
  not exceed the time since its start.
\<close>

theorem interval_rate_bounded:
  assumes "watch_laws W" and "it_reach W N s"
  shows "it_fired s * 10 ^ 9 \<le> it_now s"
proof -
  have "length (it_sleeps s) * 10 ^ 9 \<le> it_now s" "it_fired s \<le> length (it_sleeps s)"
    using it_sleep [OF assms] separate_length [of "it_sleeps s" "it_now s"]
    by (simp_all add: sleep_inv_def split: if_splits)
  then show ?thesis by (metis mult_le_mono1 order_trans)
qed

text \<open>
  C16: The interval task never works on a stale mode: while no change is waiting for it, it
  sleeps exactly when the mode is interval mining, with that interval, and otherwise awaits
  a change. Its triggers are paid for by sleeps: there is one for each trigger (and one for a
  trigger it is about to make), each lasts the whole interval it was started with, they do
  not overlap, and at the end of each the task has seen interval mining.
\<close>

theorem interval_task_tracks_mode:
  assumes "watch_laws W" and "watch_receiver_laws W attached" and "it_reach W N s"
  shows "(w_has_changed W (mode_tx (it_mining s)) (it_rx s) \<or>
      (case it_pc s of
         TChanged \<Rightarrow> interval_mining W (it_mining s) = None
       | TSelect d _ \<Rightarrow> mode W (it_mining s) = Interval d
       | _ \<Rightarrow> True)) \<and>
    length (it_sleeps s) = it_fired s + (if it_pc s = TFire then 1 else 0) \<and>
    separate (it_sleeps s) (it_now s) \<and>
    (it_step W N s s' \<and> it_fired s' \<noteq> it_fired s \<longrightarrow>
      it_mining s' = trigger N (it_mining s) \<and> it_fired s' = Suc (it_fired s) \<and>
      it_sleeps s' = it_sleeps s)"
proof (intro conjI impI)
  show "w_has_changed W (mode_tx (it_mining s)) (it_rx s) \<or>
      (case it_pc s of
         TChanged \<Rightarrow> interval_mining W (it_mining s) = None
       | TSelect d _ \<Rightarrow> mode W (it_mining s) = Interval d
       | _ \<Rightarrow> True)"
    using it_track [OF assms] by (simp add: track_inv_def)
  show "length (it_sleeps s) = it_fired s + (if it_pc s = TFire then 1 else 0)"
    "separate (it_sleeps s) (it_now s)"
    using it_sleep [OF assms(1,3)] by (simp_all add: sleep_inv_def)
  assume st: "it_step W N s s' \<and> it_fired s' \<noteq> it_fired s"
  then have "it_step W N s s'" by simp
  then show "it_mining s' = trigger N (it_mining s)" "it_fired s' = Suc (it_fired s)"
    "it_sleeps s' = it_sleeps s"
    by (cases rule: it_step.cases; use st in simp)+
qed

text \<open>
  C29: The check of the mode and the trigger are two accesses: a call that ends interval
  mining in between is answered, and the task still triggers one more block, in manual
  mode. (The next one takes another sleep and another look at the mode.)
\<close>

theorem trigger_after_interval_cleared:
  assumes "watch_laws W"
  shows "\<exists>s s'. it_reach W N s \<and> mode W (it_mining s) = Manual \<and> it_step W N s s' \<and>
    it_fired s' = Suc (it_fired s) \<and> it_mining s' = trigger N (it_mining s)"
proof -
  let ?s0 = "it_init W N"
  let ?s1 = "?s0\<lparr>it_mining := set_interval_mining W 1 (it_mining ?s0)\<rparr>"
  let ?d = "from_secs 1"
  have borrow: "w_borrow W (mode_tx (it_mining ?s1)) = Interval ?d"
    using assms by (simp add: set_interval_mining_def watch_laws_def)
  obtain rx where rx: "w_borrow_and_update W (mode_tx (it_mining ?s1)) (it_rx ?s1) = (Interval ?d, rx)"
    using assms borrow unfolding watch_laws_def by (metis prod.collapse)
  let ?s2 = "?s1\<lparr>it_rx := rx, it_pc := TSelect ?d (it_now ?s1 + as_nanos ?d)\<rparr>"
  let ?s3 = "?s2\<lparr>it_now := it_now ?s2 + as_nanos ?d\<rparr>"
  let ?s4 = "?s3\<lparr>it_pc := TFire, it_sleeps := (?d, it_now ?s1 + as_nanos ?d - as_nanos ?d, it_now ?s3,
    Interval ?d) # it_sleeps ?s3\<rparr>"
  let ?s5 = "?s4\<lparr>it_mining := set_interval_mining W 0 (it_mining ?s4)\<rparr>"
  have "it_reach W N ?s0" by (rule it_start)
  moreover have "it_step W N ?s0 ?s1"
    using other_call [of W N ?s0 "SetInterval 1"] by simp
  moreover have "it_step W N ?s1 ?s2"
    by (rule read_interval [OF _ rx]) (simp add: it_init_def Let_def)
  moreover have "it_step W N ?s2 ?s3" by (rule time_passes)
  moreover have "it_step W N ?s3 ?s4"
    by (rule slept_check [where d' = ?d]) (use borrow in simp_all)
  moreover have "it_step W N ?s4 ?s5"
    using other_call [of W N ?s4 "SetInterval 0"] by simp
  ultimately have "it_reach W N ?s5" by (meson it_next)
  moreover have "mode W (it_mining ?s5) = Manual"
    using assms by (simp add: mode_def set_interval_mining_def watch_laws_def)
  moreover have "it_step W N ?s5 (?s5\<lparr>it_mining := trigger N (it_mining ?s5), it_pc := TTop,
      it_fired := Suc (it_fired ?s5)\<rparr>)"
    by (rule task_trigger) simp
  ultimately show ?thesis
    by (intro exI [of _ ?s5] exI [of _ "?s5\<lparr>it_mining := trigger N (it_mining ?s5), it_pc := TTop,
      it_fired := Suc (it_fired ?s5)\<rparr>"]) simp
qed

theorem trigger_after_interval_cleared_witness:
  "\<exists>s s'. it_reach demo_watch permit_notify s \<and> mode demo_watch (it_mining s) = Manual \<and>
     it_step demo_watch permit_notify s s' \<and> it_fired s' = Suc (it_fired s) \<and>
     it_mining s' = trigger permit_notify (it_mining s)"
  by (rule trigger_after_interval_cleared [OF demo_watch_laws(1)])

text \<open>
  A run of the task: an interval of one second is set, a second passes, the mode is seen, and a
  block is triggered.
\<close>

definition demo_checked :: "(mining_mode \<times> nat, nat, bool) interval_task" where
  "demo_checked =
     \<lparr>it_mining = set_interval_mining demo_watch 1 (mining_controller_default demo_watch demo_notify),
      it_rx = 1, it_pc = TFire, it_now = 10 ^ 9, it_fired = 0,
      it_sleeps = [(from_secs 1, 0, 10 ^ 9, Interval (from_secs 1))]\<rparr>"

lemma demo_watch_eqs:
  "mode_tx (set_interval_mining demo_watch 1 (mining_controller_default demo_watch demo_notify)) =
     (Interval (from_secs 1), 1)"
  "w_borrow demo_watch = fst" "w_borrow_and_update demo_watch w rx = w"
  by (simp_all add: set_interval_mining_def mining_controller_default_def demo_watch_def)

lemma demo_checked_reach: "it_reach demo_watch demo_notify demo_checked"
proof -
  let ?m = "set_interval_mining demo_watch 1 (mining_controller_default demo_watch demo_notify)"
  let ?s0 = "it_init demo_watch demo_notify"
  let ?s1 = "?s0\<lparr>it_mining := ?m\<rparr>"
  let ?s2 = "?s1\<lparr>it_rx := 1, it_pc := TSelect (from_secs 1) (it_now ?s1 + as_nanos (from_secs 1))\<rparr>"
  let ?s3 = "?s2\<lparr>it_now := it_now ?s2 + 10 ^ 9\<rparr>"
  have "it_reach demo_watch demo_notify ?s0" by (rule it_start)
  moreover have "it_step demo_watch demo_notify ?s0 ?s1"
    using other_call [of demo_watch demo_notify ?s0 "SetInterval 1"] by (simp add: it_init_def Let_def)
  moreover have "it_step demo_watch demo_notify ?s1 ?s2"
    by (rule read_interval) (simp_all add: it_init_def Let_def demo_watch_eqs)
  moreover have "it_step demo_watch demo_notify ?s2 ?s3"
    by (rule time_passes)
  moreover have "it_step demo_watch demo_notify ?s3 (?s3\<lparr>it_pc := TFire,
      it_sleeps := (from_secs 1, it_now ?s1 + as_nanos (from_secs 1) - as_nanos (from_secs 1), it_now ?s3,
        Interval (from_secs 1)) # it_sleeps ?s3\<rparr>)"
    by (rule slept_check [where d' = "from_secs 1"])
      (simp_all add: it_init_def Let_def demo_watch_eqs as_nanos_def from_secs_def)
  ultimately have "it_reach demo_watch demo_notify (?s3\<lparr>it_pc := TFire,
      it_sleeps := (from_secs 1, it_now ?s1 + as_nanos (from_secs 1) - as_nanos (from_secs 1), it_now ?s3,
        Interval (from_secs 1)) # it_sleeps ?s3\<rparr>)"
    by (meson it_next)
  then show ?thesis
    by (simp add: demo_checked_def it_init_def Let_def)
qed

lemma demo_trigger_step:
  "it_step demo_watch demo_notify demo_checked (demo_checked\<lparr>it_mining := trigger demo_notify (it_mining demo_checked),
     it_pc := TTop, it_fired := Suc (it_fired demo_checked)\<rparr>)"
  by (rule task_trigger) (simp add: demo_checked_def)

theorem interval_task_tracks_mode_witness:
  "\<exists>s s'. it_reach demo_watch demo_notify s \<and> it_step demo_watch demo_notify s s' \<and>
     it_fired s' = Suc 0 \<and> it_mining s' = trigger demo_notify (it_mining s) \<and>
     length (it_sleeps s) = 1 \<and> separate (it_sleeps s) (it_now s)"
proof -
  have fired: "it_fired demo_checked = 0" "it_pc demo_checked = TFire" by (simp_all add: demo_checked_def)
  show ?thesis
    using interval_task_tracks_mode [OF demo_watch_laws(1,2) demo_checked_reach,
        of "demo_checked\<lparr>it_mining := trigger demo_notify (it_mining demo_checked), it_pc := TTop,
          it_fired := Suc (it_fired demo_checked)\<rparr>"] demo_checked_reach demo_trigger_step
    by (intro exI [of _ demo_checked] exI [of _ "demo_checked\<lparr>it_mining := trigger demo_notify
      (it_mining demo_checked), it_pc := TTop, it_fired := Suc (it_fired demo_checked)\<rparr>"]) (simp add: fired)
qed

theorem interval_rate_bounded_witness:
  "\<exists>s. it_reach demo_watch demo_notify s \<and> it_fired s = 1 \<and> it_fired s * 10 ^ 9 \<le> it_now s"
proof -
  have "it_reach demo_watch demo_notify (demo_checked\<lparr>it_mining := trigger demo_notify (it_mining demo_checked),
      it_pc := TTop, it_fired := Suc (it_fired demo_checked)\<rparr>)"
    using demo_checked_reach demo_trigger_step by (rule it_next)
  from interval_rate_bounded [OF demo_watch_laws(1) this] this show ?thesis
    by (intro exI, intro conjI) (assumption, simp_all add: demo_checked_def)
qed

end
