(* ===== verification/Mode_Race.thy ===== *)
theory Mode_Race
  imports Mining
begin

text \<open>
  The mining mode under concurrent requests (src/src/mining.rs). \<open>set_automine\<close> borrows the
  mode, decides, and replaces it in a second access of the watch channel;
  \<open>set_interval_mining\<close> replaces it at once. Here each access is one step, and any number of
  threads run \<open>set_automine\<close>.
\<close>

section \<open>Threads and steps\<close>

datatype mode_pc = ModeIdle | ModeReplace bool mining_mode

text \<open>
  The log has the calls in the order they took effect (latest first): a call that returns
  early when it reads, the others when they replace the mode. \<open>md_clean\<close> says that no
  \<open>set_interval_mining\<close> ran while a \<open>set_automine(false)\<close> was between its two accesses.
\<close>

record ('w, 'n) mode_race =
  md_control :: "('w, 'n) mining_controller"
  md_threads :: "nat \<Rightarrow> mode_pc"
  md_log :: "mining_call list"
  md_clean :: bool

definition disabling :: "(nat \<Rightarrow> mode_pc) \<Rightarrow> bool" where
  "disabling th \<longleftrightarrow> (\<exists>i md. th i = ModeReplace False md)"

inductive md_step ::
  "('w, 'rx) mode_watch \<Rightarrow> ('w, 'n) mode_race \<Rightarrow> ('w, 'n) mode_race \<Rightarrow> bool" for W where
  automine_return:
    "md_threads s i = ModeIdle \<Longrightarrow>
     automine_next (w_borrow W (mode_tx (md_control s))) enabled = None \<Longrightarrow>
     md_step W s (s\<lparr>md_log := SetAutomine enabled # md_log s\<rparr>)"
| automine_read:
    "md_threads s i = ModeIdle \<Longrightarrow>
     automine_next (w_borrow W (mode_tx (md_control s))) enabled = Some next_mode \<Longrightarrow>
     md_step W s (s\<lparr>md_threads := (md_threads s)(i := ModeReplace enabled next_mode)\<rparr>)"
| automine_replace:
    "md_threads s i = ModeReplace enabled next_mode \<Longrightarrow>
     md_step W s (s\<lparr>md_control := (md_control s)\<lparr>mode_tx :=
                      w_send_replace W next_mode (mode_tx (md_control s))\<rparr>,
                   md_threads := (md_threads s)(i := ModeIdle),
                   md_log := SetAutomine enabled # md_log s\<rparr>)"
| interval_replace:
    "md_step W s (s\<lparr>md_control := set_interval_mining W secs (md_control s),
                   md_log := SetInterval secs # md_log s,
                   md_clean := (md_clean s \<and> \<not> disabling (md_threads s))\<rparr>)"

definition md_init :: "('w, 'n) mining_controller \<Rightarrow> ('w, 'n) mode_race" where
  "md_init m = \<lparr>md_control = m, md_threads = (\<lambda>_. ModeIdle), md_log = [], md_clean = True\<rparr>"

inductive md_reach ::
  "('w, 'rx) mode_watch \<Rightarrow> ('w, 'n) mining_controller \<Rightarrow> ('w, 'n) mode_race \<Rightarrow> bool" for W m where
  md_start: "md_reach W m (md_init m)"
| md_next: "md_reach W m s \<Longrightarrow> md_step W s s' \<Longrightarrow> md_reach W m s'"

inductive_cases md_stepE: "md_step W s s'"

section \<open>Invariant\<close>

text \<open>
  A thread about to replace the mode has the mode its argument asks for; while the run is
  clean the mode is the one the log leads to, and it is not an interval while a thread is
  about to disable automining.
\<close>

definition md_inv :: "('w, 'rx) mode_watch \<Rightarrow> mining_mode \<Rightarrow> ('w, 'n) mode_race \<Rightarrow> bool" where
  "md_inv W md0 s \<longleftrightarrow>
     (\<forall>i e md. md_threads s i = ModeReplace e md \<longrightarrow> md = (if e then Automine else Manual)) \<and>
     (md_clean s \<longrightarrow> mode W (md_control s) = fold spec_mode (rev (md_log s)) md0 \<and>
        (disabling (md_threads s) \<longrightarrow> mode W (md_control s) \<in> {Automine, Manual}))"

lemma disabling_upd:
  "disabling (th(i := ModeIdle)) \<Longrightarrow> disabling th"
  "disabling (th(i := ModeReplace True md)) \<Longrightarrow> disabling th"
  by (auto simp: disabling_def split: if_splits)

lemma md_inv_step:
  assumes "watch_laws W" and "md_step W s s'" and "md_inv W md0 s"
  shows "md_inv W md0 s'"
  using assms(2,3)
proof (induction rule: md_step.induct)
  case (automine_return s i enabled)
  then show ?case
    by (cases enabled) (auto simp: md_inv_def mode_def split: mining_mode.splits)
next
  case (automine_read s i enabled next_mode)
  then show ?case
    by (cases enabled) (auto simp: md_inv_def mode_def dest: disabling_upd split: mining_mode.splits if_splits)
next
  case (automine_replace s i enabled next_mode)
  let ?c = "(md_control s)\<lparr>mode_tx := w_send_replace W next_mode (mode_tx (md_control s))\<rparr>"
  have next_mode: "next_mode = (if enabled then Automine else Manual)"
    using automine_replace by (auto simp: md_inv_def)
  have "mode W ?c = next_mode"
    using assms(1) by (simp add: mode_def watch_laws_def)
  moreover have "disabling (md_threads s)" if "\<not> enabled"
    unfolding disabling_def
    by (intro exI [of _ i] exI [of _ next_mode]) (simp add: that automine_replace(1))
  ultimately show ?case
    using automine_replace(2) next_mode
    by (cases enabled) (auto simp: md_inv_def split: if_splits)
next
  case (interval_replace s secs)
  have "mode W (set_interval_mining W secs (md_control s)) =
      spec_mode (SetInterval secs) (mode W (md_control s))"
    using mode_exec [OF assms(1), of undefined "SetInterval secs" "md_control s"] by simp
  with interval_replace show ?case
    by (auto simp: md_inv_def)
qed

lemma md_reach_inv:
  assumes "watch_laws W" and "md_reach W m s"
  shows "md_inv W (mode W m) s"
  using assms(2)
proof (induction rule: md_reach.induct)
  case md_start
  show ?case by (simp add: md_inv_def md_init_def disabling_def)
next
  case (md_next s s')
  then show ?case by (auto intro: md_inv_step [OF assms(1)])
qed

lemma md_then: "md_reach W m s \<Longrightarrow> md_step W s t \<Longrightarrow> t = s' \<Longrightarrow> md_reach W m s'"
  by (auto intro: md_next)

section \<open>Properties\<close>

text \<open>
  C32: Mode changes are linearizable as long as no \<open>set_interval_mining\<close> runs inside a
  \<open>set_automine(false)\<close>: whatever the interleaving of any number of calls, the mode is the
  one that results from the calls made one after the other, in the order they took effect.
\<close>

theorem mode_calls_linearize:
  assumes "watch_laws W" and "md_reach W m s" and "md_clean s"
  shows "mode W (md_control s) = fold spec_mode (rev (md_log s)) (mode W m)"
  using md_reach_inv [OF assms(1,2)] assms(3) by (simp add: md_inv_def)

text \<open>A run with an overlap, up to the two calls' ends.\<close>

lemma reach_overlap:
  assumes "watch_laws W" and "mode W m = Automine"
  shows "md_reach W m \<lparr>md_control =
       (set_interval_mining W secs m)\<lparr>mode_tx := w_send_replace W Manual (mode_tx (set_interval_mining W secs m))\<rparr>,
     md_threads = \<lambda>_. ModeIdle, md_log = [SetAutomine False, SetInterval secs], md_clean = False\<rparr>"
proof -
  have "automine_next (w_borrow W (mode_tx m)) False = Some Manual"
    using assms(2) by (simp add: mode_def)
  then have "md_reach W m ((md_init m)\<lparr>md_threads := (\<lambda>_. ModeIdle)(0 := ModeReplace False Manual)\<rparr>)"
    by (intro md_then [OF md_start automine_read [of _ 0 _ False Manual]]) (simp_all add: md_init_def)
  then have "md_reach W m \<lparr>md_control = set_interval_mining W secs m,
      md_threads = (\<lambda>_. ModeIdle)(0 := ModeReplace False Manual),
      md_log = [SetInterval secs], md_clean = False\<rparr>"
    by (rule md_then [OF _ interval_replace [of _ _ secs]]) (auto simp: md_init_def disabling_def)
  then show ?thesis
    by (rule md_then [OF _ automine_replace [of _ 0 False Manual]]) (simp_all add: fun_upd_idem)
qed

text \<open>
  C33: Interval mining can be switched off by accident: when \<open>set_automine(false)\<close> overlaps
  with \<open>set_interval_mining(secs)\<close> in automine mode, both calls can end with the mode set to
  manual, although with the calls made one after the other, in either order, the node
  mines at the interval.
\<close>

theorem interval_mode_can_be_lost:
  assumes "watch_laws W" and "mode W m = Automine" and "secs \<noteq> 0"
  shows "\<exists>s. md_reach W m s \<and> md_threads s = (\<lambda>_. ModeIdle) \<and>
      md_log s = [SetAutomine False, SetInterval secs] \<and>
      interval_mining W (md_control s) = None \<and> \<not> is_automine W (md_control s) \<and>
    interval_mining W (set_interval_mining W secs (set_automine W False m)) = Some secs \<and>
    interval_mining W (set_automine W False (set_interval_mining W secs m)) = Some secs"
proof (intro exI conjI)
  show "md_reach W m \<lparr>md_control =
       (set_interval_mining W secs m)\<lparr>mode_tx := w_send_replace W Manual (mode_tx (set_interval_mining W secs m))\<rparr>,
     md_threads = \<lambda>_. ModeIdle, md_log = [SetAutomine False, SetInterval secs], md_clean = False\<rparr>"
    by (rule reach_overlap [OF assms(1,2)])
qed (use assms in \<open>auto simp: interval_mining_def is_automine_def watch_laws_def set_interval_mining_def
    set_automine_def from_secs_def as_secs_def\<close>)

theorem mode_calls_linearize_witness:
  "\<exists>s. md_reach demo_watch (mining_controller_default demo_watch demo_notify) s \<and>
     md_log s = [SetInterval 5] \<and> mode demo_watch (md_control s) = Interval (from_secs 5)"
proof -
  let ?m = "mining_controller_default demo_watch demo_notify"
  let ?s = "\<lparr>md_control = set_interval_mining demo_watch 5 ?m, md_threads = \<lambda>_. ModeIdle,
    md_log = [SetInterval 5], md_clean = True\<rparr>"
  have reach: "md_reach demo_watch ?m ?s"
    by (rule md_then [OF md_start interval_replace [of _ _ 5]]) (simp add: md_init_def disabling_def)
  have laws: "watch_laws demo_watch" by (simp add: watch_laws_def demo_watch_def)
  from mode_calls_linearize [OF laws reach] reach show ?thesis
    by (intro exI [of _ ?s]) simp
qed

theorem interval_mode_can_be_lost_witness:
  "\<exists>s. md_reach demo_watch (mining_controller_default demo_watch demo_notify) s \<and>
     md_log s = [SetAutomine False, SetInterval 5] \<and> interval_mining demo_watch (md_control s) = None"
proof -
  have laws: "watch_laws demo_watch" by (simp add: watch_laws_def demo_watch_def)
  then have "mode demo_watch (mining_controller_default demo_watch demo_notify) = Automine"
    by (rule mode_default)
  from interval_mode_can_be_lost [OF laws this, of 5] show ?thesis by auto
qed

end
