(* ===== verification/Anvil_State.thy ===== *)
theory Anvil_State
  imports Anvil_Prelude
begin

text \<open>
  \<open>AnvilState\<close> (src/src/state.rs): per-account overrides of balance, nonce, code and storage,
  and the bytecodes of the overridden codes by hash. The state is behind one lock
  (\<open>SharedAnvilState\<close>), so each operation is one step.

  Hashing and bytecode are library code and a parameter of the model: \<open>keccak256\<close> with its
  constant for the empty input, \<open>Bytecode::new_raw\<close>, which panics on a malformed code
  (\<open>None\<close>), and \<open>original_bytes\<close>.
\<close>

section \<open>State and operations\<close>

record 'bc code_ops =
  keccak256 :: "bytes \<Rightarrow> b256"
  keccak_empty :: b256
  new_raw :: "bytes \<Rightarrow> 'bc option"
  original_bytes :: "'bc \<Rightarrow> bytes"

text \<open>
  The documented behaviour the code relies on: \<open>KECCAK_EMPTY\<close> is the hash of no bytes, a
  bytecode made from raw bytes gives them back, and (collision resistance, for the one
  value the code compares with) only the empty code hashes to \<open>KECCAK_EMPTY\<close>.
\<close>

definition code_laws :: "'bc code_ops \<Rightarrow> bool" where
  "code_laws K \<longleftrightarrow>
     keccak256 K [] = keccak_empty K \<and>
     (\<forall>c bc. new_raw K c = Some bc \<longrightarrow> original_bytes K bc = c) \<and>
     (\<forall>c. keccak256 K c = keccak_empty K \<longrightarrow> c = [])"

record code_override =
  co_hash :: b256

record account_override =
  ao_balance :: "u256 option"
  ao_nonce :: "u64 option"
  ao_code :: "code_override option"
  ao_storage :: "(b256, u256) hashmap"

record 'bc anvil_state =
  as_accounts :: "(address, account_override) hashmap"
  as_bytecodes :: "(b256, 'bc) hashmap"

definition account_override_default :: account_override where
  "account_override_default = \<lparr>ao_balance = None, ao_nonce = None, ao_code = None, ao_storage = []\<rparr>"

definition override_balance :: "account_override \<Rightarrow> u256 option" where
  "override_balance ov = ao_balance ov"

definition override_nonce :: "account_override \<Rightarrow> u64 option" where
  "override_nonce ov = ao_nonce ov"

definition override_code_hash :: "account_override \<Rightarrow> b256 option" where
  "override_code_hash ov = map_option co_hash (ao_code ov)"

definition override_storage :: "account_override \<Rightarrow> (b256, u256) hashmap" where
  "override_storage ov = ao_storage ov"

definition anvil_state_shared :: "'bc anvil_state" where
  "anvil_state_shared = \<lparr>as_accounts = [], as_bytecodes = []\<rparr>"

definition modify_account ::
  "address \<Rightarrow> (account_override \<Rightarrow> account_override) \<Rightarrow> 'bc anvil_state \<Rightarrow> 'bc anvil_state" where
  "modify_account a f s = s\<lparr>as_accounts := hm_entry account_override_default a f (as_accounts s)\<rparr>"

definition set_balance :: "address \<Rightarrow> u256 \<Rightarrow> 'bc anvil_state \<Rightarrow> 'bc anvil_state" where
  "set_balance a balance s = modify_account a (\<lambda>ov. ov\<lparr>ao_balance := Some balance\<rparr>) s"

definition set_nonce :: "address \<Rightarrow> u64 \<Rightarrow> 'bc anvil_state \<Rightarrow> 'bc anvil_state" where
  "set_nonce a nonce s = modify_account a (\<lambda>ov. ov\<lparr>ao_nonce := Some nonce\<rparr>) s"

definition set_code ::
  "'bc code_ops \<Rightarrow> address \<Rightarrow> bytes \<Rightarrow> 'bc anvil_state \<Rightarrow> 'bc anvil_state option" where
  "set_code K a code s =
     (case (if code = [] then Some (\<lparr>co_hash = keccak_empty K\<rparr>, s)
            else (let hash = keccak256 K code
                  in (case new_raw K code of
                        None \<Rightarrow> None
                      | Some bytecode \<Rightarrow>
                          Some (\<lparr>co_hash = hash\<rparr>,
                                s\<lparr>as_bytecodes := hm_insert hash bytecode (as_bytecodes s)\<rparr>)))) of
        None \<Rightarrow> None
      | Some (override_code, s1) \<Rightarrow>
          Some (modify_account a (\<lambda>ov. ov\<lparr>ao_code := Some override_code\<rparr>) s1))"

definition set_storage_at :: "address \<Rightarrow> b256 \<Rightarrow> u256 \<Rightarrow> 'bc anvil_state \<Rightarrow> 'bc anvil_state" where
  "set_storage_at a slot value s =
     modify_account a (\<lambda>ov. ov\<lparr>ao_storage := hm_insert slot value (ao_storage ov)\<rparr>) s"

definition account :: "'bc anvil_state \<Rightarrow> address \<Rightarrow> account_override option" where
  "account s a = hm_get (as_accounts s) a"

definition accounts :: "'bc anvil_state \<Rightarrow> (address \<times> account_override) list" where
  "accounts s = as_accounts s"

definition local_bytecode_by_hash :: "'bc anvil_state \<Rightarrow> b256 \<Rightarrow> 'bc option" where
  "local_bytecode_by_hash s h = hm_get (as_bytecodes s) h"

definition local_storage :: "'bc anvil_state \<Rightarrow> address \<Rightarrow> b256 \<Rightarrow> u256 option" where
  "local_storage s a slot =
     Option.bind (hm_get (as_accounts s) a) (\<lambda>ov. hm_get (ao_storage ov) slot)"

section \<open>Reads after writes\<close>

text \<open>The override of each attribute of an account, \<open>None\<close> when it has none.\<close>

definition local_balance :: "'bc anvil_state \<Rightarrow> address \<Rightarrow> u256 option" where
  "local_balance s a = Option.bind (account s a) override_balance"

definition local_nonce :: "'bc anvil_state \<Rightarrow> address \<Rightarrow> u64 option" where
  "local_nonce s a = Option.bind (account s a) override_nonce"

definition local_code_hash :: "'bc anvil_state \<Rightarrow> address \<Rightarrow> b256 option" where
  "local_code_hash s a = Option.bind (account s a) override_code_hash"

lemmas anvil_state_defs = modify_account_def set_balance_def set_nonce_def set_storage_at_def
  account_def accounts_def local_bytecode_by_hash_def local_storage_def local_balance_def
  local_nonce_def local_code_hash_def override_balance_def override_nonce_def
  override_code_hash_def override_storage_def

text \<open>
  The contract of a store of account overrides: each write is seen by the read of its own
  attribute at its own address, and by no other. Its clients are the state provider, the
  state dump and the RPC handlers; what a loop of storage writes does is proved here once.
\<close>

locale account_store =
  fixes set_bal :: "'a \<Rightarrow> 'b \<Rightarrow> 's \<Rightarrow> 's" and set_non :: "'a \<Rightarrow> 'n \<Rightarrow> 's \<Rightarrow> 's"
    and set_sto :: "'a \<Rightarrow> 'k \<Rightarrow> 'v \<Rightarrow> 's \<Rightarrow> 's"
    and bal :: "'s \<Rightarrow> 'a \<Rightarrow> 'b option" and non :: "'s \<Rightarrow> 'a \<Rightarrow> 'n option"
    and sto :: "'s \<Rightarrow> 'a \<Rightarrow> 'k \<Rightarrow> 'v option"
  assumes bal_set_bal: "bal (set_bal a v s) a' = (if a' = a then Some v else bal s a')"
    and non_set_non: "non (set_non a n s) a' = (if a' = a then Some n else non s a')"
    and sto_set_sto: "sto (set_sto a k w s) a' k' = (if a' = a \<and> k' = k then Some w else sto s a' k')"
    and bal_frame: "bal (set_non a n s) = bal s" "bal (set_sto a k w s) = bal s"
    and non_frame: "non (set_bal a v s) = non s" "non (set_sto a k w s) = non s"
    and sto_frame: "sto (set_bal a v s) = sto s" "sto (set_non a n s) = sto s"
begin

lemma fold_set_sto_frame:
  "bal (fold (\<lambda>(k, v). set_sto a k v) kvs s) = bal s"
  "non (fold (\<lambda>(k, v). set_sto a k v) kvs s) = non s"
  by (induction kvs arbitrary: s) (auto simp: bal_frame non_frame)

lemma sto_fold_set_sto:
  "sto (fold (\<lambda>(k, v). set_sto a k v) kvs s) a' k =
     (if a' = a then (case map_of (rev kvs) k of Some v \<Rightarrow> Some v | None \<Rightarrow> sto s a' k)
      else sto s a' k)"
proof (induction kvs arbitrary: s)
  case Nil
  show ?case by simp
next
  case (Cons kv kvs)
  obtain i v where "kv = (i, v)" by (cases kv)
  with Cons.IH [of "set_sto a i v s"] show ?case
    by (auto simp: sto_set_sto map_add_def split: option.splits)
qed

end

interpretation store: account_store set_balance set_nonce set_storage_at
    local_balance local_nonce local_storage
  by unfold_locales
    (auto simp: anvil_state_defs hm_get_entry account_override_default_def fun_eq_iff
      split: option.splits)

lemma set_balance_frame [simp]:
  "local_code_hash (set_balance a v s) = local_code_hash s"
  "local_bytecode_by_hash (set_balance a v s) = local_bytecode_by_hash s"
  by (auto simp: anvil_state_defs hm_get_entry account_override_default_def fun_eq_iff
      split: option.splits)

lemma set_nonce_frame [simp]:
  "local_code_hash (set_nonce a n s) = local_code_hash s"
  "local_bytecode_by_hash (set_nonce a n s) = local_bytecode_by_hash s"
  by (auto simp: anvil_state_defs hm_get_entry account_override_default_def fun_eq_iff
      split: option.splits)

lemma set_storage_at_frame [simp]:
  "local_code_hash (set_storage_at a k v s) = local_code_hash s"
  "local_bytecode_by_hash (set_storage_at a k v s) = local_bytecode_by_hash s"
  by (auto simp: anvil_state_defs hm_get_entry account_override_default_def fun_eq_iff
      split: option.splits)

text \<open>An account has an override record from the first write on, and never loses it.\<close>

lemma account_modified:
  "account (modify_account a f s) a' = None \<longleftrightarrow> a' \<noteq> a \<and> account s a' = None"
  by (simp add: modify_account_def account_def hm_get_entry)

lemma account_set_simps [simp]:
  "account (set_balance a v s) a' = None \<longleftrightarrow> a' \<noteq> a \<and> account s a' = None"
  "account (set_nonce a n s) a' = None \<longleftrightarrow> a' \<noteq> a \<and> account s a' = None"
  "account (set_storage_at a k w s) a' = None \<longleftrightarrow> a' \<noteq> a \<and> account s a' = None"
  by (simp_all only: set_balance_def set_nonce_def set_storage_at_def account_modified)

subsection \<open>Code\<close>

text \<open>The hash recorded for a code, and what \<open>set_code\<close> does to every read.\<close>

definition code_hash_of :: "'bc code_ops \<Rightarrow> bytes \<Rightarrow> b256" where
  "code_hash_of K code = (if code = [] then keccak_empty K else keccak256 K code)"

lemma code_hash_of_keccak: "code_laws K \<Longrightarrow> code_hash_of K code = keccak256 K code"
  by (simp add: code_hash_of_def code_laws_def)

lemma set_code_panics: "set_code K a code s = None \<longleftrightarrow> code \<noteq> [] \<and> new_raw K code = None"
  by (auto simp: set_code_def Let_def split: option.splits)

lemma set_code_reads:
  assumes "set_code K a code s = Some s'"
  shows "local_code_hash s' a' = (if a' = a then Some (code_hash_of K code) else local_code_hash s a')"
    and "local_bytecode_by_hash s' h =
      (if code \<noteq> [] \<and> h = keccak256 K code then new_raw K code else local_bytecode_by_hash s h)"
    and "local_balance s' = local_balance s" and "local_nonce s' = local_nonce s"
    and "local_storage s' = local_storage s"
    and "account s' a' = None \<longleftrightarrow> a' \<noteq> a \<and> account s a' = None"
  using assms
  by (auto simp: set_code_def anvil_state_defs hm_get_entry account_override_default_def
      code_hash_of_def Let_def fun_eq_iff split: option.splits if_splits)

section \<open>Invariant\<close>

text \<open>
  No duplicate keys anywhere; every overridden code hash is the empty hash or resolves to a
  local bytecode; and every local bytecode is filed under the hash of its bytes.
\<close>

definition as_wf :: "'bc code_ops \<Rightarrow> 'bc anvil_state \<Rightarrow> bool" where
  "as_wf K s \<longleftrightarrow>
     hm_wf (as_accounts s) \<and> hm_wf (as_bytecodes s) \<and>
     (\<forall>a ov. account s a = Some ov \<longrightarrow> hm_wf (ao_storage ov)) \<and>
     (\<forall>a h. local_code_hash s a = Some h \<longrightarrow>
        h = keccak_empty K \<or> local_bytecode_by_hash s h \<noteq> None) \<and>
     (\<forall>h bc. local_bytecode_by_hash s h = Some bc \<longrightarrow> keccak256 K (original_bytes K bc) = h)"

lemma as_wf_shared [wf_intros]: "as_wf K anvil_state_shared"
  by (simp add: as_wf_def anvil_state_shared_def anvil_state_defs)

lemma as_wf_modify:
  assumes "as_wf K s" and "\<And>ov. hm_wf (ao_storage ov) \<Longrightarrow> hm_wf (ao_storage (f ov))"
    and "\<And>ov. ao_code (f ov) = ao_code ov"
  shows "as_wf K (modify_account a f s)"
proof -
  have "local_code_hash (modify_account a f s) = local_code_hash s"
    using assms(3)
    by (auto simp: anvil_state_defs hm_get_entry account_override_default_def fun_eq_iff
        split: option.splits)
  moreover have "local_bytecode_by_hash (modify_account a f s) = local_bytecode_by_hash s"
    by (simp add: anvil_state_defs fun_eq_iff)
  moreover have "hm_wf (ao_storage ov)" if "account (modify_account a f s) a' = Some ov" for a' ov
    using that assms(1,2)
    by (auto simp: as_wf_def modify_account_def account_def hm_get_entry account_override_default_def
        split: option.splits if_splits)
  ultimately show ?thesis
    using assms(1) by (auto simp: as_wf_def modify_account_def)
qed

lemma as_wf_set_balance [wf_intros]: "as_wf K s \<Longrightarrow> as_wf K (set_balance a v s)"
  unfolding set_balance_def by (rule as_wf_modify) simp_all

lemma as_wf_set_nonce [wf_intros]: "as_wf K s \<Longrightarrow> as_wf K (set_nonce a n s)"
  unfolding set_nonce_def by (rule as_wf_modify) simp_all

lemma as_wf_set_storage_at [wf_intros]: "as_wf K s \<Longrightarrow> as_wf K (set_storage_at a k v s)"
  unfolding set_storage_at_def by (rule as_wf_modify) simp_all

lemma as_wf_set_code [wf_intros]:
  assumes "code_laws K" and "as_wf K s" and "set_code K a code s = Some s'"
  shows "as_wf K s'"
proof -
  note reads = set_code_reads [OF assms(3)]
  have "hm_wf (as_accounts s')" "hm_wf (as_bytecodes s')"
    using assms(2,3)
    by (auto simp: as_wf_def set_code_def modify_account_def Let_def split: option.splits if_splits)
  moreover have "hm_wf (ao_storage ov)" if "account s' a' = Some ov" for a' ov
    using that assms(2,3)
    by (auto simp: as_wf_def set_code_def modify_account_def account_def hm_get_entry Let_def
        account_override_default_def split: option.splits if_splits)
  moreover have "code \<noteq> [] \<Longrightarrow> new_raw K code \<noteq> None"
    using assms(3) set_code_panics [of K a code s] by auto
  ultimately show ?thesis
    using assms(1,2)
    by (auto simp: as_wf_def reads code_hash_of_def code_laws_def split: if_splits)
qed

lemma as_wf_fold_storage [wf_intros]:
  "as_wf K s \<Longrightarrow> as_wf K (fold (\<lambda>(k, v). set_storage_at a k v) kvs s)"
  by (induction kvs arbitrary: s) (auto intro: wf_intros)

end
