(* ===== verification/State_Provider.thy ===== *)
theory State_Provider
  imports Anvil_State
begin

text \<open>
  \<open>AnvilStateProvider\<close> (src/src/state_provider.rs) lays the local overrides over the state
  provider of the node, and \<open>AnvilEthApiBuilder\<close> (src/src/eth_builder.rs) installs it in
  front of every state the \<open>eth_*\<close> handlers load. The wrapped provider is a record of its
  methods: the three the overlay answers, and those it delegates, whose trie values
  (hashed states, proofs, updates, witnesses) are opaque and of one type \<open>'v\<close>.
\<close>

section \<open>Providers\<close>

record acct =
  acc_nonce :: u64
  acc_balance :: u256
  acc_bytecode_hash :: "b256 option"

definition acct_default :: acct where
  "acct_default = \<lparr>acc_nonce = 0, acc_balance = 0, acc_bytecode_hash = None\<rparr>"

record ('e, 'bc, 'v) state_provider =
  sp_basic_account :: "address \<Rightarrow> 'e + acct option"
  sp_storage :: "address \<Rightarrow> b256 \<Rightarrow> 'e + u256 option"
  sp_bytecode_by_hash :: "b256 \<Rightarrow> 'e + 'bc option"
  sp_state_root :: "'v \<Rightarrow> 'e + b256"
  sp_state_root_from_nodes :: "'v \<Rightarrow> 'e + b256"
  sp_state_root_with_updates :: "'v \<Rightarrow> 'e + (b256 \<times> 'v)"
  sp_state_root_from_nodes_with_updates :: "'v \<Rightarrow> 'e + (b256 \<times> 'v)"
  sp_storage_root :: "address \<Rightarrow> 'v \<Rightarrow> 'e + b256"
  sp_storage_proof :: "address \<Rightarrow> b256 \<Rightarrow> 'v \<Rightarrow> 'e + 'v"
  sp_storage_multiproof :: "address \<Rightarrow> b256 list \<Rightarrow> 'v \<Rightarrow> 'e + 'v"
  sp_proof :: "'v \<Rightarrow> address \<Rightarrow> b256 list \<Rightarrow> 'e + 'v"
  sp_multiproof :: "'v \<Rightarrow> 'v \<Rightarrow> 'e + 'v"
  sp_witness :: "'v \<Rightarrow> 'v \<Rightarrow> 'v \<Rightarrow> 'e + bytes list"
  sp_block_hash :: "u64 \<Rightarrow> 'e + b256 option"
  sp_convert_block_hash :: "'v \<Rightarrow> 'e + b256 option"
  sp_canonical_hashes_range :: "u64 \<Rightarrow> u64 \<Rightarrow> 'e + b256 list"
  sp_hashed_post_state :: "'v \<Rightarrow> 'v"

section \<open>The overlay\<close>

definition basic_account ::
  "'bc anvil_state \<Rightarrow> ('e, 'bc, 'v) state_provider \<Rightarrow> address \<Rightarrow> 'e + acct option" where
  "basic_account state inner a =
     (case account state a of
        None \<Rightarrow> sp_basic_account inner a
      | Some account_override \<Rightarrow>
          (case sp_basic_account inner a of
             Inl e \<Rightarrow> Inl e
           | Inr found \<Rightarrow>
               (let acc0 = (case found of Some x \<Rightarrow> x | None \<Rightarrow> acct_default);
                    acc1 = (case override_balance account_override of
                              Some b \<Rightarrow> acc0\<lparr>acc_balance := b\<rparr> | None \<Rightarrow> acc0);
                    acc2 = (case override_nonce account_override of
                              Some n \<Rightarrow> acc1\<lparr>acc_nonce := n\<rparr> | None \<Rightarrow> acc1);
                    acc3 = (case override_code_hash account_override of
                              Some h \<Rightarrow> acc2\<lparr>acc_bytecode_hash := Some h\<rparr> | None \<Rightarrow> acc2)
                in Inr (Some acc3))))"

definition storage ::
  "'bc anvil_state \<Rightarrow> ('e, 'bc, 'v) state_provider \<Rightarrow> address \<Rightarrow> b256 \<Rightarrow> 'e + u256 option" where
  "storage state inner a key =
     (case local_storage state a key of
        Some value \<Rightarrow> Inr (Some value)
      | None \<Rightarrow> sp_storage inner a key)"

definition bytecode_by_hash ::
  "'bc anvil_state \<Rightarrow> ('e, 'bc, 'v) state_provider \<Rightarrow> b256 \<Rightarrow> 'e + 'bc option" where
  "bytecode_by_hash state inner h =
     (case local_bytecode_by_hash state h of
        Some bytecode \<Rightarrow> Inr (Some bytecode)
      | None \<Rightarrow> sp_bytecode_by_hash inner h)"

text \<open>The delegated methods, by trait.\<close>

definition delegate_state_root :: "('e, 'bc, 'v) state_provider \<Rightarrow> 'v \<Rightarrow> 'e + b256" where
  "delegate_state_root inner hashed_state = sp_state_root inner hashed_state"

definition delegate_state_root_from_nodes :: "('e, 'bc, 'v) state_provider \<Rightarrow> 'v \<Rightarrow> 'e + b256" where
  "delegate_state_root_from_nodes inner input = sp_state_root_from_nodes inner input"

definition delegate_state_root_with_updates ::
  "('e, 'bc, 'v) state_provider \<Rightarrow> 'v \<Rightarrow> 'e + (b256 \<times> 'v)" where
  "delegate_state_root_with_updates inner hashed_state = sp_state_root_with_updates inner hashed_state"

definition delegate_state_root_from_nodes_with_updates ::
  "('e, 'bc, 'v) state_provider \<Rightarrow> 'v \<Rightarrow> 'e + (b256 \<times> 'v)" where
  "delegate_state_root_from_nodes_with_updates inner input =
     sp_state_root_from_nodes_with_updates inner input"

definition delegate_storage_root :: "('e, 'bc, 'v) state_provider \<Rightarrow> address \<Rightarrow> 'v \<Rightarrow> 'e + b256" where
  "delegate_storage_root inner a hashed_storage = sp_storage_root inner a hashed_storage"

definition delegate_storage_proof ::
  "('e, 'bc, 'v) state_provider \<Rightarrow> address \<Rightarrow> b256 \<Rightarrow> 'v \<Rightarrow> 'e + 'v" where
  "delegate_storage_proof inner a slot hashed_storage = sp_storage_proof inner a slot hashed_storage"

definition delegate_storage_multiproof ::
  "('e, 'bc, 'v) state_provider \<Rightarrow> address \<Rightarrow> b256 list \<Rightarrow> 'v \<Rightarrow> 'e + 'v" where
  "delegate_storage_multiproof inner a slots hashed_storage =
     sp_storage_multiproof inner a slots hashed_storage"

definition delegate_proof ::
  "('e, 'bc, 'v) state_provider \<Rightarrow> 'v \<Rightarrow> address \<Rightarrow> b256 list \<Rightarrow> 'e + 'v" where
  "delegate_proof inner input a slots = sp_proof inner input a slots"

definition delegate_multiproof :: "('e, 'bc, 'v) state_provider \<Rightarrow> 'v \<Rightarrow> 'v \<Rightarrow> 'e + 'v" where
  "delegate_multiproof inner input targets = sp_multiproof inner input targets"

definition delegate_witness ::
  "('e, 'bc, 'v) state_provider \<Rightarrow> 'v \<Rightarrow> 'v \<Rightarrow> 'v \<Rightarrow> 'e + bytes list" where
  "delegate_witness inner input target mode = sp_witness inner input target mode"

definition delegate_block_hash :: "('e, 'bc, 'v) state_provider \<Rightarrow> u64 \<Rightarrow> 'e + b256 option" where
  "delegate_block_hash inner number = sp_block_hash inner number"

definition delegate_convert_block_hash ::
  "('e, 'bc, 'v) state_provider \<Rightarrow> 'v \<Rightarrow> 'e + b256 option" where
  "delegate_convert_block_hash inner hash_or_number = sp_convert_block_hash inner hash_or_number"

definition delegate_canonical_hashes_range ::
  "('e, 'bc, 'v) state_provider \<Rightarrow> u64 \<Rightarrow> u64 \<Rightarrow> 'e + b256 list" where
  "delegate_canonical_hashes_range inner start stop = sp_canonical_hashes_range inner start stop"

definition delegate_hashed_post_state :: "('e, 'bc, 'v) state_provider \<Rightarrow> 'v \<Rightarrow> 'v" where
  "delegate_hashed_post_state inner bundle_state = sp_hashed_post_state inner bundle_state"

text \<open>\<open>AnvilStateProvider::new\<close>: the overlay is a provider again.\<close>

definition anvil_state_provider ::
  "'bc anvil_state \<Rightarrow> ('e, 'bc, 'v) state_provider \<Rightarrow> ('e, 'bc, 'v) state_provider" where
  "anvil_state_provider state inner =
     \<lparr>sp_basic_account = basic_account state inner,
      sp_storage = storage state inner,
      sp_bytecode_by_hash = bytecode_by_hash state inner,
      sp_state_root = delegate_state_root inner,
      sp_state_root_from_nodes = delegate_state_root_from_nodes inner,
      sp_state_root_with_updates = delegate_state_root_with_updates inner,
      sp_state_root_from_nodes_with_updates = delegate_state_root_from_nodes_with_updates inner,
      sp_storage_root = delegate_storage_root inner,
      sp_storage_proof = delegate_storage_proof inner,
      sp_storage_multiproof = delegate_storage_multiproof inner,
      sp_proof = delegate_proof inner,
      sp_multiproof = delegate_multiproof inner,
      sp_witness = delegate_witness inner,
      sp_block_hash = delegate_block_hash inner,
      sp_convert_block_hash = delegate_convert_block_hash inner,
      sp_canonical_hashes_range = delegate_canonical_hashes_range inner,
      sp_hashed_post_state = delegate_hashed_post_state inner\<rparr>"

text \<open>
  The struct itself: a handle of the shared state and the wrapped provider, which \<open>AsRef\<close>
  hands out as it is (without the overlay).
\<close>

record ('h, 'p) anvil_state_provider_struct =
  asp_state :: 'h
  asp_inner :: 'p

definition anvil_state_provider_new :: "'h \<Rightarrow> 'p \<Rightarrow> ('h, 'p) anvil_state_provider_struct" where
  "anvil_state_provider_new state inner = \<lparr>asp_state = state, asp_inner = inner\<rparr>"

definition anvil_state_provider_as_ref :: "('h, 'p) anvil_state_provider_struct \<Rightarrow> 'p" where
  "anvil_state_provider_as_ref self = asp_inner self"

lemmas delegate_defs = delegate_state_root_def delegate_state_root_from_nodes_def
  delegate_state_root_with_updates_def delegate_state_root_from_nodes_with_updates_def
  delegate_storage_root_def delegate_storage_proof_def delegate_storage_multiproof_def
  delegate_proof_def delegate_multiproof_def delegate_witness_def delegate_block_hash_def
  delegate_convert_block_hash_def delegate_canonical_hashes_range_def
  delegate_hashed_post_state_def

subsection \<open>Installing the overlay\<close>

text \<open>
  \<open>AnvilEthApiBuilder\<close> holds a handle of the shared state and registers an interceptor that
  wraps each state provider the ETH API loads. The overlay reads the state behind the
  handle when it is asked, so the interceptor takes the heap at that moment (\<open>heap h\<close> is
  what is behind the handle \<open>h\<close>). The builder of the ETH API itself is a parameter: it
  takes the interceptor and returns the API. \<open>anvil_add_ons\<close> puts a new builder into the
  node's add-ons, whose other parts are the stock ones.
\<close>

record 'h anvil_eth_api_builder =
  eb_state :: 'h

definition anvil_eth_api_builder_new :: "'h \<Rightarrow> 'h anvil_eth_api_builder" where
  "anvil_eth_api_builder_new state = \<lparr>eb_state = state\<rparr>"

definition build_eth_api ::
  "((('h \<Rightarrow> 'bc anvil_state) \<Rightarrow> ('e, 'bc, 'v) state_provider \<Rightarrow> ('e, 'bc, 'v) state_provider) \<Rightarrow> 'api)
     \<Rightarrow> 'h anvil_eth_api_builder \<Rightarrow> 'api" where
  "build_eth_api build_with_interceptor self =
     (let state = eb_state self
      in build_with_interceptor (\<lambda>heap inner. anvil_state_provider (heap state) inner))"

definition anvil_add_ons :: "('h anvil_eth_api_builder \<Rightarrow> 'addons) \<Rightarrow> 'h \<Rightarrow> 'addons" where
  "anvil_add_ons stock_add_ons state = stock_add_ons (anvil_eth_api_builder_new state)"

section \<open>The overlay as a function of the base account\<close>

text \<open>
  Reading an account through the overlay applies the local overrides to what the base
  provider answers; an account with an override record exists in any case.
\<close>

definition apply_overrides :: "'bc anvil_state \<Rightarrow> address \<Rightarrow> acct \<Rightarrow> acct" where
  "apply_overrides state a acc =
     \<lparr>acc_nonce = (case local_nonce state a of Some n \<Rightarrow> n | None \<Rightarrow> acc_nonce acc),
      acc_balance = (case local_balance state a of Some b \<Rightarrow> b | None \<Rightarrow> acc_balance acc),
      acc_bytecode_hash = (case local_code_hash state a of
         Some h \<Rightarrow> Some h | None \<Rightarrow> acc_bytecode_hash acc)\<rparr>"

lemma basic_account_overlay:
  "basic_account state inner a =
     (if account state a = None then sp_basic_account inner a
      else map_sum id
        (\<lambda>found. Some (apply_overrides state a (case found of Some x \<Rightarrow> x | None \<Rightarrow> acct_default)))
        (sp_basic_account inner a))"
  by (auto simp: basic_account_def apply_overrides_def local_nonce_def local_balance_def
      local_code_hash_def Let_def split: option.splits sum.split)

lemma apply_overrides_none: "account state a = None \<Longrightarrow> apply_overrides state a acc = acc"
  by (simp add: apply_overrides_def local_nonce_def local_balance_def local_code_hash_def)

text \<open>The account read through the overlay, with an absent account as the empty one.\<close>

definition account_view ::
  "'bc anvil_state \<Rightarrow> ('e, 'bc, 'v) state_provider \<Rightarrow> address \<Rightarrow> 'e + acct" where
  "account_view state inner a =
     map_sum id (\<lambda>found. case found of Some x \<Rightarrow> x | None \<Rightarrow> acct_default)
       (sp_basic_account (anvil_state_provider state inner) a)"

lemma account_view_overrides:
  "account_view state inner a =
     map_sum id (\<lambda>found. apply_overrides state a (case found of Some x \<Rightarrow> x | None \<Rightarrow> acct_default))
       (sp_basic_account inner a)"
proof (cases "account state a")
  case None
  then show ?thesis
    by (simp add: account_view_def anvil_state_provider_def basic_account_overlay
        apply_overrides_none)
next
  case (Some ov)
  then show ?thesis
    by (simp add: account_view_def anvil_state_provider_def basic_account_overlay
        sum.map_comp comp_def id_def)
qed

lemma account_view_cong:
  "local_nonce s a = local_nonce s' a \<Longrightarrow> local_balance s a = local_balance s' a \<Longrightarrow>
     local_code_hash s a = local_code_hash s' a \<Longrightarrow>
     account_view s inner a = account_view s' inner a"
  by (simp add: account_view_overrides apply_overrides_def)

text \<open>The three methods the overlay answers, as functions of the local state.\<close>

lemma overlay_account:
  "sp_basic_account (anvil_state_provider s inner) a =
     (if account s a = None then sp_basic_account inner a
      else map_sum id Some (account_view s inner a))"
  by (simp add: account_view_overrides anvil_state_provider_def basic_account_overlay
      sum.map_comp comp_def id_def)

lemma overlay_storage:
  "sp_storage (anvil_state_provider s inner) = (\<lambda>a k.
     case local_storage s a k of Some w \<Rightarrow> Inr (Some w) | None \<Rightarrow> sp_storage inner a k)"
  by (simp add: anvil_state_provider_def storage_def fun_eq_iff)

lemma overlay_bytecode:
  "sp_bytecode_by_hash (anvil_state_provider s inner) = (\<lambda>h.
     case local_bytecode_by_hash s h of
       Some bytecode \<Rightarrow> Inr (Some bytecode) | None \<Rightarrow> sp_bytecode_by_hash inner h)"
  by (simp add: anvil_state_provider_def bytecode_by_hash_def fun_eq_iff)

section \<open>An instance of the library functions\<close>

text \<open>
  For the witnesses: a code is its own bytecode, the hash of a non-empty code is its first
  byte (or 256), and a code that starts with the byte \<open>0xEF\<close> is malformed. The base
  provider knows one account with balance 100 and nonce 1.
\<close>

definition demo_code :: "bytes code_ops" where
  "demo_code =
     \<lparr>keccak256 = (\<lambda>c. if c = [] then 0 else if ucast (hd c) = (0 :: b256) then 256 else ucast (hd c)),
      keccak_empty = 0,
      new_raw = (\<lambda>c. if c \<noteq> [] \<and> hd c = 0xEF then None else Some c),
      original_bytes = id\<rparr>"

lemma demo_code_laws: "code_laws demo_code"
  by (auto simp: code_laws_def demo_code_def split: if_splits)

definition demo_provider :: "(string, bytes, unit) state_provider" where
  "demo_provider =
     \<lparr>sp_basic_account = (\<lambda>a. Inr (if a = 5 then Some \<lparr>acc_nonce = 1, acc_balance = 100,
        acc_bytecode_hash = None\<rparr> else None)),
      sp_storage = (\<lambda>_ _. Inr None), sp_bytecode_by_hash = (\<lambda>_. Inr None),
      sp_state_root = (\<lambda>_. Inr 0), sp_state_root_from_nodes = (\<lambda>_. Inr 0),
      sp_state_root_with_updates = (\<lambda>_. Inr (0, ())),
      sp_state_root_from_nodes_with_updates = (\<lambda>_. Inr (0, ())),
      sp_storage_root = (\<lambda>_ _. Inr 0), sp_storage_proof = (\<lambda>_ _ _. Inr ()),
      sp_storage_multiproof = (\<lambda>_ _ _. Inr ()), sp_proof = (\<lambda>_ _ _. Inr ()),
      sp_multiproof = (\<lambda>_ _. Inr ()), sp_witness = (\<lambda>_ _ _. Inr []),
      sp_block_hash = (\<lambda>_. Inr None), sp_convert_block_hash = (\<lambda>_. Inr None),
      sp_canonical_hashes_range = (\<lambda>_ _. Inr []), sp_hashed_post_state = id\<rparr>"

section \<open>Properties\<close>

text \<open>
  C8: Through the overlay a balance, a nonce or a storage write changes exactly the attribute
  written. The account written exists afterwards and differs from the one read before (the
  empty one if there was none) in that attribute only; every other account, whether it exists
  included, every slot except the one written and every bytecode read as before. Errors of
  the base provider are passed on unchanged.
\<close>

theorem writes_update_view:
  "sp_basic_account (anvil_state_provider (set_balance a v s) inner) b =
     (if b = a then map_sum id (\<lambda>acc. Some (acc\<lparr>acc_balance := v\<rparr>)) (account_view s inner a)
      else sp_basic_account (anvil_state_provider s inner) b) \<and>
   sp_basic_account (anvil_state_provider (set_nonce a n s) inner) b =
     (if b = a then map_sum id (\<lambda>acc. Some (acc\<lparr>acc_nonce := n\<rparr>)) (account_view s inner a)
      else sp_basic_account (anvil_state_provider s inner) b) \<and>
   sp_basic_account (anvil_state_provider (set_storage_at a k w s) inner) b =
     (if b = a then map_sum id Some (account_view s inner a)
      else sp_basic_account (anvil_state_provider s inner) b) \<and>
   sp_storage (anvil_state_provider (set_balance a v s) inner) =
     sp_storage (anvil_state_provider s inner) \<and>
   sp_storage (anvil_state_provider (set_nonce a n s) inner) =
     sp_storage (anvil_state_provider s inner) \<and>
   sp_storage (anvil_state_provider (set_storage_at a k w s) inner) b i =
     (if b = a \<and> i = k then Inr (Some w) else sp_storage (anvil_state_provider s inner) b i) \<and>
   sp_bytecode_by_hash (anvil_state_provider (set_balance a v s) inner) =
     sp_bytecode_by_hash (anvil_state_provider s inner) \<and>
   sp_bytecode_by_hash (anvil_state_provider (set_nonce a n s) inner) =
     sp_bytecode_by_hash (anvil_state_provider s inner) \<and>
   sp_bytecode_by_hash (anvil_state_provider (set_storage_at a k w s) inner) =
     sp_bytecode_by_hash (anvil_state_provider s inner)"
  by (intro conjI)
    (auto simp: overlay_account account_view_overrides apply_overrides_def sum.map_comp comp_def
      overlay_storage overlay_bytecode fun_eq_iff
      store.bal_set_bal store.non_set_non store.bal_frame store.non_frame store.sto_frame
      store.sto_set_sto intro!: sum.map_cong)

text \<open>
  C9: After \<open>set_code\<close> the account exists, its bytecode hash is the hash of the code, and a
  non-empty code is found under that hash with exactly the bytes that were set. Nothing else
  changes: the account's balance and nonce, every other account, every slot, and the bytecode
  found under every other hash (under every hash when the code is empty) read as before.
\<close>

theorem set_code_visible:
  assumes "code_laws K" and "set_code K a code s = Some s'"
  shows "sp_basic_account (anvil_state_provider s' inner) b =
      (if b = a
       then map_sum id (\<lambda>acc. Some (acc\<lparr>acc_bytecode_hash := Some (keccak256 K code)\<rparr>))
         (account_view s inner a)
       else sp_basic_account (anvil_state_provider s inner) b) \<and>
    map_sum id (map_option (original_bytes K))
        (sp_bytecode_by_hash (anvil_state_provider s' inner) h) =
      (if code \<noteq> [] \<and> h = keccak256 K code then Inr (Some code)
       else map_sum id (map_option (original_bytes K))
         (sp_bytecode_by_hash (anvil_state_provider s inner) h)) \<and>
    (code = [] \<or> h \<noteq> keccak256 K code \<longrightarrow>
      sp_bytecode_by_hash (anvil_state_provider s' inner) h =
        sp_bytecode_by_hash (anvil_state_provider s inner) h) \<and>
    sp_storage (anvil_state_provider s' inner) = sp_storage (anvil_state_provider s inner)"
proof (intro conjI impI)
  note reads = set_code_reads [OF assms(2)]
  show "sp_basic_account (anvil_state_provider s' inner) b =
      (if b = a
       then map_sum id (\<lambda>acc. Some (acc\<lparr>acc_bytecode_hash := Some (keccak256 K code)\<rparr>))
         (account_view s inner a)
       else sp_basic_account (anvil_state_provider s inner) b)"
    using assms(1)
    by (auto simp: overlay_account account_view_overrides apply_overrides_def reads sum.map_comp
        comp_def code_hash_of_keccak intro!: sum.map_cong)
  show other: "sp_bytecode_by_hash (anvil_state_provider s' inner) h =
      sp_bytecode_by_hash (anvil_state_provider s inner) h"
    if "code = [] \<or> h \<noteq> keccak256 K code"
    using that by (auto simp: overlay_bytecode reads)
  show "sp_storage (anvil_state_provider s' inner) = sp_storage (anvil_state_provider s inner)"
    by (simp add: overlay_storage reads)
  show "map_sum id (map_option (original_bytes K))
      (sp_bytecode_by_hash (anvil_state_provider s' inner) h) =
      (if code \<noteq> [] \<and> h = keccak256 K code then Inr (Some code)
       else map_sum id (map_option (original_bytes K))
         (sp_bytecode_by_hash (anvil_state_provider s inner) h))"
  proof (cases "code \<noteq> [] \<and> h = keccak256 K code")
    case True
    then obtain bc where "new_raw K code = Some bc"
      using assms(2) set_code_panics [of K a code s] by auto
    with assms(1) True show ?thesis
      by (simp add: overlay_bytecode reads code_laws_def)
  next
    case False
    then have "sp_bytecode_by_hash (anvil_state_provider s' inner) h =
        sp_bytecode_by_hash (anvil_state_provider s inner) h"
      by (intro other) auto
    then show ?thesis by (simp only: False if_False)
  qed
qed

theorem set_code_visible_witness:
  "\<exists>s'. set_code demo_code 5 [1, 2] anvil_state_shared = Some s' \<and>
     sp_basic_account (anvil_state_provider s' demo_provider) 5 =
       Inr (Some \<lparr>acc_nonce = 1, acc_balance = 100, acc_bytecode_hash = Some 1\<rparr>) \<and>
     sp_bytecode_by_hash (anvil_state_provider s' demo_provider) 1 = Inr (Some [1, 2])"
proof -
  obtain s' where s': "set_code demo_code 5 [1, 2] anvil_state_shared = Some s'"
    by (cases "set_code demo_code 5 [1, 2] anvil_state_shared")
      (auto simp: set_code_panics demo_code_def)
  have hash: "keccak256 demo_code [1, 2] = 1" and orig: "original_bytes demo_code = id"
    by (simp_all add: demo_code_def)
  have base: "account_view anvil_state_shared demo_provider 5 =
      Inr \<lparr>acc_nonce = 1, acc_balance = 100, acc_bytecode_hash = None\<rparr>"
    by (simp add: account_view_overrides apply_overrides_def demo_provider_def
        anvil_state_shared_def anvil_state_defs)
  from set_code_visible [OF demo_code_laws s',
      where b = 5 and h = 1 and inner = demo_provider]
  have "map_sum id (map_option id)
      (sp_bytecode_by_hash (anvil_state_provider s' demo_provider) 1) = Inr (Some [1, 2])"
    and "sp_basic_account (anvil_state_provider s' demo_provider) 5 =
      Inr (Some \<lparr>acc_nonce = 1, acc_balance = 100, acc_bytecode_hash = Some 1\<rparr>)"
    by (simp_all add: hash orig base)
  with s' show ?thesis by (simp add: option.map_id0 sum.map_id0)
qed

text \<open>
  The overlay only answers for accounts, storage and bytecode: state roots, storage
  roots, proofs, witnesses, hashed states and block hashes are those of the wrapped
  provider, whatever has been overridden. The interceptor the add-ons install is this
  overlay over the state behind the shared handle at the time of the query.
\<close>

theorem overlay_delegates_the_rest:
  "anvil_state_provider s inner =
     inner\<lparr>sp_basic_account := basic_account s inner,
           sp_storage := storage s inner,
           sp_bytecode_by_hash := bytecode_by_hash s inner\<rparr> \<and>
   anvil_add_ons (build_eth_api build) h = build (\<lambda>heap. anvil_state_provider (heap h))"
proof
  show "anvil_state_provider s inner =
     inner\<lparr>sp_basic_account := basic_account s inner,
           sp_storage := storage s inner,
           sp_bytecode_by_hash := bytecode_by_hash s inner\<rparr>"
    by (cases inner) (simp add: anvil_state_provider_def delegate_defs fun_eq_iff)
  show "anvil_add_ons (build_eth_api build) h = build (\<lambda>heap. anvil_state_provider (heap h))"
    by (simp add: anvil_add_ons_def build_eth_api_def anvil_eth_api_builder_new_def)
qed

end
