(* ===== verification/State_Dump.thy ===== *)
theory State_Dump
  imports State_Provider
begin

text \<open>
  The state dump (src/src/state_dump.rs): the serializable state, how it is filled from the
  node's dump and merged with the local overrides, how it becomes gzipped JSON bytes and is
  read back. JSON documents are a datatype; the derived \<open>serde\<close> implementations follow the
  field attributes of the source. The text syntax of JSON, the compression and the
  encodings of the numeric leaf types are library code and parameters.
\<close>

section \<open>Data\<close>

text \<open>\<open>serde_json::Value\<close>; a number that is not an integer keeps its text.\<close>

datatype json =
    JNull
  | JBool bool
  | JNumber int
  | JReal string
  | JString string
  | JArray "json list"
  | JObject "(string \<times> json) list"

record account_record =
  sr_nonce :: u64
  sr_balance :: u256
  sr_code :: bytes
  sr_storage :: "(b256, b256) btreemap"

record serializable_state =
  ss_block :: "json option"
  ss_accounts :: "(address, account_record) btreemap"
  ss_best_block_number :: "u64 option"
  ss_blocks :: "json list"
  ss_transactions :: "json list"
  ss_historical_states :: "json option"

text \<open>The node's own dump (\<open>DumpedState\<close>): the fields the code reads.\<close>

record dumped_account =
  da_address :: address
  da_nonce :: u64
  da_balance :: u256
  da_code :: "bytes option"
  da_storage :: "(b256, b256) btreemap"

definition account_record_default :: account_record where
  "account_record_default = \<lparr>sr_nonce = 0, sr_balance = 0, sr_code = [], sr_storage = []\<rparr>"

definition serializable_state_default :: serializable_state where
  "serializable_state_default =
     \<lparr>ss_block = None, ss_accounts = [], ss_best_block_number = None, ss_blocks = [],
      ss_transactions = [], ss_historical_states = None\<rparr>"

section \<open>From the node's dump and the local overrides\<close>

definition account_record_from :: "dumped_account \<Rightarrow> account_record" where
  "account_record_from acc =
     \<lparr>sr_nonce = da_nonce acc, sr_balance = da_balance acc,
      sr_code = (case da_code acc of Some c \<Rightarrow> c | None \<Rightarrow> []),
      sr_storage = da_storage acc\<rparr>"

definition from_dump :: "dumped_account list \<Rightarrow> u64 option \<Rightarrow> serializable_state" where
  "from_dump dump best_block_number =
     serializable_state_default
       \<lparr>ss_accounts := bt_collect (map (\<lambda>acc. (da_address acc, account_record_from acc)) dump),
        ss_best_block_number := best_block_number\<rparr>"

text \<open>The body of the loop of \<open>merge_anvil_state\<close> on one record, then the loop.\<close>

definition merge_record ::
  "'bc code_ops \<Rightarrow> 'bc anvil_state \<Rightarrow> account_override \<Rightarrow> account_record \<Rightarrow> account_record" where
  "merge_record K anvil_state acc rec =
     (let rec1 = (case override_balance acc of
                    Some balance \<Rightarrow> rec\<lparr>sr_balance := balance\<rparr> | None \<Rightarrow> rec);
          rec2 = (case override_nonce acc of
                    Some nonce \<Rightarrow> rec1\<lparr>sr_nonce := nonce\<rparr> | None \<Rightarrow> rec1);
          rec3 = (case override_code_hash acc of
                    Some code_hash \<Rightarrow>
                      rec2\<lparr>sr_code :=
                        (if code_hash = keccak_empty K then []
                         else (case local_bytecode_by_hash anvil_state code_hash of
                                 Some bytecode \<Rightarrow> original_bytes K bytecode
                               | None \<Rightarrow> []))\<rparr>
                  | None \<Rightarrow> rec2)
      in rec3\<lparr>sr_storage :=
           fold (\<lambda>(slot, value). bt_insert slot value) (override_storage acc) (sr_storage rec3)\<rparr>)"

definition merge_anvil_state ::
  "'bc code_ops \<Rightarrow> 'bc anvil_state \<Rightarrow> serializable_state \<Rightarrow> serializable_state" where
  "merge_anvil_state K anvil_state self =
     self\<lparr>ss_accounts :=
       fold (\<lambda>(a, acc). bt_entry account_record_default a (merge_record K anvil_state acc))
         (accounts anvil_state) (ss_accounts self)\<rparr>"

section \<open>JSON\<close>

text \<open>
  The encodings of the leaf types (addresses, words and byte strings), with \<open>None\<close> for a
  value that does not decode. \<open>u64\<close> is a JSON number.
\<close>

record leaf_codec =
  address_str :: "address \<Rightarrow> string"
  str_address :: "string \<Rightarrow> address option"
  b256_str :: "b256 \<Rightarrow> string"
  str_b256 :: "string \<Rightarrow> b256 option"
  u256_json :: "u256 \<Rightarrow> json"
  json_u256 :: "json \<Rightarrow> u256 option"
  bytes_json :: "bytes \<Rightarrow> json"
  json_bytes :: "json \<Rightarrow> bytes option"

definition leaf_laws :: "leaf_codec \<Rightarrow> bool" where
  "leaf_laws W \<longleftrightarrow>
     (\<forall>a. str_address W (address_str W a) = Some a) \<and>
     (\<forall>h. str_b256 W (b256_str W h) = Some h) \<and>
     (\<forall>v. json_u256 W (u256_json W v) = Some v) \<and>
     (\<forall>c. json_bytes W (bytes_json W c) = Some c)"

definition u64_json :: "u64 \<Rightarrow> json" where
  "u64_json n = JNumber (uint n)"

fun json_u64 :: "json \<Rightarrow> u64 option" where
  "json_u64 (JNumber n) = (if 0 \<le> n \<and> n < 2 ^ 64 then Some (word_of_int n) else None)"
| "json_u64 _ = None"

fun json_list :: "json \<Rightarrow> json list option" where
  "json_list (JArray js) = Some js"
| "json_list _ = None"

text \<open>An \<open>Option\<close> reads \<open>null\<close> as \<open>None\<close>.\<close>

fun json_option :: "(json \<Rightarrow> 'a option) \<Rightarrow> json \<Rightarrow> 'a option option" where
  "json_option f JNull = Some None"
| "json_option f j = map_option Some (f j)"

text \<open>A map reads an object entry by entry, a later entry replacing an earlier one.\<close>

fun read_entries ::
  "(string \<Rightarrow> 'k::linorder option) \<Rightarrow> (json \<Rightarrow> 'v option) \<Rightarrow> (string \<times> json) list
     \<Rightarrow> ('k \<times> 'v) list option" where
  "read_entries fk fv [] = Some []"
| "read_entries fk fv ((k, j) # kjs) =
     (case (fk k, fv j, read_entries fk fv kjs) of
        (Some k', Some v, Some kvs) \<Rightarrow> Some ((k', v) # kvs)
      | _ \<Rightarrow> None)"

fun json_map ::
  "(string \<Rightarrow> 'k::linorder option) \<Rightarrow> (json \<Rightarrow> 'v option) \<Rightarrow> json \<Rightarrow> ('k, 'v) btreemap option" where
  "json_map fk fv (JObject kjs) = map_option bt_collect (read_entries fk fv kjs)"
| "json_map fk fv _ = None"

text \<open>
  A derived struct reads an object, where a field given twice is an error and an unknown
  field is skipped, or an array with the fields in order. The result is the value given
  for each field; \<open>#[serde(default)]\<close> is the default for a field with none.
\<close>

fun struct_fields :: "string list \<Rightarrow> json \<Rightarrow> (string \<Rightarrow> json option) option" where
  "struct_fields names (JObject kjs) =
     (if distinct (filter (\<lambda>k. k \<in> set names) (map fst kjs)) then Some (map_of kjs) else None)"
| "struct_fields names (JArray js) =
     (if length js \<le> length names then Some (map_of (zip names js)) else None)"
| "struct_fields names _ = None"

definition field_or :: "'a \<Rightarrow> (json \<Rightarrow> 'a option) \<Rightarrow> json option \<Rightarrow> 'a option" where
  "field_or d f given = (case given of None \<Rightarrow> Some d | Some j \<Rightarrow> f j)"

definition json_of_record :: "leaf_codec \<Rightarrow> account_record \<Rightarrow> json" where
  "json_of_record W r =
     JObject
       [(''nonce'', u64_json (sr_nonce r)),
        (''balance'', u256_json W (sr_balance r)),
        (''code'', bytes_json W (sr_code r)),
        (''storage'', JObject (map (\<lambda>(k, v). (b256_str W k, JString (b256_str W v))) (sr_storage r)))]"

fun json_b256 :: "leaf_codec \<Rightarrow> json \<Rightarrow> b256 option" where
  "json_b256 W (JString s) = str_b256 W s"
| "json_b256 W _ = None"

definition record_of_json :: "leaf_codec \<Rightarrow> json \<Rightarrow> account_record option" where
  "record_of_json W j =
     Option.bind (struct_fields [''nonce'', ''balance'', ''code'', ''storage''] j) (\<lambda>fields.
     Option.bind (field_or 0 json_u64 (fields ''nonce'')) (\<lambda>nonce.
     Option.bind (field_or 0 (json_u256 W) (fields ''balance'')) (\<lambda>balance.
     Option.bind (field_or [] (json_bytes W) (fields ''code'')) (\<lambda>code.
     Option.bind (field_or [] (json_map (str_b256 W) (json_b256 W)) (fields ''storage'')) (\<lambda>storage.
     Some \<lparr>sr_nonce = nonce, sr_balance = balance, sr_code = code, sr_storage = storage\<rparr>)))))"

text \<open>\<open>skip_serializing_if\<close>: an absent option and an empty vector are left out.\<close>

definition opt_field :: "string \<Rightarrow> json option \<Rightarrow> (string \<times> json) list" where
  "opt_field name v = (case v of None \<Rightarrow> [] | Some j \<Rightarrow> [(name, j)])"

definition vec_field :: "string \<Rightarrow> json list \<Rightarrow> (string \<times> json) list" where
  "vec_field name js = (if js = [] then [] else [(name, JArray js)])"

definition json_of_state :: "leaf_codec \<Rightarrow> serializable_state \<Rightarrow> json" where
  "json_of_state W st =
     JObject
       (opt_field ''block'' (ss_block st) @
        [(''accounts'',
          JObject (map (\<lambda>(a, r). (address_str W a, json_of_record W r)) (ss_accounts st)))] @
        opt_field ''best_block_number'' (map_option u64_json (ss_best_block_number st)) @
        vec_field ''blocks'' (ss_blocks st) @
        vec_field ''transactions'' (ss_transactions st) @
        opt_field ''historical_states'' (ss_historical_states st))"

definition state_of_json :: "leaf_codec \<Rightarrow> json \<Rightarrow> serializable_state option" where
  "state_of_json W j =
     Option.bind (struct_fields [''block'', ''accounts'', ''best_block_number'', ''blocks'',
       ''transactions'', ''historical_states''] j) (\<lambda>fields.
     Option.bind (field_or None (json_option Some) (fields ''block'')) (\<lambda>block.
     Option.bind (field_or [] (json_map (str_address W) (record_of_json W)) (fields ''accounts'')) (\<lambda>accs.
     Option.bind (field_or None (json_option json_u64) (fields ''best_block_number'')) (\<lambda>best.
     Option.bind (field_or [] json_list (fields ''blocks'')) (\<lambda>blocks.
     Option.bind (field_or [] json_list (fields ''transactions'')) (\<lambda>txs.
     Option.bind (field_or None (json_option Some) (fields ''historical_states'')) (\<lambda>hist.
     Some \<lparr>ss_block = block, ss_accounts = accs, ss_best_block_number = best, ss_blocks = blocks,
       ss_transactions = txs, ss_historical_states = hist\<rparr>)))))))"

section \<open>Bytes\<close>

text \<open>
  The JSON text and gzip libraries: printing and compressing can fail with a message;
  \<open>gz_header\<close> tells whether the bytes start with a gzip header; parsing a text that is not
  JSON, or a document that is no state, fails with the message \<open>json_error\<close> gives.
\<close>

record dump_codec =
  json_to_vec :: "json \<Rightarrow> string + bytes"
  json_parse :: "bytes \<Rightarrow> json option"
  json_error :: "bytes \<Rightarrow> string"
  gzip :: "bytes \<Rightarrow> string + bytes"
  gz_header :: "bytes \<Rightarrow> bool"
  gunzip :: "bytes \<Rightarrow> string + bytes"

definition dump_codec_laws :: "dump_codec \<Rightarrow> bool" where
  "dump_codec_laws Z \<longleftrightarrow>
     (\<forall>j t. json_to_vec Z j = Inr t \<longrightarrow> json_parse Z t = Some j) \<and>
     (\<forall>t z. gzip Z t = Inr z \<longrightarrow> gz_header Z z \<and> gunzip Z z = Inr t)"

definition encode_gzipped ::
  "leaf_codec \<Rightarrow> dump_codec \<Rightarrow> serializable_state \<Rightarrow> string + bytes" where
  "encode_gzipped W Z self =
     (case json_to_vec Z (json_of_state W self) of
        Inl e \<Rightarrow> Inl e
      | Inr text \<Rightarrow> gzip Z text)"

definition from_slice :: "leaf_codec \<Rightarrow> dump_codec \<Rightarrow> bytes \<Rightarrow> string + serializable_state" where
  "from_slice W Z text =
     (case Option.bind (json_parse Z text) (state_of_json W) of
        None \<Rightarrow> Inl (json_error Z text)
      | Some st \<Rightarrow> Inr st)"

definition decode :: "leaf_codec \<Rightarrow> dump_codec \<Rightarrow> bytes \<Rightarrow> string + serializable_state" where
  "decode W Z buf =
     (if gz_header Z buf
      then (case gunzip Z buf of
              Inl e \<Rightarrow> Inl e
            | Inr decoded \<Rightarrow> from_slice W Z decoded)
      else from_slice W Z buf)"

section \<open>What a merge does to a record\<close>

text \<open>The record of an account, with an absent one as the default.\<close>

definition record_at :: "serializable_state \<Rightarrow> address \<Rightarrow> account_record" where
  "record_at st a =
     (case bt_get (ss_accounts st) a of Some r \<Rightarrow> r | None \<Rightarrow> account_record_default)"

text \<open>Maps in key order, in the state and in each record.\<close>

definition dump_wf :: "serializable_state \<Rightarrow> bool" where
  "dump_wf st \<longleftrightarrow> bt_wf (ss_accounts st) \<and> list_all (\<lambda>(a, r). bt_wf (sr_storage r)) (ss_accounts st)"

lemma bt_get_fold_entry:
  assumes "distinct (map fst kvs)"
  shows "bt_get (fold (\<lambda>(k, v). bt_entry d k (f v)) kvs m) k =
    (case map_of kvs k of
       None \<Rightarrow> bt_get m k
     | Some v \<Rightarrow> Some (f v (case bt_get m k of None \<Rightarrow> d | Some x \<Rightarrow> x)))"
  using assms
proof (induction kvs arbitrary: m)
  case Nil
  show ?case by simp
next
  case (Cons kv kvs)
  obtain i v where kv: "kv = (i, v)" by (cases kv)
  have "map_of kvs i = None"
    using Cons.prems by (auto simp: kv map_of_eq_None_iff)
  with Cons show ?case
    by (auto simp: kv bt_get_entry split: option.splits)
qed

lemma bt_wf_fold_entry: "bt_wf m \<Longrightarrow> bt_wf (fold (\<lambda>(k, v). bt_entry d k (f v)) kvs m)"
  by (induction kvs arbitrary: m) auto

lemma merge_lookup:
  "hm_wf (as_accounts s) \<Longrightarrow>
     bt_get (ss_accounts (merge_anvil_state K s st)) a =
       (case account s a of
          None \<Rightarrow> bt_get (ss_accounts st) a
        | Some ov \<Rightarrow> Some (merge_record K s ov (record_at st a)))"
  by (auto simp: merge_anvil_state_def accounts_def account_def record_at_def bt_get_fold_entry
      split: option.split)

lemma merge_record_reads:
  "sr_nonce (merge_record K s ov r) = (case ao_nonce ov of Some n \<Rightarrow> n | None \<Rightarrow> sr_nonce r)"
  "sr_balance (merge_record K s ov r) = (case ao_balance ov of Some b \<Rightarrow> b | None \<Rightarrow> sr_balance r)"
  "sr_code (merge_record K s ov r) =
     (case ao_code ov of
        None \<Rightarrow> sr_code r
      | Some c \<Rightarrow> if co_hash c = keccak_empty K then []
                  else (case local_bytecode_by_hash s (co_hash c) of
                          Some bc \<Rightarrow> original_bytes K bc | None \<Rightarrow> []))"
  "sr_storage (merge_record K s ov r) = fold (\<lambda>(k, v). bt_insert k v) (ao_storage ov) (sr_storage r)"
  by (auto simp: merge_record_def Let_def override_balance_def override_nonce_def
      override_code_hash_def override_storage_def split: option.split)

text \<open>The same in terms of the reads of the local state.\<close>

lemma merge_reads:
  assumes "as_wf K s"
  shows "sr_nonce (record_at (merge_anvil_state K s st) a) =
      (case local_nonce s a of Some n \<Rightarrow> n | None \<Rightarrow> sr_nonce (record_at st a))"
    and "sr_balance (record_at (merge_anvil_state K s st) a) =
      (case local_balance s a of Some b \<Rightarrow> b | None \<Rightarrow> sr_balance (record_at st a))"
    and "sr_code (record_at (merge_anvil_state K s st) a) =
      (case local_code_hash s a of
         None \<Rightarrow> sr_code (record_at st a)
       | Some h \<Rightarrow> if h = keccak_empty K then []
                   else (case local_bytecode_by_hash s h of
                           Some bc \<Rightarrow> original_bytes K bc | None \<Rightarrow> []))"
proof -
  have wf: "hm_wf (as_accounts s)" using assms by (simp add: as_wf_def)
  have rec: "record_at (merge_anvil_state K s st) a =
      (case account s a of None \<Rightarrow> record_at st a | Some ov \<Rightarrow> merge_record K s ov (record_at st a))"
    using merge_lookup [OF wf, of K st a]
    by (auto simp: record_at_def [of "merge_anvil_state K s st"] record_at_def [of st]
        split: option.split)
  show "sr_nonce (record_at (merge_anvil_state K s st) a) =
      (case local_nonce s a of Some n \<Rightarrow> n | None \<Rightarrow> sr_nonce (record_at st a))"
    by (cases "account s a")
      (simp_all add: rec merge_record_reads local_nonce_def override_nonce_def)
  show "sr_balance (record_at (merge_anvil_state K s st) a) =
      (case local_balance s a of Some b \<Rightarrow> b | None \<Rightarrow> sr_balance (record_at st a))"
    by (cases "account s a")
      (simp_all add: rec merge_record_reads local_balance_def override_balance_def)
  show "sr_code (record_at (merge_anvil_state K s st) a) =
      (case local_code_hash s a of
         None \<Rightarrow> sr_code (record_at st a)
       | Some h \<Rightarrow> if h = keccak_empty K then []
                   else (case local_bytecode_by_hash s h of
                           Some bc \<Rightarrow> original_bytes K bc | None \<Rightarrow> []))"
    by (cases "account s a")
      (auto simp: rec merge_record_reads local_code_hash_def override_code_hash_def
        split: option.split)
qed

lemma dump_wf_record: "dump_wf st \<Longrightarrow> bt_wf (sr_storage (record_at st a))"
  by (auto simp: dump_wf_def record_at_def account_record_default_def list_all_iff
      dest!: map_of_SomeD split: option.split)

lemma merge_storage:
  assumes "as_wf K s" and "dump_wf st"
  shows "bt_get (sr_storage (record_at (merge_anvil_state K s st) a)) k =
    (case local_storage s a k of Some v \<Rightarrow> Some v | None \<Rightarrow> bt_get (sr_storage (record_at st a)) k)"
proof (cases "account s a")
  case None
  with assms(1) show ?thesis
    by (simp add: record_at_def merge_lookup as_wf_def local_storage_def account_def)
next
  case (Some ov)
  have "hm_wf (as_accounts s)" and ov: "hm_wf (ao_storage ov)"
    using assms(1) Some by (auto simp: as_wf_def)
  then have "record_at (merge_anvil_state K s st) a = merge_record K s ov (record_at st a)"
    using Some by (simp add: record_at_def [of "merge_anvil_state K s st"] merge_lookup)
  then show ?thesis
    using Some bt.get_fold_ins_distinct [OF dump_wf_record [OF assms(2)] ov]
    by (simp add: merge_record_reads local_storage_def account_def)
qed

lemma dump_wf_lookup:
  "dump_wf st \<longleftrightarrow> bt_wf (ss_accounts st) \<and>
     (\<forall>a r. bt_get (ss_accounts st) a = Some r \<longrightarrow> bt_wf (sr_storage r))"
  by (auto simp: dump_wf_def list_all_iff dest: map_of_SomeD bt_wf_distinct map_of_is_SomeI)

lemma dump_wf_merge [wf_intros]:
  assumes "as_wf K s" and "dump_wf st"
  shows "dump_wf (merge_anvil_state K s st)"
  unfolding dump_wf_lookup
proof (intro conjI allI impI)
  show "bt_wf (ss_accounts (merge_anvil_state K s st))"
    using assms(2) by (simp add: merge_anvil_state_def dump_wf_def bt_wf_fold_entry)
  fix a r
  assume "bt_get (ss_accounts (merge_anvil_state K s st)) a = Some r"
  moreover have "hm_wf (as_accounts s)" using assms(1) by (simp add: as_wf_def)
  ultimately show "bt_wf (sr_storage r)"
    using assms(2) dump_wf_record [OF assms(2), of a]
    by (auto simp: merge_lookup dump_wf_lookup merge_record_reads bt.inv_fold_ins split: option.splits)
qed

lemma dump_wf_from_dump [wf_intros]:
  "list_all (\<lambda>d. bt_wf (da_storage d)) ds \<Longrightarrow> dump_wf (from_dump ds n)"
  by (auto simp: dump_wf_lookup from_dump_def bt_get_collect account_record_from_def list_all_iff
      dest!: map_of_SomeD)

section \<open>The dump against the overlay\<close>

text \<open>
  What a provider shows of an account (an absent one as the empty one), of its code and of a
  slot (an absent one as zero), and when a record of a dump says the same.
\<close>

definition read_account :: "('e, 'bc, 'v) state_provider \<Rightarrow> address \<Rightarrow> 'e + acct" where
  "read_account P a =
     map_sum id (\<lambda>found. case found of Some x \<Rightarrow> x | None \<Rightarrow> acct_default) (sp_basic_account P a)"

definition read_code ::
  "'bc code_ops \<Rightarrow> ('e, 'bc, 'v) state_provider \<Rightarrow> address \<Rightarrow> 'e + bytes" where
  "read_code K P a =
     (case read_account P a of
        Inl e \<Rightarrow> Inl e
      | Inr acc \<Rightarrow>
          (case acc_bytecode_hash acc of
             None \<Rightarrow> Inr []
           | Some h \<Rightarrow>
               if h = keccak_empty K then Inr []
               else map_sum id (\<lambda>found. case found of Some bc \<Rightarrow> original_bytes K bc | None \<Rightarrow> [])
                      (sp_bytecode_by_hash P h)))"

definition read_slot :: "('e, 'bc, 'v) state_provider \<Rightarrow> address \<Rightarrow> b256 \<Rightarrow> 'e + u256" where
  "read_slot P a k =
     map_sum id (\<lambda>found. case found of Some v \<Rightarrow> v | None \<Rightarrow> 0) (sp_storage P a k)"

definition dump_agrees ::
  "'bc code_ops \<Rightarrow> ('e, 'bc, 'v) state_provider \<Rightarrow> serializable_state \<Rightarrow> address \<Rightarrow> bool" where
  "dump_agrees K P st a \<longleftrightarrow>
     (let r = record_at st a
      in map_sum id acc_nonce (read_account P a) = Inr (sr_nonce r) \<and>
         map_sum id acc_balance (read_account P a) = Inr (sr_balance r) \<and>
         read_code K P a = Inr (sr_code r) \<and>
         (\<forall>k. read_slot P a k =
            Inr (case bt_get (sr_storage r) k of Some v \<Rightarrow> v | None \<Rightarrow> 0)))"

lemma read_account_overlay:
  "read_account (anvil_state_provider s inner) a =
     map_sum id (apply_overrides s a) (read_account inner a)"
  using account_view_overrides [of s inner a]
  by (simp add: account_view_def read_account_def sum.map_comp comp_def id_def)

lemma read_slot_overlay:
  "read_slot (anvil_state_provider s inner) a k =
     (case local_storage s a k of Some v \<Rightarrow> Inr v | None \<Rightarrow> read_slot inner a k)"
  by (simp add: read_slot_def anvil_state_provider_def storage_def split: option.split)

lemma bytecode_overlay:
  "sp_bytecode_by_hash (anvil_state_provider s inner) h =
     (case local_bytecode_by_hash s h of
        Some bc \<Rightarrow> Inr (Some bc) | None \<Rightarrow> sp_bytecode_by_hash inner h)"
  by (simp add: anvil_state_provider_def bytecode_by_hash_def)

lemma read_code_overlay:
  assumes "as_wf K s"
    and "\<And>h bc. map_sum id acc_bytecode_hash (read_account inner a) = Inr (Some h) \<Longrightarrow>
      local_bytecode_by_hash s h = Some bc \<Longrightarrow> sp_bytecode_by_hash inner h = Inr (Some bc)"
    and "read_account inner a = Inr acc"
  shows "read_code K (anvil_state_provider s inner) a =
    (case local_code_hash s a of
       None \<Rightarrow> read_code K inner a
     | Some h \<Rightarrow> Inr (if h = keccak_empty K then []
                      else (case local_bytecode_by_hash s h of
                              Some bc \<Rightarrow> original_bytes K bc | None \<Rightarrow> [])))"
proof -
  have "local_bytecode_by_hash s h \<noteq> None"
    if "local_code_hash s a = Some h" and "h \<noteq> keccak_empty K" for h
    using assms(1) that by (auto simp: as_wf_def)
  with assms(2,3) show ?thesis
    by (auto simp: read_code_def read_account_overlay apply_overrides_def bytecode_overlay
        split: option.splits)
qed

section \<open>Round trips\<close>

lemma json_u64_json [simp]: "json_u64 (u64_json n) = Some n"
  using uint_lt2p [of n] by (simp add: u64_json_def)

lemma json_option_not_null: "j \<noteq> JNull \<Longrightarrow> json_option f j = map_option Some (f j)"
  by (cases j) simp_all

lemma u64_json_not_null [simp]: "u64_json n \<noteq> JNull"
  by (simp add: u64_json_def)

lemma read_entries_map:
  assumes "\<And>k. fk (pk k) = Some k" and "\<And>k v. (k, v) \<in> set kvs \<Longrightarrow> fv (pv v) = Some v"
  shows "read_entries fk fv (map (\<lambda>(k, v). (pk k, pv v)) kvs) = Some kvs"
proof -
  have "list_all (\<lambda>(k, v). fv (pv v) = Some v) kvs"
    using assms(2) by (auto simp: list_all_iff)
  then show ?thesis
    by (induction kvs) (auto simp: assms(1))
qed

lemma bt_collect_wf: "bt_wf m \<Longrightarrow> bt_collect m = m"
  by (rule bt_ext)
    (simp_all add: bt_collect_def bt.get_fold_ins_distinct bt_wf_distinct bt.inv_fold_ins
      split: option.split)

lemma json_map_map:
  assumes "\<And>k. fk (pk k) = Some k" and "\<And>k v. (k, v) \<in> set m \<Longrightarrow> fv (pv v) = Some v"
    and "bt_wf m"
  shows "json_map fk fv (JObject (map (\<lambda>(k, v). (pk k, pv v)) m)) = Some m"
  by (simp add: read_entries_map [OF assms(1,2)] bt_collect_wf [OF assms(3)])

lemma struct_fields_object:
  "distinct (map fst kjs) \<Longrightarrow> struct_fields names (JObject kjs) = Some (map_of kjs)"
  by (simp add: distinct_filter)

lemma record_round_trip:
  assumes "leaf_laws W" and "bt_wf (sr_storage r)"
  shows "record_of_json W (json_of_record W r) = Some r"
proof -
  have "json_map (str_b256 W) (json_b256 W)
      (JObject (map (\<lambda>(k, v). (b256_str W k, JString (b256_str W v))) (sr_storage r))) =
    Some (sr_storage r)"
    using assms by (intro json_map_map) (simp_all add: leaf_laws_def)
  with assms(1) show ?thesis
    unfolding record_of_json_def json_of_record_def
    by (subst struct_fields_object) (simp_all add: field_or_def leaf_laws_def del: json_map.simps)
qed

lemma map_of_opt_field:
  "map_of (opt_field name v @ kjs) k =
     (if k = name \<and> v \<noteq> None then v else map_of kjs k)"
  by (auto simp: opt_field_def split: option.split)

lemma vec_as_opt: "vec_field name js = opt_field name (if js = [] then None else Some (JArray js))"
  by (simp add: vec_field_def opt_field_def)

lemma keys_opt_field: "map fst (opt_field name v) = (if v = None then [] else [name])"
  by (auto simp: opt_field_def)

text \<open>
  An \<open>Option<Value>\<close> that holds \<open>null\<close> is written as \<open>null\<close>, and read back as \<open>None\<close>.
\<close>

definition drop_null :: "json option \<Rightarrow> json option" where
  "drop_null v = (if v = Some JNull then None else v)"

definition drop_nulls :: "serializable_state \<Rightarrow> serializable_state" where
  "drop_nulls st = st\<lparr>ss_block := drop_null (ss_block st),
     ss_historical_states := drop_null (ss_historical_states st)\<rparr>"

lemma field_or_value: "field_or None (json_option Some) v = Some (drop_null v)"
  by (cases v) (auto simp: field_or_def drop_null_def json_option_not_null)

lemma field_or_u64: "field_or None (json_option json_u64) (map_option u64_json v) = Some v"
  by (cases v) (simp_all add: field_or_def json_option_not_null)

lemma field_or_list: "field_or [] json_list (if js = [] then None else Some (JArray js)) = Some js"
  by (simp add: field_or_def)

lemma state_fields:
  defines "names \<equiv> [''block'', ''accounts'', ''best_block_number'', ''blocks'', ''transactions'',
    ''historical_states'']"
  shows "\<exists>fields. struct_fields names (json_of_state W st) = Some fields \<and>
    fields ''block'' = ss_block st \<and>
    fields ''accounts'' =
      Some (JObject (map (\<lambda>(a, r). (address_str W a, json_of_record W r)) (ss_accounts st))) \<and>
    fields ''best_block_number'' = map_option u64_json (ss_best_block_number st) \<and>
    fields ''blocks'' = (if ss_blocks st = [] then None else Some (JArray (ss_blocks st))) \<and>
    fields ''transactions'' =
      (if ss_transactions st = [] then None else Some (JArray (ss_transactions st))) \<and>
    fields ''historical_states'' = ss_historical_states st"
  unfolding json_of_state_def vec_as_opt
  by (subst struct_fields_object)
    (auto simp: keys_opt_field map_of_opt_field [of _ _ "[]", simplified] map_of_opt_field
      simp del: map_of_append)

lemma state_round_trip:
  assumes "leaf_laws W" and "dump_wf st"
  shows "state_of_json W (json_of_state W st) = Some (drop_nulls st)"
proof -
  obtain fields where fields:
    "struct_fields [''block'', ''accounts'', ''best_block_number'', ''blocks'', ''transactions'',
       ''historical_states''] (json_of_state W st) = Some fields"
    "fields ''block'' = ss_block st"
    "fields ''accounts'' =
      Some (JObject (map (\<lambda>(a, r). (address_str W a, json_of_record W r)) (ss_accounts st)))"
    "fields ''best_block_number'' = map_option u64_json (ss_best_block_number st)"
    "fields ''blocks'' = (if ss_blocks st = [] then None else Some (JArray (ss_blocks st)))"
    "fields ''transactions'' =
      (if ss_transactions st = [] then None else Some (JArray (ss_transactions st)))"
    "fields ''historical_states'' = ss_historical_states st"
    using state_fields [of W st] by blast
  have "json_map (str_address W) (record_of_json W)
      (JObject (map (\<lambda>(a, r). (address_str W a, json_of_record W r)) (ss_accounts st))) =
    Some (ss_accounts st)"
  proof (rule json_map_map)
    show "str_address W (address_str W a) = Some a" for a
      using assms(1) by (simp add: leaf_laws_def)
    show "record_of_json W (json_of_record W r) = Some r" if "(a, r) \<in> set (ss_accounts st)" for a r
      using that assms by (auto simp: dump_wf_def list_all_iff intro: record_round_trip)
    show "bt_wf (ss_accounts st)"
      using assms(2) by (simp add: dump_wf_def)
  qed
  then have "field_or [] (json_map (str_address W) (record_of_json W)) (fields ''accounts'') =
      Some (ss_accounts st)"
    by (simp only: fields field_or_def option.case)
  then show ?thesis
    unfolding state_of_json_def fields(1)
    by (simp only: Option.bind.simps fields(2,4-7) field_or_value field_or_u64 field_or_list)
      (simp add: drop_nulls_def)
qed

lemma decode_encode:
  assumes "leaf_laws W" and "dump_codec_laws Z" and "dump_wf st"
    and "encode_gzipped W Z st = Inr z"
  shows "decode W Z z = Inr (drop_nulls st)"
  using assms state_round_trip [OF assms(1,3)]
  by (auto simp: encode_gzipped_def decode_def from_slice_def dump_codec_laws_def
      split: sum.splits)

lemma json_map_Some:
  "json_map fk fv j = Some m \<Longrightarrow>
     \<exists>kjs kvs. j = JObject kjs \<and> read_entries fk fv kjs = Some kvs \<and> m = bt_collect kvs"
  by (cases j) auto

lemma json_map_wf: "json_map fk fv j = Some m \<Longrightarrow> bt_wf m"
  by (auto dest: json_map_Some)

text \<open>Whatever decodes is in key order.\<close>

lemma decode_dump_wf:
  assumes "decode W Z buf = Inr st"
  shows "dump_wf st"
proof -
  have storage: "bt_wf (sr_storage r)" if "record_of_json W j = Some r" for j r
    using that
    by (auto simp: record_of_json_def field_or_def split: bind_splits option.splits
        dest: json_map_wf)
  have entries: "read_entries (str_address W) (record_of_json W) kjs = Some kvs \<Longrightarrow>
      list_all (\<lambda>r. bt_wf (sr_storage r)) (map snd kvs)" for kjs kvs
  proof (induction kjs arbitrary: kvs)
    case (Cons kj kjs)
    then show ?case
      by (cases kj) (auto split: option.splits intro: storage)
  qed simp
  have accounts: "bt_wf m \<and> list_all (\<lambda>(a, r). bt_wf (sr_storage r)) m"
    if json: "json_map (str_address W) (record_of_json W) j = Some m" for j m
  proof -
    obtain kjs kvs where "read_entries (str_address W) (record_of_json W) kjs = Some kvs"
      and m: "m = bt_collect kvs"
      using json_map_Some [OF json] by blast
    then have "\<forall>(a, r) \<in> set kvs. bt_wf (sr_storage r)"
      using entries [of kjs kvs] by (fastforce simp: list_all_iff)
    then have "bt_wf (sr_storage r)" if "bt_get m a = Some r" for a r
      using that by (auto simp: m bt_get_collect dest!: map_of_SomeD)
    moreover have "bt_wf m" by (simp add: m)
    ultimately show ?thesis
      by (auto simp: list_all_iff dest: bt_wf_distinct map_of_is_SomeI)
  qed
  have "dump_wf st" if json: "state_of_json W j = Some st" for j
  proof -
    from json obtain field where
      "field_or [] (json_map (str_address W) (record_of_json W)) field = Some (ss_accounts st)"
      by (auto simp: state_of_json_def Option.bind_eq_Some_conv)
    then show ?thesis
      using accounts by (auto simp: field_or_def dump_wf_def split: option.splits)
  qed
  with assms show ?thesis
    by (auto simp: decode_def from_slice_def split: if_splits sum.splits option.splits bind_splits)
qed

lemma merge_agrees:
  assumes "as_wf K s" and "dump_wf st" and "dump_agrees K inner st a"
    and "\<And>h bc. map_sum id acc_bytecode_hash (read_account inner a) = Inr (Some h) \<Longrightarrow>
      local_bytecode_by_hash s h = Some bc \<Longrightarrow> sp_bytecode_by_hash inner h = Inr (Some bc)"
  shows "dump_agrees K (anvil_state_provider s inner) (merge_anvil_state K s st) a"
proof -
  obtain acc where acc: "read_account inner a = Inr acc"
    using assms(3) by (cases "read_account inner a") (auto simp: dump_agrees_def)
  show ?thesis
    using assms(3) read_code_overlay [OF assms(1,4) acc] acc
    by (auto simp: dump_agrees_def Let_def read_account_overlay read_slot_overlay
        apply_overrides_def merge_reads [OF assms(1)] merge_storage [OF assms(1,2)]
        split: option.splits)
qed

section \<open>Properties\<close>

text \<open>
  C10: If the dump of the node agrees with the node's state provider on an account (nonce,
  balance, code and every slot), then the dump merged with the local overrides agrees with
  the state the \<open>eth_*\<close> handlers see through the overlay. (The base account's own code is
  the local one if both are filed under the same hash.)
\<close>

theorem dump_shows_overlay:
  assumes "as_wf K s" and "dump_wf st" and "dump_agrees K inner st a"
    and "\<And>h bc. map_sum id acc_bytecode_hash (read_account inner a) = Inr (Some h) \<Longrightarrow>
      local_bytecode_by_hash s h = Some bc \<Longrightarrow> sp_bytecode_by_hash inner h = Inr (Some bc)"
  shows "dump_agrees K (anvil_state_provider s inner) (merge_anvil_state K s st) a"
  using assms by (rule merge_agrees)

theorem dump_shows_overlay_witness:
  "dump_agrees demo_code
     (anvil_state_provider (set_storage_at 5 1 9 (set_balance 5 7 anvil_state_shared)) demo_provider)
     (merge_anvil_state demo_code (set_storage_at 5 1 9 (set_balance 5 7 anvil_state_shared))
       (from_dump [\<lparr>da_address = 5, da_nonce = 1, da_balance = 100, da_code = None,
                    da_storage = []\<rparr>] (Some 0))) 5"
proof (rule dump_shows_overlay)
  show "as_wf demo_code (set_storage_at 5 1 9 (set_balance 5 7 anvil_state_shared))"
    by (intro wf_intros)
  show "dump_wf (from_dump [\<lparr>da_address = 5, da_nonce = 1, da_balance = 100, da_code = None,
      da_storage = []\<rparr>] (Some 0))"
    by (rule dump_wf_from_dump) simp
  show "dump_agrees demo_code demo_provider
      (from_dump [\<lparr>da_address = 5, da_nonce = 1, da_balance = 100, da_code = None,
        da_storage = []\<rparr>] (Some 0)) 5"
    by (simp add: dump_agrees_def record_at_def from_dump_def bt_get_collect account_record_from_def
        read_account_def read_code_def read_slot_def demo_provider_def)
qed (simp add: read_account_def demo_provider_def)

text \<open>
  The merged dump does not depend on the iteration order of the hash maps: two local states
  that answer every read alike (which accounts have an override, their attributes, the
  bytecodes) give the same dump.
\<close>

theorem merge_observational:
  assumes "as_wf K s" and "as_wf K s'" and "dump_wf st"
    and "\<And>a. account s a = None \<longleftrightarrow> account s' a = None"
    and "local_nonce s = local_nonce s'" and "local_balance s = local_balance s'"
    and "local_code_hash s = local_code_hash s'" and "local_storage s = local_storage s'"
    and "local_bytecode_by_hash s = local_bytecode_by_hash s'"
  shows "merge_anvil_state K s st = merge_anvil_state K s' st"
proof -
  let ?m = "merge_anvil_state K s st" and ?m' = "merge_anvil_state K s' st"
  have same: "record_at ?m a = record_at ?m' a" for a
  proof (rule account_record.equality)
    show "sr_storage (record_at ?m a) = sr_storage (record_at ?m' a)"
      by (rule bt_ext)
        (simp_all add: merge_storage assms dump_wf_record dump_wf_merge)
  qed (simp_all add: merge_reads assms split: option.split)
  have hm: "hm_wf (as_accounts s)" "hm_wf (as_accounts s')"
    using assms(1,2) by (simp_all add: as_wf_def)
  have "ss_accounts ?m = ss_accounts ?m'"
  proof (rule bt_ext)
    show "bt_wf (ss_accounts ?m)" "bt_wf (ss_accounts ?m')"
      using dump_wf_merge [OF assms(1,3)] dump_wf_merge [OF assms(2,3)]
      by (simp_all add: dump_wf_def)
    show "bt_get (ss_accounts ?m) a = bt_get (ss_accounts ?m') a" for a
      using same [of a] assms(4) [of a]
      by (cases "account s a"; cases "account s' a") (simp_all add: merge_lookup hm record_at_def)
  qed
  then show ?thesis by (simp add: merge_anvil_state_def)
qed

theorem merge_observational_witness:
  "merge_anvil_state demo_code (set_balance 1 5 (set_nonce 2 6 anvil_state_shared)) (from_dump [] None) =
   merge_anvil_state demo_code (set_nonce 2 6 (set_balance 1 5 anvil_state_shared)) (from_dump [] None)"
proof (rule merge_observational)
  show "as_wf demo_code (set_balance 1 5 (set_nonce 2 6 anvil_state_shared))"
    "as_wf demo_code (set_nonce 2 6 (set_balance 1 5 anvil_state_shared))"
    by (intro wf_intros)+
  show "dump_wf (from_dump [] None)"
    by (rule dump_wf_from_dump) simp
qed (auto simp: fun_eq_iff store.bal_set_bal store.non_set_non store.bal_frame store.non_frame
    store.sto_frame)

text \<open>
  C11: A dump that was encoded decodes to the same state, and so does its JSON text when it is
  uploaded without compression: every account record, every slot, the best block number,
  the blocks and the transactions survive. The one exception is an optional field that holds
  the JSON value \<open>null\<close>: it comes back as absent.
\<close>

theorem state_dump_round_trip:
  assumes "leaf_laws W" and "dump_codec_laws Z" and "dump_wf st"
  shows "(encode_gzipped W Z st = Inr z \<longrightarrow> decode W Z z = Inr (drop_nulls st)) \<and>
    (json_to_vec Z (json_of_state W st) = Inr t \<and> \<not> gz_header Z t \<longrightarrow>
       decode W Z t = Inr (drop_nulls st)) \<and>
    (ss_block st \<noteq> Some JNull \<and> ss_historical_states st \<noteq> Some JNull \<longrightarrow> drop_nulls st = st)"
proof (intro conjI impI)
  show "decode W Z z = Inr (drop_nulls st)" if "encode_gzipped W Z st = Inr z"
    by (rule decode_encode [OF assms that])
  show "decode W Z t = Inr (drop_nulls st)"
    if "json_to_vec Z (json_of_state W st) = Inr t \<and> \<not> gz_header Z t"
    using that assms(2) state_round_trip [OF assms(1,3)]
    by (auto simp: decode_def from_slice_def dump_codec_laws_def)
  show "drop_nulls st = st" if "ss_block st \<noteq> Some JNull \<and> ss_historical_states st \<noteq> Some JNull"
    using that by (simp add: drop_nulls_def drop_null_def)
qed

text \<open>
  An instance of the encodings: unary strings, JSON numbers, arrays of numbers; a JSON
  printer that knows one document; a compression that prepends a header byte.
\<close>

fun demo_json_byte :: "json \<Rightarrow> u8 option" where
  "demo_json_byte (JNumber n) = Some (word_of_int n)"
| "demo_json_byte _ = None"

definition demo_leaf :: leaf_codec where
  "demo_leaf =
     \<lparr>address_str = (\<lambda>a. replicate (unat a) CHR ''1''),
      str_address = (\<lambda>s. Some (of_nat (length s))),
      b256_str = (\<lambda>h. replicate (unat h) CHR ''1''), str_b256 = (\<lambda>s. Some (of_nat (length s))),
      u256_json = (\<lambda>v. JNumber (uint v)),
      json_u256 = (\<lambda>j. case j of JNumber n \<Rightarrow> Some (word_of_int n) | _ \<Rightarrow> None),
      bytes_json = (\<lambda>c. JArray (map (\<lambda>b. JNumber (uint b)) c)),
      json_bytes = (\<lambda>j. Option.bind (json_list j) (\<lambda>js. those (map demo_json_byte js)))\<rparr>"

definition demo_dump_codec :: "json \<Rightarrow> dump_codec" where
  "demo_dump_codec doc =
     \<lparr>json_to_vec = (\<lambda>j. if j = doc then Inr [0x7B] else Inl ''unsupported''),
      json_parse = (\<lambda>t. if t = [0x7B] then Some doc else None),
      json_error = (\<lambda>_. ''expected value''),
      gzip = (\<lambda>t. Inr (0x1F # t)),
      gz_header = (\<lambda>z. z \<noteq> [] \<and> hd z = 0x1F),
      gunzip = (\<lambda>z. Inr (tl z))\<rparr>"

lemma demo_leaf_laws: "leaf_laws demo_leaf"
proof -
  have "those (map (\<lambda>b. demo_json_byte (JNumber (uint b))) c) = Some c" for c :: bytes
    by (induction c) simp_all
  then show ?thesis by (simp add: leaf_laws_def demo_leaf_def comp_def)
qed

lemma demo_dump_codec_laws: "dump_codec_laws (demo_dump_codec doc)"
  by (auto simp: dump_codec_laws_def demo_dump_codec_def split: if_splits)

definition demo_dump :: serializable_state where
  "demo_dump = from_dump [\<lparr>da_address = 5, da_nonce = 1, da_balance = 100, da_code = Some [1, 2],
     da_storage = [(3, 4)]\<rparr>] (Some 7)"

lemma demo_dump_wf: "dump_wf demo_dump"
  unfolding demo_dump_def by (rule dump_wf_from_dump) (simp add: bt_wf_def)

theorem state_dump_round_trip_witness:
  "\<exists>z. encode_gzipped demo_leaf (demo_dump_codec (json_of_state demo_leaf demo_dump)) demo_dump = Inr z \<and>
     decode demo_leaf (demo_dump_codec (json_of_state demo_leaf demo_dump)) z = Inr demo_dump"
proof -
  let ?Z = "demo_dump_codec (json_of_state demo_leaf demo_dump)"
  have enc: "encode_gzipped demo_leaf ?Z demo_dump = Inr [0x1F, 0x7B]"
    by (simp add: encode_gzipped_def demo_dump_codec_def)
  have "drop_nulls demo_dump = demo_dump"
    by (simp add: drop_nulls_def drop_null_def demo_dump_def from_dump_def serializable_state_default_def)
  then show ?thesis
    using enc state_dump_round_trip [OF demo_leaf_laws demo_dump_codec_laws demo_dump_wf,
        of _ "[0x1F, 0x7B]"]
    by (intro exI [of _ "[0x1F, 0x7B]"]) simp
qed

end
