(* ===== verification/Block_Source.thy ===== *)
theory Block_Source
  imports Anvil_Prelude
begin

text \<open>
  \<open>BlockSource\<close> (src/src/block_source.rs): the adapter through which the \<open>anvil_*\<close> handlers
  fetch blocks and the gas price. The ETH API it adapts is a record of the methods the code
  calls, whose answers depend on the state of the node (\<open>'s\<close>).
\<close>

section \<open>The ETH API\<close>

text \<open>
  A block of the RPC format: the header fields the code and its tests read, and the rest (transactions,
  uncles, ...) as the type \<open>'b\<close>.
\<close>

record block_header =
  bh_number :: u64
  bh_timestamp :: u64
  bh_hash :: b256
  bh_base_fee_per_gas :: "u64 option"
  bh_gas_limit :: u64
  bh_beneficiary :: address

record 'b rpc_block =
  rb_header :: block_header
  rb_body :: 'b

datatype block_number_or_tag = Latest | Finalized | Safe | Earliest | Pending | Number u64

record tx_request =
  tr_from :: "address option"
  tr_to :: "address option"
  tr_gas_price :: "128 word option"
  tr_value :: "u256 option"
  tr_input :: "bytes option"

definition tx_request_default :: tx_request where
  "tx_request_default =
     \<lparr>tr_from = None, tr_to = None, tr_gas_price = None, tr_value = None, tr_input = None\<rparr>"

text \<open>A state override: per address the slots that are replaced.\<close>

type_synonym state_override = "(address \<times> (b256 \<times> b256) list) list"

record ('s, 'b) eth_api =
  eth_gas_price :: "'s \<Rightarrow> rpc_error + u256"
  eth_block_by_number :: "'s \<Rightarrow> block_number_or_tag \<Rightarrow> bool \<Rightarrow> rpc_error + 'b rpc_block option"
  eth_create_access_list :: "'s \<Rightarrow> tx_request \<Rightarrow> rpc_error + (address \<times> b256 list) list"
  eth_call :: "'s \<Rightarrow> tx_request \<Rightarrow> state_override \<Rightarrow> rpc_error + bytes"

section \<open>The adapter\<close>

definition bs_gas_price :: "('s, 'b) eth_api \<Rightarrow> 's \<Rightarrow> rpc_error + u256" where
  "bs_gas_price eth s = eth_gas_price eth s"

definition bs_block_by_number :: "('s, 'b) eth_api \<Rightarrow> 's \<Rightarrow> u64 \<Rightarrow> rpc_error + 'b rpc_block option" where
  "bs_block_by_number eth s number = eth_block_by_number eth s (Number number) False"

definition bs_block_by_number_full :: "('s, 'b) eth_api \<Rightarrow> 's \<Rightarrow> u64 \<Rightarrow> rpc_error + 'b rpc_block option" where
  "bs_block_by_number_full eth s number = eth_block_by_number eth s (Number number) True"

end
