(* ===== verification/Node_Config.thy ===== *)
theory Node_Config
  imports Anvil_Prelude
begin

text \<open>
  \<open>AnvilNodeConfig\<close> (src/src/anvil_api.rs): the chain specification and the instance id, and
  the name of the hardfork at a timestamp. The chain specification is a record of the
  queries the code makes.
\<close>

record chain_spec =
  is_osaka_active :: "u64 \<Rightarrow> bool"
  is_prague_active :: "u64 \<Rightarrow> bool"
  is_cancun_active :: "u64 \<Rightarrow> bool"
  is_shanghai_active :: "u64 \<Rightarrow> bool"
  chain_id :: u64

record anvil_node_config =
  nc_chain_spec :: chain_spec
  nc_instance_id :: b256

definition anvil_node_config_new :: "chain_spec \<Rightarrow> b256 \<Rightarrow> anvil_node_config" where
  "anvil_node_config_new spec instance_id =
     \<lparr>nc_chain_spec = spec, nc_instance_id = instance_id\<rparr>"

definition hardfork_name :: "anvil_node_config \<Rightarrow> u64 \<Rightarrow> string" where
  "hardfork_name self timestamp =
     (let spec = nc_chain_spec self
      in if is_osaka_active spec timestamp then ''osaka''
         else if is_prague_active spec timestamp then ''prague''
         else if is_cancun_active spec timestamp then ''cancun''
         else if is_shanghai_active spec timestamp then ''shanghai''
         else ''london'')"

section \<open>Hardforks in order\<close>

text \<open>The hardforks the code distinguishes, ordered by their activation on the main chain.\<close>

datatype hardfork = London | Shanghai | Cancun | Prague | Osaka

fun fork_rank :: "hardfork \<Rightarrow> nat" where
  "fork_rank London = 0"
| "fork_rank Shanghai = 1"
| "fork_rank Cancun = 2"
| "fork_rank Prague = 3"
| "fork_rank Osaka = 4"

lemma fork_rank_inject: "fork_rank f = fork_rank g \<longleftrightarrow> f = g"
  by (cases f; cases g) simp_all

instantiation hardfork :: linorder
begin

definition less_eq_hardfork :: "hardfork \<Rightarrow> hardfork \<Rightarrow> bool" where
  "less_eq_hardfork f g \<longleftrightarrow> fork_rank f \<le> fork_rank g"

definition less_hardfork :: "hardfork \<Rightarrow> hardfork \<Rightarrow> bool" where
  "less_hardfork f g \<longleftrightarrow> fork_rank f < fork_rank g"

instance
  by standard (auto simp: less_eq_hardfork_def less_hardfork_def fork_rank_inject)

end

fun fork_name :: "hardfork \<Rightarrow> string" where
  "fork_name London = ''london''"
| "fork_name Shanghai = ''shanghai''"
| "fork_name Cancun = ''cancun''"
| "fork_name Prague = ''prague''"
| "fork_name Osaka = ''osaka''"

fun fork_active :: "chain_spec \<Rightarrow> u64 \<Rightarrow> hardfork \<Rightarrow> bool" where
  "fork_active spec t London = True"
| "fork_active spec t Shanghai = is_shanghai_active spec t"
| "fork_active spec t Cancun = is_cancun_active spec t"
| "fork_active spec t Prague = is_prague_active spec t"
| "fork_active spec t Osaka = is_osaka_active spec t"

definition active_forks :: "chain_spec \<Rightarrow> u64 \<Rightarrow> hardfork set" where
  "active_forks spec t = set (filter (fork_active spec t) [London, Shanghai, Cancun, Prague, Osaka])"

lemma finite_active [simp]: "finite (active_forks spec t)"
  by (simp add: active_forks_def)

lemma mem_active: "f \<in> active_forks spec t \<longleftrightarrow> fork_active spec t f"
  by (cases f) (auto simp: active_forks_def)

lemma active_nonempty [simp]: "active_forks spec t \<noteq> {}"
  using mem_active [of London spec t] by auto

section \<open>Properties\<close>

text \<open>
  The node reports the name of the latest hardfork that is active at the timestamp, and
  London when none of the later ones is; as time goes on the reported fork never goes back,
  if no hardfork is ever deactivated.
\<close>

theorem hardfork_is_latest_active:
  "hardfork_name cfg t = fork_name (Max (active_forks (nc_chain_spec cfg) t)) \<and>
   ((\<forall>f. fork_active (nc_chain_spec cfg) t f \<longrightarrow> fork_active (nc_chain_spec cfg) t' f) \<longrightarrow>
      Max (active_forks (nc_chain_spec cfg) t) \<le> Max (active_forks (nc_chain_spec cfg) t'))"
proof (intro conjI impI)
  let ?spec = "nc_chain_spec cfg"
  let ?f = "if is_osaka_active ?spec t then Osaka else if is_prague_active ?spec t then Prague
     else if is_cancun_active ?spec t then Cancun else if is_shanghai_active ?spec t then Shanghai
     else London"
  have "Max (active_forks ?spec t) = ?f"
  proof (rule Max_eqI)
    show "g \<le> ?f" if "g \<in> active_forks ?spec t" for g
      using that by (cases g) (simp_all add: mem_active less_eq_hardfork_def)
    show "?f \<in> active_forks ?spec t"
      by (simp add: mem_active)
  qed simp
  then show "hardfork_name cfg t = fork_name (Max (active_forks ?spec t))"
    by (simp add: hardfork_name_def Let_def)
  assume "\<forall>f. fork_active ?spec t f \<longrightarrow> fork_active ?spec t' f"
  then have "active_forks ?spec t \<subseteq> active_forks ?spec t'"
    by (auto simp: mem_active)
  then show "Max (active_forks ?spec t) \<le> Max (active_forks ?spec t')"
    by (rule Max_mono) simp_all
qed

theorem hardfork_is_latest_active_witness:
  "hardfork_name \<lparr>nc_chain_spec = \<lparr>is_osaka_active = (\<lambda>t. 90 \<le> t), is_prague_active = (\<lambda>t. 50 \<le> t),
      is_cancun_active = (\<lambda>t. 20 \<le> t), is_shanghai_active = (\<lambda>_. True), chain_id = 1337\<rparr>,
      nc_instance_id = 0\<rparr> 60 = ''prague'' \<and>
   Max (active_forks \<lparr>is_osaka_active = (\<lambda>t. 90 \<le> t), is_prague_active = (\<lambda>t. 50 \<le> t),
      is_cancun_active = (\<lambda>t. 20 \<le> t), is_shanghai_active = (\<lambda>_. True), chain_id = 1337\<rparr> 20) \<le>
   Max (active_forks \<lparr>is_osaka_active = (\<lambda>t. 90 \<le> t), is_prague_active = (\<lambda>t. 50 \<le> t),
      is_cancun_active = (\<lambda>t. 20 \<le> t), is_shanghai_active = (\<lambda>_. True), chain_id = 1337\<rparr> 60)"
proof -
  let ?spec = "\<lparr>is_osaka_active = (\<lambda>t. 90 \<le> t), is_prague_active = (\<lambda>t. 50 \<le> t),
    is_cancun_active = (\<lambda>t. 20 \<le> t), is_shanghai_active = (\<lambda>_. True), chain_id = 1337\<rparr>"
  have "fork_active ?spec 20 f \<Longrightarrow> fork_active ?spec 60 f" for f
    by (cases f) simp_all
  then show ?thesis
    using hardfork_is_latest_active [of "\<lparr>nc_chain_spec = ?spec, nc_instance_id = 0\<rparr>" 20 60]
    by (auto simp: hardfork_name_def Let_def)
qed

end
