(* ===== verification/Rpc_State.thy ===== *)
theory Rpc_State
  imports Time_Manager Impersonation Mining State_Dump Block_Source Node_Config
begin

text \<open>
  \<open>AnvilRpc\<close> (src/src/anvil_api.rs), part one: the state the handlers share, the library
  they run on, and the helper methods: error objects, reading the head, waiting for blocks,
  account reads, dump, load and the search for an ERC-20 storage slot.

  A handler is a function from the shared state to its outcome and the new state. Handlers
  await in two places: the 100 ms sleeps of the wait for a block, where everything else
  that happens in the node is a function on the state (\<open>during i\<close> for the \<open>i\<close>-th sleep),
  and calls of the ETH API, which are answered in one step.
\<close>

section \<open>Shared state\<close>

record 'bc anvil_context =
  cx_anvil_state :: "'bc anvil_state"
  cx_block_env :: block_env_overrides
  cx_node :: anvil_node_config

definition anvil_context_new ::
  "'bc anvil_state \<Rightarrow> block_env_overrides \<Rightarrow> anvil_node_config \<Rightarrow> 'bc anvil_context" where
  "anvil_context_new anvil_state block_env node =
     \<lparr>cx_anvil_state = anvil_state, cx_block_env = block_env, cx_node = node\<rparr>"

text \<open>
  The fields \<open>pool\<close>, \<open>provider\<close> and \<open>blocks\<close> are handles of the node's own components; the
  state behind them (chain, pool) is the type \<open>'x\<close>.
\<close>

record ('w, 'n, 'bc, 'x) anvil_rpc =
  rpc_state :: impersonation
  rpc_mining :: "('w, 'n) mining_controller"
  rpc_time :: time_manager
  rpc_context :: "'bc anvil_context"
  rpc_world :: 'x

definition anvil_rpc_new ::
  "impersonation \<Rightarrow> ('w, 'n) mining_controller \<Rightarrow> time_manager \<Rightarrow> 'bc anvil_context \<Rightarrow> 'x
     \<Rightarrow> ('w, 'n, 'bc, 'x) anvil_rpc" where
  "anvil_rpc_new state mining time cx world =
     \<lparr>rpc_state = state, rpc_mining = mining, rpc_time = time, rpc_context = cx,
      rpc_world = world\<rparr>"

text \<open>
  The node's components as the code calls them: the pool, the state provider and the chain
  (their errors as text), the ETH API (which sees the whole state, through the overlay), and
  the library parts of the other theories. \<open>from_be_slice\<close> is \<open>U256::from_be_slice\<close>,
  which panics on a slice that is no 256-bit number (\<open>None\<close>).
\<close>

record ('w, 'rx, 'n, 'f, 'bc, 'x, 'b) rpc_lib =
  l_watch :: "('w, 'rx) mode_watch"
  l_notify :: "('n, 'f) notify_ops"
  l_code :: "'bc code_ops"
  l_leaf :: leaf_codec
  l_dump :: dump_codec
  l_eth :: "(('w, 'n, 'bc, 'x) anvil_rpc, 'b) eth_api"
  l_pending_and_queued_txn_count :: "'x \<Rightarrow> nat \<times> nat"
  l_remove_transaction :: "b256 \<Rightarrow> 'x \<Rightarrow> b256 option \<times> 'x"
  l_all_transaction_hashes :: "'x \<Rightarrow> b256 list"
  l_remove_transactions :: "b256 list \<Rightarrow> 'x \<Rightarrow> 'x"
  l_remove_transactions_by_sender :: "address \<Rightarrow> 'x \<Rightarrow> b256 list \<times> 'x"
  l_basic_account :: "'x \<Rightarrow> address \<Rightarrow> string + acct option"
  l_best_block_number :: "'x \<Rightarrow> string + u64"
  l_header_timestamp :: "'x \<Rightarrow> u64 \<Rightarrow> string + u64 option"
  l_dump_state_collect :: "'x \<Rightarrow> string + dumped_account list"
  l_from_be_slice :: "bytes \<Rightarrow> u256 option"
  l_git_sha :: "string option"

text \<open>Updates of the nested parts.\<close>

definition upd_anvil_state ::
  "('bc anvil_state \<Rightarrow> 'bc anvil_state) \<Rightarrow> ('w, 'n, 'bc, 'x) anvil_rpc \<Rightarrow> ('w, 'n, 'bc, 'x) anvil_rpc" where
  "upd_anvil_state f s =
     s\<lparr>rpc_context := (rpc_context s)\<lparr>cx_anvil_state := f (cx_anvil_state (rpc_context s))\<rparr>\<rparr>"

definition upd_block_env ::
  "(block_env_overrides \<Rightarrow> block_env_overrides) \<Rightarrow> ('w, 'n, 'bc, 'x) anvil_rpc
     \<Rightarrow> ('w, 'n, 'bc, 'x) anvil_rpc" where
  "upd_block_env f s =
     s\<lparr>rpc_context := (rpc_context s)\<lparr>cx_block_env := f (cx_block_env (rpc_context s))\<rparr>\<rparr>"

abbreviation anvil_state_of :: "('w, 'n, 'bc, 'x) anvil_rpc \<Rightarrow> 'bc anvil_state" where
  "anvil_state_of s \<equiv> cx_anvil_state (rpc_context s)"

abbreviation block_env_of :: "('w, 'n, 'bc, 'x) anvil_rpc \<Rightarrow> block_env_overrides" where
  "block_env_of s \<equiv> cx_block_env (rpc_context s)"

lemma upd_simps [simp]:
  "anvil_state_of (upd_anvil_state f s) = f (anvil_state_of s)"
  "block_env_of (upd_anvil_state f s) = block_env_of s"
  "anvil_state_of (upd_block_env g s) = anvil_state_of s"
  "block_env_of (upd_block_env g s) = g (block_env_of s)"
  "rpc_state (upd_anvil_state f s) = rpc_state s" "rpc_state (upd_block_env g s) = rpc_state s"
  "rpc_mining (upd_anvil_state f s) = rpc_mining s" "rpc_mining (upd_block_env g s) = rpc_mining s"
  "rpc_time (upd_anvil_state f s) = rpc_time s" "rpc_time (upd_block_env g s) = rpc_time s"
  "rpc_world (upd_anvil_state f s) = rpc_world s" "rpc_world (upd_block_env g s) = rpc_world s"
  "cx_node (rpc_context (upd_anvil_state f s)) = cx_node (rpc_context s)"
  "cx_node (rpc_context (upd_block_env g s)) = cx_node (rpc_context s)"
  by (simp_all add: upd_anvil_state_def upd_block_env_def)

section \<open>Errors\<close>

definition internal_error :: "string \<Rightarrow> rpc_error" where
  "internal_error message = \<lparr>err_code = - 32603, err_message = message\<rparr>"

definition invalid_params :: "string \<Rightarrow> rpc_error" where
  "invalid_params message = \<lparr>err_code = - 32602, err_message = message\<rparr>"

definition normalize_timestamp_input :: "u64 \<Rightarrow> u64" where
  "normalize_timestamp_input timestamp =
     (if 1000000000000 < timestamp then timestamp div 1000 else timestamp)"

section \<open>The head of the chain\<close>

definition best_block_number ::
  "('w, 'rx, 'n, 'f, 'bc, 'x, 'b) rpc_lib \<Rightarrow> ('w, 'n, 'bc, 'x) anvil_rpc \<Rightarrow> rpc_error + u64" where
  "best_block_number L s =
     (case l_best_block_number L (rpc_world s) of
        Inl e \<Rightarrow> Inl (internal_error (''failed to read latest block number: '' @ e))
      | Inr n \<Rightarrow> Inr n)"

definition latest_block ::
  "('w, 'rx, 'n, 'f, 'bc, 'x, 'b) rpc_lib \<Rightarrow> ('w, 'n, 'bc, 'x) anvil_rpc \<Rightarrow> rpc_error + 'b rpc_block" where
  "latest_block L s =
     (case best_block_number L s of
        Inl e \<Rightarrow> Inl e
      | Inr number \<Rightarrow>
          (case bs_block_by_number (l_eth L) s number of
             Inl e \<Rightarrow> Inl e
           | Inr None \<Rightarrow> Inl (internal_error (''missing block header '' @ dec (unat number)))
           | Inr (Some block) \<Rightarrow> Inr block))"

text \<open>
  The poll loop: \<open>i\<close> counts the rounds done, \<open>fuel\<close> the rounds left (200 in all); each round
  reads the head through the provider and sleeps when it is too low.
\<close>

fun wait_rounds ::
  "('w, 'rx, 'n, 'f, 'bc, 'x, 'b) rpc_lib
     \<Rightarrow> (nat \<Rightarrow> ('w, 'n, 'bc, 'x) anvil_rpc \<Rightarrow> ('w, 'n, 'bc, 'x) anvil_rpc)
     \<Rightarrow> nat \<Rightarrow> nat \<Rightarrow> u64 \<Rightarrow> ('w, 'n, 'bc, 'x) anvil_rpc
     \<Rightarrow> (rpc_error + unit) \<times> ('w, 'n, 'bc, 'x) anvil_rpc" where
  "wait_rounds L during i 0 expected s =
     (Inl (internal_error (''timed out waiting for block '' @ dec (unat expected))), s)"
| "wait_rounds L during i (Suc fuel) expected s =
     (case l_best_block_number L (rpc_world s) of
        Inl e \<Rightarrow> (Inl (internal_error (''failed to read latest block number: '' @ e)), s)
      | Inr current \<Rightarrow>
          if expected \<le> current then (Inr (), s)
          else wait_rounds L during (Suc i) fuel expected (during i s))"

definition wait_for_block_number ::
  "('w, 'rx, 'n, 'f, 'bc, 'x, 'b) rpc_lib
     \<Rightarrow> (nat \<Rightarrow> ('w, 'n, 'bc, 'x) anvil_rpc \<Rightarrow> ('w, 'n, 'bc, 'x) anvil_rpc)
     \<Rightarrow> u64 \<Rightarrow> ('w, 'n, 'bc, 'x) anvil_rpc
     \<Rightarrow> (rpc_error + unit) \<times> ('w, 'n, 'bc, 'x) anvil_rpc" where
  "wait_for_block_number L during expected s = wait_rounds L during 0 200 expected s"

text \<open>\<open>mine_blocks\<close>; the answer is the range \<open>start + 1 ..= end\<close>
  (\<open>start + 1\<close> wraps, as it does in the release profile).\<close>

definition mine_blocks ::
  "('w, 'rx, 'n, 'f, 'bc, 'x, 'b) rpc_lib
     \<Rightarrow> (nat \<Rightarrow> ('w, 'n, 'bc, 'x) anvil_rpc \<Rightarrow> ('w, 'n, 'bc, 'x) anvil_rpc)
     \<Rightarrow> u64 \<Rightarrow> ('w, 'n, 'bc, 'x) anvil_rpc
     \<Rightarrow> (rpc_error + u64 list) \<times> ('w, 'n, 'bc, 'x) anvil_rpc" where
  "mine_blocks L during blocks s =
     (if blocks = 0 then (Inr [], s)
      else
        (case best_block_number L s of
           Inl e \<Rightarrow> (Inl e, s)
         | Inr start \<Rightarrow>
             (let s1 = s\<lparr>rpc_mining := (trigger (l_notify L) ^^ unat blocks) (rpc_mining s)\<rparr>;
                  target = sat_add start blocks
              in (case wait_for_block_number L during target s1 of
                    (Inl e, s2) \<Rightarrow> (Inl e, s2)
                  | (Inr _, s2) \<Rightarrow>
                      (Inr (map of_nat [unat (start + 1)..<Suc (unat target)]), s2)))))"

section \<open>Accounts\<close>

definition account_balance ::
  "('w, 'rx, 'n, 'f, 'bc, 'x, 'b) rpc_lib \<Rightarrow> ('w, 'n, 'bc, 'x) anvil_rpc \<Rightarrow> address
     \<Rightarrow> rpc_error + u256" where
  "account_balance L s a =
     (case Option.bind (account (anvil_state_of s) a) override_balance of
        Some balance \<Rightarrow> Inr balance
      | None \<Rightarrow>
          (case l_basic_account L (rpc_world s) a of
             Inl e \<Rightarrow> Inl (internal_error (''failed to read account: '' @ e))
           | Inr found \<Rightarrow> Inr (acc_balance (case found of Some x \<Rightarrow> x | None \<Rightarrow> acct_default))))"

definition account_nonce ::
  "('w, 'rx, 'n, 'f, 'bc, 'x, 'b) rpc_lib \<Rightarrow> ('w, 'n, 'bc, 'x) anvil_rpc \<Rightarrow> address
     \<Rightarrow> rpc_error + u64" where
  "account_nonce L s a =
     (case l_basic_account L (rpc_world s) a of
        Inl e \<Rightarrow> Inl (internal_error (''failed to read account: '' @ e))
      | Inr found \<Rightarrow>
          (let base_nonce = acc_nonce (case found of Some x \<Rightarrow> x | None \<Rightarrow> acct_default)
           in Inr (case Option.bind (account (anvil_state_of s) a) override_nonce of
                     Some n \<Rightarrow> n
                   | None \<Rightarrow> base_nonce)))"

section \<open>Dump and load\<close>

definition dump_state ::
  "('w, 'rx, 'n, 'f, 'bc, 'x, 'b) rpc_lib \<Rightarrow> bool option \<Rightarrow> ('w, 'n, 'bc, 'x) anvil_rpc
     \<Rightarrow> rpc_error + bytes" where
  "dump_state L preserve_historical_states s =
     (if preserve_historical_states = Some True
      then Inl (invalid_params ''preserving historical states is not supported yet'')
      else
        (case l_dump_state_collect L (rpc_world s) of
           Inl e \<Rightarrow> Inl (internal_error (''failed to dump state: '' @ e))
         | Inr dump \<Rightarrow>
             (case best_block_number L s of
                Inl e \<Rightarrow> Inl e
              | Inr number \<Rightarrow>
                  (let state = merge_anvil_state (l_code L) (anvil_state_of s) (from_dump dump (Some number))
                   in (case encode_gzipped (l_leaf L) (l_dump L) state of
                         Inl e \<Rightarrow> Inl (internal_error (''failed to encode state dump: '' @ e))
                       | Inr z \<Rightarrow> Inr z)))))"

text \<open>One account of a loaded state: the writes under one guard, or a panic in \<open>set_code\<close>.\<close>

definition load_account ::
  "('w, 'rx, 'n, 'f, 'bc, 'x, 'b) rpc_lib \<Rightarrow> address \<Rightarrow> account_record
     \<Rightarrow> ('w, 'n, 'bc, 'x) anvil_rpc \<Rightarrow> unit outcome \<times> ('w, 'n, 'bc, 'x) anvil_rpc" where
  "load_account L a acc s =
     (case account_nonce L s a of
        Inl e \<Rightarrow> (Err e, s)
      | Inr current \<Rightarrow>
          (let nonce = max current (sr_nonce acc);
               anvil_state1 = set_nonce a nonce (set_balance a (sr_balance acc) (anvil_state_of s))
           in (case set_code (l_code L) a (sr_code acc) anvil_state1 of
                 None \<Rightarrow> (Panic, upd_anvil_state (\<lambda>_. anvil_state1) s)
               | Some anvil_state2 \<Rightarrow>
                   (Ok (), upd_anvil_state
                      (\<lambda>_. fold (\<lambda>(slot, value). set_storage_at a slot value) (sr_storage acc)
                         anvil_state2) s))))"

fun load_accounts ::
  "('w, 'rx, 'n, 'f, 'bc, 'x, 'b) rpc_lib \<Rightarrow> (address \<times> account_record) list
     \<Rightarrow> ('w, 'n, 'bc, 'x) anvil_rpc \<Rightarrow> bool outcome \<times> ('w, 'n, 'bc, 'x) anvil_rpc" where
  "load_accounts L [] s = (Ok True, s)"
| "load_accounts L ((a, acc) # accs) s =
     (case load_account L a acc s of
        (Ok _, s') \<Rightarrow> load_accounts L accs s'
      | (Err e, s') \<Rightarrow> (Err e, s')
      | (Panic, s') \<Rightarrow> (Panic, s'))"

definition load_state ::
  "('w, 'rx, 'n, 'f, 'bc, 'x, 'b) rpc_lib \<Rightarrow> bytes \<Rightarrow> ('w, 'n, 'bc, 'x) anvil_rpc
     \<Rightarrow> bool outcome \<times> ('w, 'n, 'bc, 'x) anvil_rpc" where
  "load_state L buf s =
     (case decode (l_leaf L) (l_dump L) buf of
        Inl e \<Rightarrow> (Err (invalid_params (''failed to decode state dump: '' @ e)), s)
      | Inr state \<Rightarrow> load_accounts L (ss_accounts state) s)"

section \<open>ERC-20 storage slots\<close>

text \<open>
  \<open>find_erc20_storage_slot\<close>: the slots of the token in the access list of the call, in
  order; the first slot for which the call, with the slot overridden, returns the expected
  value. A call that fails is skipped.
\<close>

fun probe_slots ::
  "(state_override \<Rightarrow> rpc_error + bytes) \<Rightarrow> (bytes \<Rightarrow> u256 option) \<Rightarrow> address \<Rightarrow> u256
     \<Rightarrow> b256 list \<Rightarrow> b256 option outcome" where
  "probe_slots call from_be_slice token_address expected_value [] = Ok None"
| "probe_slots call from_be_slice token_address expected_value (slot # slots) =
     (case call [(token_address, [(slot, expected_value)])] of
        Inl _ \<Rightarrow> probe_slots call from_be_slice token_address expected_value slots
      | Inr result \<Rightarrow>
          (case from_be_slice result of
             None \<Rightarrow> Panic
           | Some v \<Rightarrow>
               if v = expected_value then Ok (Some slot)
               else probe_slots call from_be_slice token_address expected_value slots))"

fun probe_items ::
  "(state_override \<Rightarrow> rpc_error + bytes) \<Rightarrow> (bytes \<Rightarrow> u256 option) \<Rightarrow> address \<Rightarrow> u256
     \<Rightarrow> (address \<times> b256 list) list \<Rightarrow> b256 option outcome" where
  "probe_items call from_be_slice token_address expected_value [] = Ok None"
| "probe_items call from_be_slice token_address expected_value ((item_address, storage_keys) # items) =
     (if item_address \<noteq> token_address
      then probe_items call from_be_slice token_address expected_value items
      else
        (case probe_slots call from_be_slice token_address expected_value storage_keys of
           Ok None \<Rightarrow> probe_items call from_be_slice token_address expected_value items
         | r \<Rightarrow> r))"

definition find_erc20_storage_slot ::
  "('w, 'rx, 'n, 'f, 'bc, 'x, 'b) rpc_lib \<Rightarrow> address \<Rightarrow> bytes \<Rightarrow> u256
     \<Rightarrow> ('w, 'n, 'bc, 'x) anvil_rpc \<Rightarrow> b256 outcome" where
  "find_erc20_storage_slot L token_address calldata expected_value s =
     (let tx = tx_request_default\<lparr>tr_to := Some token_address, tr_input := Some calldata\<rparr>
      in (case eth_create_access_list (l_eth L) s tx of
            Inl e \<Rightarrow> Err e
          | Inr access_list \<Rightarrow>
              (case probe_items (eth_call (l_eth L) s tx) (l_from_be_slice L) token_address
                      expected_value access_list of
                 Ok (Some slot) \<Rightarrow> Ok slot
               | Ok None \<Rightarrow> Err (internal_error ''Unable to find storage slot'')
               | Err e \<Rightarrow> Err e
               | Panic \<Rightarrow> Panic)))"

end
