(* ===== verification/Rpc_Handlers.thy ===== *)
theory Rpc_Handlers
  imports Rpc_State
begin

text \<open>
  \<open>AnvilRpc\<close> (src/src/anvil_api.rs), part two: the handlers of the \<open>anvil_*\<close> methods, one
  definition each, in the order of the source. A handler gets the library, its arguments
  and the shared state; the two that mine blocks also get what happens during their sleeps,
  the ones that read the wall clock the number of seconds it shows.
\<close>

section \<open>Impersonation\<close>

definition anvil_impersonate_account ::
  "address \<Rightarrow> ('w, 'n, 'bc, 'x) anvil_rpc \<Rightarrow> unit outcome \<times> ('w, 'n, 'bc, 'x) anvil_rpc" where
  "anvil_impersonate_account a s = (Ok (), s\<lparr>rpc_state := impersonate a (rpc_state s)\<rparr>)"

definition anvil_stop_impersonating_account ::
  "address \<Rightarrow> ('w, 'n, 'bc, 'x) anvil_rpc \<Rightarrow> unit outcome \<times> ('w, 'n, 'bc, 'x) anvil_rpc" where
  "anvil_stop_impersonating_account a s =
     (Ok (), s\<lparr>rpc_state := stop_impersonating a (rpc_state s)\<rparr>)"

definition anvil_auto_impersonate_account ::
  "bool \<Rightarrow> ('w, 'n, 'bc, 'x) anvil_rpc \<Rightarrow> unit outcome \<times> ('w, 'n, 'bc, 'x) anvil_rpc" where
  "anvil_auto_impersonate_account enabled s =
     (Ok (), s\<lparr>rpc_state := set_auto_impersonate enabled (rpc_state s)\<rparr>)"

section \<open>Mining\<close>

definition anvil_get_automine ::
  "('w, 'rx, 'n, 'f, 'bc, 'x, 'b) rpc_lib \<Rightarrow> ('w, 'n, 'bc, 'x) anvil_rpc
     \<Rightarrow> bool outcome \<times> ('w, 'n, 'bc, 'x) anvil_rpc" where
  "anvil_get_automine L s = (Ok (is_automine (l_watch L) (rpc_mining s)), s)"

definition anvil_get_interval_mining ::
  "('w, 'rx, 'n, 'f, 'bc, 'x, 'b) rpc_lib \<Rightarrow> ('w, 'n, 'bc, 'x) anvil_rpc
     \<Rightarrow> u64 option outcome \<times> ('w, 'n, 'bc, 'x) anvil_rpc" where
  "anvil_get_interval_mining L s = (Ok (interval_mining (l_watch L) (rpc_mining s)), s)"

definition anvil_set_automine ::
  "('w, 'rx, 'n, 'f, 'bc, 'x, 'b) rpc_lib \<Rightarrow> bool \<Rightarrow> ('w, 'n, 'bc, 'x) anvil_rpc
     \<Rightarrow> unit outcome \<times> ('w, 'n, 'bc, 'x) anvil_rpc" where
  "anvil_set_automine L enabled s =
     (let s1 = s\<lparr>rpc_mining := set_automine (l_watch L) enabled (rpc_mining s)\<rparr>
      in if enabled \<and> 0 < fst (l_pending_and_queued_txn_count L (rpc_world s1))
         then (Ok (), s1\<lparr>rpc_mining := trigger (l_notify L) (rpc_mining s1)\<rparr>)
         else (Ok (), s1))"

definition anvil_set_interval_mining ::
  "('w, 'rx, 'n, 'f, 'bc, 'x, 'b) rpc_lib \<Rightarrow> u64 \<Rightarrow> ('w, 'n, 'bc, 'x) anvil_rpc
     \<Rightarrow> unit outcome \<times> ('w, 'n, 'bc, 'x) anvil_rpc" where
  "anvil_set_interval_mining L seconds s =
     (Ok (), s\<lparr>rpc_mining := set_interval_mining (l_watch L) seconds (rpc_mining s)\<rparr>)"

definition anvil_mine ::
  "('w, 'rx, 'n, 'f, 'bc, 'x, 'b) rpc_lib
     \<Rightarrow> (nat \<Rightarrow> ('w, 'n, 'bc, 'x) anvil_rpc \<Rightarrow> ('w, 'n, 'bc, 'x) anvil_rpc)
     \<Rightarrow> u256 option \<Rightarrow> u256 option \<Rightarrow> ('w, 'n, 'bc, 'x) anvil_rpc
     \<Rightarrow> unit outcome \<times> ('w, 'n, 'bc, 'x) anvil_rpc" where
  "anvil_mine L during num_blocks interval_arg s =
     (case to_u64 (case num_blocks of Some n \<Rightarrow> n | None \<Rightarrow> 1) of
        None \<Rightarrow> (Panic, s)
      | Some blocks \<Rightarrow>
          (case (case interval_arg of Some i \<Rightarrow> (if i \<noteq> 0 then Some i else None) | None \<Rightarrow> None) of
             Some i \<Rightarrow>
               (let previous_interval = interval (rpc_time s)
                in (case to_u64 i of
                      None \<Rightarrow> (Panic, s)
                    | Some secs \<Rightarrow>
                        (let s1 = s\<lparr>rpc_time := set_block_timestamp_interval secs (rpc_time s)\<rparr>;
                             (result, s2) = mine_blocks L during blocks s1;
                             s3 = (case previous_interval of
                                     Some p \<Rightarrow>
                                       s2\<lparr>rpc_time := set_block_timestamp_interval p (rpc_time s2)\<rparr>
                                   | None \<Rightarrow>
                                       s2\<lparr>rpc_time := snd (remove_block_timestamp_interval (rpc_time s2))\<rparr>)
                         in (case result of Inl e \<Rightarrow> (Err e, s3) | Inr _ \<Rightarrow> (Ok (), s3)))))
           | None \<Rightarrow>
               (case mine_blocks L during blocks s of
                  (Inl e, s') \<Rightarrow> (Err e, s')
                | (Inr _, s') \<Rightarrow> (Ok (), s'))))"

datatype mine_options =
    Options "u64 option" "u64 option"
  | Timestamp "u64 option"

text \<open>The blocks of \<open>mine_detailed\<close>, fetched one by one; the first error ends the loop.\<close>

fun fetch_blocks ::
  "(u64 \<Rightarrow> rpc_error + 'b rpc_block option) \<Rightarrow> u64 list \<Rightarrow> rpc_error + 'b rpc_block list" where
  "fetch_blocks fetch [] = Inr []"
| "fetch_blocks fetch (n # ns) =
     (case fetch n of
        Inl e \<Rightarrow> Inl e
      | Inr None \<Rightarrow> Inl (internal_error (''missing mined block '' @ dec (unat n)))
      | Inr (Some block) \<Rightarrow> map_sum id (\<lambda>blocks. block # blocks) (fetch_blocks fetch ns))"

text \<open>\<open>MineOptions::default()\<close> is the library's: no timestamp and no number of blocks.\<close>

definition anvil_mine_detailed ::
  "('w, 'rx, 'n, 'f, 'bc, 'x, 'b) rpc_lib
     \<Rightarrow> (nat \<Rightarrow> ('w, 'n, 'bc, 'x) anvil_rpc \<Rightarrow> ('w, 'n, 'bc, 'x) anvil_rpc)
     \<Rightarrow> mine_options option \<Rightarrow> ('w, 'n, 'bc, 'x) anvil_rpc
     \<Rightarrow> 'b rpc_block list outcome \<times> ('w, 'n, 'bc, 'x) anvil_rpc" where
  "anvil_mine_detailed L during opts s =
     (let (timestamp, blocks) =
            (case (case opts of Some x \<Rightarrow> x | None \<Rightarrow> Options None None) of
               Options t b \<Rightarrow> (t, case b of Some n \<Rightarrow> n | None \<Rightarrow> 1)
             | Timestamp t \<Rightarrow> (t, 1))
      in (case (case timestamp of
                  None \<Rightarrow> Inr (rpc_time s)
                | Some t \<Rightarrow> set_next_block_timestamp t (rpc_time s)) of
            Inl e \<Rightarrow> (Err (invalid_params e), s)
          | Inr tm \<Rightarrow>
              (case mine_blocks L during blocks (s\<lparr>rpc_time := tm\<rparr>) of
                 (Inl e, s') \<Rightarrow> (Err e, s')
               | (Inr mined_blocks, s') \<Rightarrow>
                   (of_result (fetch_blocks (bs_block_by_number_full (l_eth L) s') mined_blocks), s'))))"

section \<open>Pool\<close>

definition anvil_drop_transaction ::
  "('w, 'rx, 'n, 'f, 'bc, 'x, 'b) rpc_lib \<Rightarrow> b256 \<Rightarrow> ('w, 'n, 'bc, 'x) anvil_rpc
     \<Rightarrow> b256 option outcome \<times> ('w, 'n, 'bc, 'x) anvil_rpc" where
  "anvil_drop_transaction L tx_hash s =
     (case l_remove_transaction L tx_hash (rpc_world s) of
        (None, x) \<Rightarrow> (Ok None, s\<lparr>rpc_world := x\<rparr>)
      | (Some _, x) \<Rightarrow>
          (Ok (Some tx_hash),
           s\<lparr>rpc_world := x, rpc_state := forget_tx_sender tx_hash (rpc_state s)\<rparr>))"

definition anvil_drop_all_transactions ::
  "('w, 'rx, 'n, 'f, 'bc, 'x, 'b) rpc_lib \<Rightarrow> ('w, 'n, 'bc, 'x) anvil_rpc
     \<Rightarrow> unit outcome \<times> ('w, 'n, 'bc, 'x) anvil_rpc" where
  "anvil_drop_all_transactions L s =
     (let hashes = l_all_transaction_hashes L (rpc_world s)
      in if hashes \<noteq> []
         then (Ok (), s\<lparr>rpc_world := l_remove_transactions L hashes (rpc_world s),
                        rpc_state := forget_tx_senders hashes (rpc_state s)\<rparr>)
         else (Ok (), s))"

definition anvil_remove_pool_transactions ::
  "('w, 'rx, 'n, 'f, 'bc, 'x, 'b) rpc_lib \<Rightarrow> address \<Rightarrow> ('w, 'n, 'bc, 'x) anvil_rpc
     \<Rightarrow> unit outcome \<times> ('w, 'n, 'bc, 'x) anvil_rpc" where
  "anvil_remove_pool_transactions L a s =
     (let (removed, x) = l_remove_transactions_by_sender L a (rpc_world s)
      in (Ok (), s\<lparr>rpc_world := x, rpc_state := forget_tx_senders removed (rpc_state s)\<rparr>))"

section \<open>Node information\<close>

definition anvil_set_logging_enabled ::
  "bool \<Rightarrow> ('w, 'n, 'bc, 'x) anvil_rpc \<Rightarrow> unit outcome \<times> ('w, 'n, 'bc, 'x) anvil_rpc" where
  "anvil_set_logging_enabled enabled s = (Ok (), s)"

definition anvil_get_genesis_time ::
  "('w, 'rx, 'n, 'f, 'bc, 'x, 'b) rpc_lib \<Rightarrow> ('w, 'n, 'bc, 'x) anvil_rpc
     \<Rightarrow> u64 outcome \<times> ('w, 'n, 'bc, 'x) anvil_rpc" where
  "anvil_get_genesis_time L s =
     (case l_header_timestamp L (rpc_world s) 0 of
        Inl e \<Rightarrow> (Err (internal_error (''failed to read genesis header: '' @ e)), s)
      | Inr None \<Rightarrow> (Err (internal_error ''genesis block not found''), s)
      | Inr (Some t) \<Rightarrow> (Ok t, s))"

record node_environment =
  ne_base_fee :: "128 word"
  ne_chain_id :: u64
  ne_gas_limit :: u64
  ne_gas_price :: "128 word"

record node_info =
  ni_current_block_number :: u64
  ni_current_block_timestamp :: u64
  ni_current_block_hash :: b256
  ni_hard_fork :: string
  ni_transaction_order :: string
  ni_environment :: node_environment
  ni_fork_block_number :: "u64 option"
  ni_network :: "string option"

definition anvil_node_info ::
  "('w, 'rx, 'n, 'f, 'bc, 'x, 'b) rpc_lib \<Rightarrow> ('w, 'n, 'bc, 'x) anvil_rpc
     \<Rightarrow> node_info outcome \<times> ('w, 'n, 'bc, 'x) anvil_rpc" where
  "anvil_node_info L s =
     (case latest_block L s of
        Inl e \<Rightarrow> (Err e, s)
      | Inr latest \<Rightarrow>
          (case bs_gas_price (l_eth L) s of
             Inl e \<Rightarrow> (Err e, s)
           | Inr gas_price \<Rightarrow>
               (let header = rb_header latest; node = cx_node (rpc_context s)
                in (case to_u128 gas_price of
                      None \<Rightarrow> (Panic, s)
                    | Some price \<Rightarrow>
                        (Ok \<lparr>ni_current_block_number = bh_number header,
                             ni_current_block_timestamp = bh_timestamp header,
                             ni_current_block_hash = bh_hash header,
                             ni_hard_fork = hardfork_name node (bh_timestamp header),
                             ni_transaction_order = ''fees'',
                             ni_environment =
                               \<lparr>ne_base_fee = (case bh_base_fee_per_gas header of
                                  Some f \<Rightarrow> ucast f | None \<Rightarrow> 0),
                                ne_chain_id = chain_id (nc_chain_spec node),
                                ne_gas_limit = bh_gas_limit header,
                                ne_gas_price = price\<rparr>,
                             ni_fork_block_number = None,
                             ni_network = None\<rparr>, s)))))"

record metadata =
  md_client_version :: string
  md_client_semver :: "string option"
  md_client_commit_sha :: "string option"
  md_chain_id :: u64
  md_instance_id :: b256
  md_latest_block_number :: u64
  md_latest_block_hash :: b256
  md_forked_network :: "string option"
  md_snapshots :: "(u256, b256) btreemap"

definition pkg_name :: string where "pkg_name = ''anvil-reth''"
definition pkg_version :: string where "pkg_version = ''0.1.0''"

definition anvil_metadata ::
  "('w, 'rx, 'n, 'f, 'bc, 'x, 'b) rpc_lib \<Rightarrow> ('w, 'n, 'bc, 'x) anvil_rpc
     \<Rightarrow> metadata outcome \<times> ('w, 'n, 'bc, 'x) anvil_rpc" where
  "anvil_metadata L s =
     (case latest_block L s of
        Inl e \<Rightarrow> (Err e, s)
      | Inr latest \<Rightarrow>
          (let node = cx_node (rpc_context s)
           in (Ok \<lparr>md_client_version = pkg_name @ ''/v'' @ pkg_version,
                   md_client_semver = Some pkg_version,
                   md_client_commit_sha = l_git_sha L,
                   md_chain_id = chain_id (nc_chain_spec node),
                   md_instance_id = nc_instance_id node,
                   md_latest_block_number = bh_number (rb_header latest),
                   md_latest_block_hash = bh_hash (rb_header latest),
                   md_forked_network = None,
                   md_snapshots = []\<rparr>, s)))"

section \<open>Time\<close>

definition anvil_set_block_timestamp_interval ::
  "u64 \<Rightarrow> ('w, 'n, 'bc, 'x) anvil_rpc \<Rightarrow> unit outcome \<times> ('w, 'n, 'bc, 'x) anvil_rpc" where
  "anvil_set_block_timestamp_interval seconds s =
     (Ok (), s\<lparr>rpc_time := set_block_timestamp_interval seconds (rpc_time s)\<rparr>)"

definition anvil_remove_block_timestamp_interval ::
  "('w, 'n, 'bc, 'x) anvil_rpc \<Rightarrow> bool outcome \<times> ('w, 'n, 'bc, 'x) anvil_rpc" where
  "anvil_remove_block_timestamp_interval s =
     (let (removed, tm) = remove_block_timestamp_interval (rpc_time s)
      in (Ok removed, s\<lparr>rpc_time := tm\<rparr>))"

definition anvil_increase_time ::
  "u256 \<Rightarrow> ('w, 'n, 'bc, 'x) anvil_rpc \<Rightarrow> int outcome \<times> ('w, 'n, 'bc, 'x) anvil_rpc" where
  "anvil_increase_time seconds s =
     (case to_u64 seconds of
        None \<Rightarrow> (Panic, s)
      | Some secs \<Rightarrow>
          (let (offset, tm) = increase_time secs (rpc_time s)
           in (Ok (as_i64 (min offset (2 ^ 63 - 1))), s\<lparr>rpc_time := tm\<rparr>)))"

text \<open>The clock is read twice: for the current timestamp and, in \<open>set_time\<close>, for the offset.\<close>

definition anvil_set_time ::
  "u64 \<Rightarrow> u64 \<Rightarrow> u64 \<Rightarrow> ('w, 'n, 'bc, 'x) anvil_rpc \<Rightarrow> u64 outcome \<times> ('w, 'n, 'bc, 'x) anvil_rpc" where
  "anvil_set_time clock1 clock2 timestamp_arg s =
     (let timestamp = normalize_timestamp_input timestamp_arg;
          now = current_call_timestamp clock1 (rpc_time s)
      in (Ok (sat_sub timestamp now), s\<lparr>rpc_time := set_time clock2 timestamp (rpc_time s)\<rparr>))"

definition anvil_set_next_block_timestamp ::
  "u64 \<Rightarrow> ('w, 'n, 'bc, 'x) anvil_rpc \<Rightarrow> unit outcome \<times> ('w, 'n, 'bc, 'x) anvil_rpc" where
  "anvil_set_next_block_timestamp seconds s =
     (case set_next_block_timestamp seconds (rpc_time s) of
        Inl e \<Rightarrow> (Err (invalid_params e), s)
      | Inr tm \<Rightarrow> (Ok (), s\<lparr>rpc_time := tm\<rparr>))"

section \<open>Accounts\<close>

definition anvil_set_balance ::
  "address \<Rightarrow> u256 \<Rightarrow> ('w, 'n, 'bc, 'x) anvil_rpc \<Rightarrow> unit outcome \<times> ('w, 'n, 'bc, 'x) anvil_rpc" where
  "anvil_set_balance a balance s = (Ok (), upd_anvil_state (set_balance a balance) s)"

definition anvil_add_balance ::
  "('w, 'rx, 'n, 'f, 'bc, 'x, 'b) rpc_lib \<Rightarrow> address \<Rightarrow> u256 \<Rightarrow> ('w, 'n, 'bc, 'x) anvil_rpc
     \<Rightarrow> unit outcome \<times> ('w, 'n, 'bc, 'x) anvil_rpc" where
  "anvil_add_balance L a balance s =
     (case account_balance L s a of
        Inl e \<Rightarrow> (Err e, s)
      | Inr current \<Rightarrow> (Ok (), upd_anvil_state (set_balance a (sat_add current balance)) s))"

definition anvil_set_nonce ::
  "address \<Rightarrow> u256 \<Rightarrow> ('w, 'n, 'bc, 'x) anvil_rpc \<Rightarrow> unit outcome \<times> ('w, 'n, 'bc, 'x) anvil_rpc" where
  "anvil_set_nonce a nonce s =
     (if ucast (- 1 :: u64) < nonce then (Err (invalid_params ''nonce exceeds u64::MAX''), s)
      else
        (case to_u64 nonce of
           None \<Rightarrow> (Panic, s)
         | Some n \<Rightarrow> (Ok (), upd_anvil_state (set_nonce a n) s)))"

definition anvil_set_code ::
  "('w, 'rx, 'n, 'f, 'bc, 'x, 'b) rpc_lib \<Rightarrow> address \<Rightarrow> bytes \<Rightarrow> ('w, 'n, 'bc, 'x) anvil_rpc
     \<Rightarrow> unit outcome \<times> ('w, 'n, 'bc, 'x) anvil_rpc" where
  "anvil_set_code L a code s =
     (case set_code (l_code L) a code (anvil_state_of s) of
        None \<Rightarrow> (Panic, s)
      | Some anvil_state \<Rightarrow> (Ok (), upd_anvil_state (\<lambda>_. anvil_state) s))"

definition anvil_set_storage_at ::
  "address \<Rightarrow> u256 \<Rightarrow> b256 \<Rightarrow> ('w, 'n, 'bc, 'x) anvil_rpc
     \<Rightarrow> bool outcome \<times> ('w, 'n, 'bc, 'x) anvil_rpc" where
  "anvil_set_storage_at a slot value s = (Ok True, upd_anvil_state (set_storage_at a slot value) s)"

definition anvil_dump_state ::
  "('w, 'rx, 'n, 'f, 'bc, 'x, 'b) rpc_lib \<Rightarrow> bool option \<Rightarrow> ('w, 'n, 'bc, 'x) anvil_rpc
     \<Rightarrow> bytes outcome \<times> ('w, 'n, 'bc, 'x) anvil_rpc" where
  "anvil_dump_state L preserve_historical_states s =
     (of_result (dump_state L preserve_historical_states s), s)"

definition anvil_load_state ::
  "('w, 'rx, 'n, 'f, 'bc, 'x, 'b) rpc_lib \<Rightarrow> bytes \<Rightarrow> ('w, 'n, 'bc, 'x) anvil_rpc
     \<Rightarrow> bool outcome \<times> ('w, 'n, 'bc, 'x) anvil_rpc" where
  "anvil_load_state L state s = load_state L state s"

section \<open>ERC-20\<close>

text \<open>The 20 bytes of an address, most significant first.\<close>

definition address_bytes :: "address \<Rightarrow> bytes" where
  "address_bytes a = map (\<lambda>i. ucast (drop_bit (8 * (19 - i)) a)) [0..<20]"

definition balance_of_selector :: bytes where
  "balance_of_selector = [0x70, 0xa0, 0x82, 0x31]"

definition allowance_selector :: bytes where
  "allowance_selector = [0xdd, 0x62, 0xed, 0x3e]"

definition anvil_deal_erc20 ::
  "('w, 'rx, 'n, 'f, 'bc, 'x, 'b) rpc_lib \<Rightarrow> address \<Rightarrow> address \<Rightarrow> u256 \<Rightarrow> ('w, 'n, 'bc, 'x) anvil_rpc
     \<Rightarrow> unit outcome \<times> ('w, 'n, 'bc, 'x) anvil_rpc" where
  "anvil_deal_erc20 L a token_address balance s =
     (let calldata = balance_of_selector @ replicate 12 0 @ address_bytes a
      in (case find_erc20_storage_slot L token_address calldata balance s of
            Ok slot \<Rightarrow> (Ok (), upd_anvil_state (set_storage_at token_address slot balance) s)
          | Err e \<Rightarrow> (Err e, s)
          | Panic \<Rightarrow> (Panic, s)))"

definition anvil_set_erc20_allowance ::
  "('w, 'rx, 'n, 'f, 'bc, 'x, 'b) rpc_lib \<Rightarrow> address \<Rightarrow> address \<Rightarrow> address \<Rightarrow> u256
     \<Rightarrow> ('w, 'n, 'bc, 'x) anvil_rpc \<Rightarrow> unit outcome \<times> ('w, 'n, 'bc, 'x) anvil_rpc" where
  "anvil_set_erc20_allowance L owner spender token_address amount s =
     (let calldata = allowance_selector @ replicate 12 0 @ address_bytes owner @
            replicate 12 0 @ address_bytes spender
      in (case find_erc20_storage_slot L token_address calldata amount s of
            Ok slot \<Rightarrow> (Ok (), upd_anvil_state (set_storage_at token_address slot amount) s)
          | Err e \<Rightarrow> (Err e, s)
          | Panic \<Rightarrow> (Panic, s)))"

section \<open>Block environment\<close>

definition rpc_set_block_gas_limit ::
  "u256 \<Rightarrow> ('w, 'n, 'bc, 'x) anvil_rpc \<Rightarrow> bool outcome \<times> ('w, 'n, 'bc, 'x) anvil_rpc" where
  "rpc_set_block_gas_limit limit s =
     (if ucast (- 1 :: u64) < limit then (Err (invalid_params ''gas_limit exceeds u64::MAX''), s)
      else
        (case to_u64 limit of
           None \<Rightarrow> (Panic, s)
         | Some g \<Rightarrow> (Ok True, upd_block_env (set_gas_limit g) s)))"

definition anvil_set_block_gas_limit ::
  "u256 \<Rightarrow> ('w, 'n, 'bc, 'x) anvil_rpc \<Rightarrow> bool outcome \<times> ('w, 'n, 'bc, 'x) anvil_rpc" where
  "anvil_set_block_gas_limit limit s = rpc_set_block_gas_limit limit s"

definition anvil_set_coinbase ::
  "address \<Rightarrow> ('w, 'n, 'bc, 'x) anvil_rpc \<Rightarrow> unit outcome \<times> ('w, 'n, 'bc, 'x) anvil_rpc" where
  "anvil_set_coinbase a s = (Ok (), upd_block_env (set_coinbase a) s)"

definition anvil_set_next_block_base_fee_per_gas ::
  "u256 \<Rightarrow> ('w, 'n, 'bc, 'x) anvil_rpc \<Rightarrow> unit outcome \<times> ('w, 'n, 'bc, 'x) anvil_rpc" where
  "anvil_set_next_block_base_fee_per_gas base_fee s =
     (if ucast (- 1 :: u64) < base_fee then (Err (invalid_params ''base_fee exceeds u64::MAX''), s)
      else
        (case to_u64 base_fee of
           None \<Rightarrow> (Panic, s)
         | Some f \<Rightarrow> (Ok (), upd_block_env (set_next_base_fee f) s)))"

end
