(* ===== verification/Rpc_Instance.thy ===== *)
theory Rpc_Instance
  imports Rpc_Handlers
begin

text \<open>
  One concrete node for the witnesses: the world is the head of the chain and the pool (hash
  and sender of each transaction); the provider knows one account (the one of
  \<open>demo_provider\<close>); a sleep lets the miner produce one block; a call of a token returns the
  value its slot 3 is overridden with.
\<close>

type_synonym demo_world = "u64 \<times> (b256 \<times> address) list"

type_synonym demo_rpc_state = "(mining_mode \<times> nat, bool, bytes, demo_world) anvil_rpc"

definition demo_block :: "u64 \<Rightarrow> unit rpc_block" where
  "demo_block n =
     \<lparr>rb_header = \<lparr>bh_number = n, bh_timestamp = 1000 + n, bh_hash = ucast n,
        bh_base_fee_per_gas = Some 7, bh_gas_limit = 30000000, bh_beneficiary = 0\<rparr>, rb_body = ()\<rparr>"

definition demo_eth :: "(demo_rpc_state, unit) eth_api" where
  "demo_eth =
     \<lparr>eth_gas_price = (\<lambda>_. Inr 8),
      eth_block_by_number = (\<lambda>s tag full. case tag of
         Number n \<Rightarrow> Inr (if n \<le> fst (rpc_world s) then Some (demo_block n) else None)
       | _ \<Rightarrow> Inr None),
      eth_create_access_list = (\<lambda>s tx. Inr [(1, [9]), (2, [4, 3, 5])]),
      eth_call = (\<lambda>s tx ov. case ov of
         [(a, [(slot, v)])] \<Rightarrow> if slot = 3 then Inr [ucast v] else Inr [0]
       | _ \<Rightarrow> Inl (internal_error ''reverted''))\<rparr>"

definition demo_from_be_slice :: "bytes \<Rightarrow> u256 option" where
  "demo_from_be_slice bs =
     (if length bs \<le> 32 then Some (word_of_int (foldl (\<lambda>n b. 256 * n + uint b) 0 bs)) else None)"

definition demo_lib ::
  "json \<Rightarrow> (mining_mode \<times> nat, nat, bool, unit, bytes, demo_world, unit) rpc_lib" where
  "demo_lib doc =
     \<lparr>l_watch = demo_watch, l_notify = demo_notify, l_code = demo_code, l_leaf = demo_leaf,
      l_dump = demo_dump_codec doc, l_eth = demo_eth,
      l_pending_and_queued_txn_count = (\<lambda>x. (length (snd x), 0)),
      l_remove_transaction = (\<lambda>h x.
        (if h \<in> fst ` set (snd x) then Some h else None,
         (fst x, filter (\<lambda>p. fst p \<noteq> h) (snd x)))),
      l_all_transaction_hashes = (\<lambda>x. map fst (snd x)),
      l_remove_transactions = (\<lambda>hs x. (fst x, filter (\<lambda>p. fst p \<notin> set hs) (snd x))),
      l_remove_transactions_by_sender = (\<lambda>a x.
        (map fst (filter (\<lambda>p. snd p = a) (snd x)), (fst x, filter (\<lambda>p. snd p \<noteq> a) (snd x)))),
      l_basic_account = (\<lambda>x. sp_basic_account demo_provider),
      l_best_block_number = (\<lambda>x. Inr (fst x)),
      l_header_timestamp = (\<lambda>x n. Inr (Some 1000)),
      l_dump_state_collect = (\<lambda>x. Inr [\<lparr>da_address = 5, da_nonce = 1, da_balance = 100,
        da_code = None, da_storage = []\<rparr>]),
      l_from_be_slice = demo_from_be_slice,
      l_git_sha = None\<rparr>"

definition demo_spec :: chain_spec where
  "demo_spec = \<lparr>is_osaka_active = (\<lambda>_. False), is_prague_active = (\<lambda>_. True),
     is_cancun_active = (\<lambda>_. True), is_shanghai_active = (\<lambda>_. True), chain_id = 1337\<rparr>"

definition demo_rpc :: "(b256 \<times> address) list \<Rightarrow> demo_rpc_state" where
  "demo_rpc pool =
     anvil_rpc_new impersonation_default (mining_controller_default demo_watch demo_notify)
       (new_time_manager 1000 1000)
       (anvil_context_new anvil_state_shared block_env_default (anvil_node_config_new demo_spec 42))
       (10, pool)"

definition demo_during :: "nat \<Rightarrow> demo_rpc_state \<Rightarrow> demo_rpc_state" where
  "demo_during i s = s\<lparr>rpc_world := (fst (rpc_world s) + 1, snd (rpc_world s))\<rparr>"

lemma demo_lib_simps [simp]:
  "l_watch (demo_lib doc) = demo_watch" "l_notify (demo_lib doc) = demo_notify"
  "l_code (demo_lib doc) = demo_code" "l_leaf (demo_lib doc) = demo_leaf"
  "l_dump (demo_lib doc) = demo_dump_codec doc" "l_eth (demo_lib doc) = demo_eth"
  "l_best_block_number (demo_lib doc) x = Inr (fst x)"
  "l_basic_account (demo_lib doc) x = sp_basic_account demo_provider"
  "l_pending_and_queued_txn_count (demo_lib doc) x = (length (snd x), 0)"
  "l_all_transaction_hashes (demo_lib doc) x = map fst (snd x)"
  "l_from_be_slice (demo_lib doc) = demo_from_be_slice"
  by (simp_all add: demo_lib_def)

lemma demo_rpc_simps [simp]:
  "rpc_world (demo_rpc pool) = (10, pool)"
  "rpc_time (demo_rpc pool) = new_time_manager 1000 1000"
  "anvil_state_of (demo_rpc pool) = anvil_state_shared"
  "block_env_of (demo_rpc pool) = block_env_default"
  "rpc_state (demo_rpc pool) = impersonation_default"
  "rpc_mining (demo_rpc pool) = mining_controller_default demo_watch demo_notify"
  by (simp_all add: demo_rpc_def anvil_rpc_new_def anvil_context_new_def)

lemma demo_during_simps [simp]:
  "rpc_world (demo_during i s) = (fst (rpc_world s) + 1, snd (rpc_world s))"
  "rpc_time (demo_during i s) = rpc_time s" "rpc_mining (demo_during i s) = rpc_mining s"
  by (simp_all add: demo_during_def)

end
