(* ===== verification/Rpc_Mining.thy ===== *)
theory Rpc_Mining
  imports Rpc_Instance
begin

text \<open>
  The handlers that mine (src/src/anvil_api.rs): the bounded wait for a block, the triggers
  issued and the range of blocks answered by \<open>mine_blocks\<close>, the interval override of
  \<open>anvil_mine\<close>, the blocks of \<open>anvil_mine_detailed\<close>, and the trigger of \<open>anvil_set_automine\<close>.
\<close>

section \<open>The wait\<close>

text \<open>The state after the first \<open>k\<close> sleeps that start with the \<open>i\<close>-th.\<close>

definition after_sleeps :: "(nat \<Rightarrow> 's \<Rightarrow> 's) \<Rightarrow> nat \<Rightarrow> nat \<Rightarrow> 's \<Rightarrow> 's" where
  "after_sleeps during i k s = fold during [i..<i + k] s"

lemma after_sleeps_0 [simp]: "after_sleeps during i 0 s = s"
  by (simp add: after_sleeps_def)

lemma after_sleeps_Suc: "after_sleeps during i (Suc k) s = after_sleeps during (Suc i) k (during i s)"
  by (simp add: after_sleeps_def upt_conv_Cons del: upt_Suc)

text \<open>Whether a poll of the head ends the wait: it failed, or it is high enough.\<close>

definition poll_ends ::
  "('w, 'rx, 'n, 'f, 'bc, 'x, 'b) rpc_lib \<Rightarrow> u64 \<Rightarrow> ('w, 'n, 'bc, 'x) anvil_rpc \<Rightarrow> bool" where
  "poll_ends L expected s =
     (case l_best_block_number L (rpc_world s) of Inl _ \<Rightarrow> True | Inr n \<Rightarrow> expected \<le> n)"

definition poll_answer ::
  "('w, 'rx, 'n, 'f, 'bc, 'x, 'b) rpc_lib \<Rightarrow> ('w, 'n, 'bc, 'x) anvil_rpc \<Rightarrow> rpc_error + unit" where
  "poll_answer L s =
     (case l_best_block_number L (rpc_world s) of
        Inl e \<Rightarrow> Inl (internal_error (''failed to read latest block number: '' @ e))
      | Inr _ \<Rightarrow> Inr ())"

definition timeout_error :: "u64 \<Rightarrow> rpc_error" where
  "timeout_error expected = internal_error (''timed out waiting for block '' @ dec (unat expected))"

lemma find_upt_Suc:
  "find P [0..<Suc n] = (if P 0 then Some 0 else map_option Suc (find (P \<circ> Suc) [0..<n]))"
proof -
  have "find P (map Suc xs) = map_option Suc (find (P \<circ> Suc) xs)" for xs
    by (induction xs) simp_all
  then show ?thesis by (simp add: upt_conv_Cons map_Suc_upt [symmetric] del: upt_Suc)
qed

lemma wait_rounds_find:
  "wait_rounds L during i fuel expected s =
     (case find (\<lambda>k. poll_ends L expected (after_sleeps during i k s)) [0..<fuel] of
        None \<Rightarrow> (Inl (timeout_error expected), after_sleeps during i fuel s)
      | Some k \<Rightarrow> (poll_answer L (after_sleeps during i k s), after_sleeps during i k s))"
proof (induction fuel arbitrary: i s)
  case 0
  show ?case by (simp add: timeout_error_def)
next
  case (Suc fuel)
  show ?case
  proof (cases "poll_ends L expected s")
    case True
    then show ?thesis
      by (auto simp: find_upt_Suc poll_answer_def poll_ends_def simp del: upt_Suc split: sum.splits)
  next
    case False
    then obtain n where "l_best_block_number L (rpc_world s) = Inr n" and "\<not> expected \<le> n"
      by (auto simp: poll_ends_def split: sum.splits)
    with False Suc.IH [of "Suc i" "during i s"] show ?thesis
      by (auto simp: find_upt_Suc comp_def after_sleeps_Suc simp del: upt_Suc
          split: option.splits)
  qed
qed

lemma find_upt_SomeD: "find P [0..<n] = Some k \<Longrightarrow> k < n \<and> P k \<and> (\<forall>j < k. \<not> P j)"
  by (auto simp: find_Some_iff)

section \<open>Mining blocks\<close>

lemma trigger_funpow_pending:
  "mt_pending (triggers ((trigger N ^^ k) m)) = mt_pending (triggers m) + of_nat k"
  by (induction k) (simp_all add: algebra_simps)

lemma trigger_funpow_mode: "mode_tx ((trigger N ^^ k) m) = mode_tx m"
  by (induction k) (simp_all add: trigger_def)

lemma mine_blocks_zero: "mine_blocks L during 0 s = (Inr [], s)"
  by (simp add: mine_blocks_def)

text \<open>The state in which \<open>mine_blocks\<close> starts to wait.\<close>

definition triggered ::
  "('w, 'rx, 'n, 'f, 'bc, 'x, 'b) rpc_lib \<Rightarrow> u64 \<Rightarrow> ('w, 'n, 'bc, 'x) anvil_rpc
     \<Rightarrow> ('w, 'n, 'bc, 'x) anvil_rpc" where
  "triggered L blocks s =
     s\<lparr>rpc_mining := (trigger (l_notify L) ^^ unat blocks) (rpc_mining s)\<rparr>"

lemma mine_blocks_unfold:
  assumes "blocks \<noteq> 0" and "l_best_block_number L (rpc_world s) = Inr start"
  shows "mine_blocks L during blocks s =
    (case wait_for_block_number L during (sat_add start blocks) (triggered L blocks s) of
       (r, s') \<Rightarrow> (map_sum id (\<lambda>_. map of_nat
          [unat (start + 1)..<Suc (unat (sat_add start blocks))]) r, s'))"
  using assms
  by (simp add: mine_blocks_def best_block_number_def triggered_def Let_def split: prod.split sum.split)

lemma mined_range:
  fixes start blocks :: u64
  assumes "blocks \<noteq> 0" and "unat start + unat blocks < 2 ^ 64"
  shows "map of_nat [unat (start + 1)..<Suc (unat (sat_add start blocks))] =
    map (\<lambda>i. start + 1 + of_nat i) [0..<unat blocks]"
proof -
  have pos: "0 < unat blocks" using assms(1) by (simp add: unat_gt_0)
  then have "unat start + unat (1 :: u64) < 2 ^ LENGTH(64)"
    using assms(2) by (simp only: unsigned_1 len_64)
  then have low: "unat (start + 1) = Suc (unat start)"
    using unat_add_lem [of start 1] by simp
  have high: "unat (sat_add start blocks) = unat start + unat blocks"
    using assms(2) by (intro sat_add_exact) simp
  have "[Suc (unat start)..<Suc (unat start + unat blocks)] =
      map (\<lambda>i. i + Suc (unat start)) [0..<unat blocks]"
    using map_add_upt [of "Suc (unat start)" "unat blocks"]
    by (simp add: add.commute del: upt_Suc)
  then show ?thesis
    unfolding low high by (simp add: comp_def add.commute add.left_commute del: upt_Suc)
qed

section \<open>Properties\<close>

text \<open>
  C15: The wait for a block polls the head at most 200 times, once before each sleep: it ends
  with the first poll that fails (the failure is its error) or finds the head high enough,
  and with a timeout after exactly 200 sleeps if no poll does.
\<close>

theorem wait_is_bounded_poll:
  "wait_for_block_number L during expected s =
     (case find (\<lambda>k. poll_ends L expected (fold during [0..<k] s)) [0..<200] of
        None \<Rightarrow> (Inl (timeout_error expected), fold during [0..<200] s)
      | Some k \<Rightarrow> (poll_answer L (fold during [0..<k] s), fold during [0..<k] s))"
  unfolding wait_for_block_number_def wait_rounds_find after_sleeps_def add_0 ..

text \<open>
  C7: Mining \<open>b\<close> blocks issues exactly \<open>b\<close> triggers and touches nothing else before it waits.
  If it answers, the answer is the \<open>b\<close> consecutive numbers above the head it started from
  and the chain has reached the last of them; if it fails, all triggers stay issued.
\<close>

theorem mine_blocks_answer:
  assumes "blocks \<noteq> 0" and "l_best_block_number L (rpc_world s) = Inr start"
    and "unat start + unat blocks < 2 ^ 64"
  shows "\<exists>k \<le> 200. \<exists>r.
    mine_blocks L during blocks s = (r, fold during [0..<k] (triggered L blocks s)) \<and>
    mt_pending (triggers (rpc_mining (triggered L blocks s))) =
      mt_pending (triggers (rpc_mining s)) + blocks \<and>
    (case r of
       Inl e \<Rightarrow> k = 200 \<or> isl (l_best_block_number L (rpc_world (fold during [0..<k] (triggered L blocks s))))
     | Inr ns \<Rightarrow>
         ns = map (\<lambda>i. start + 1 + of_nat i) [0..<unat blocks] \<and>
         (\<exists>n. l_best_block_number L (rpc_world (fold during [0..<k] (triggered L blocks s))) = Inr n \<and>
              start + blocks \<le> n))"
proof -
  let ?t = "triggered L blocks s" and ?e = "sat_add start blocks"
  let ?at = "\<lambda>k. fold during [0..<k] ?t"
  have e: "?e = start + blocks"
    using assms(3) by (simp add: sat_add_def)
  have pend: "mt_pending (triggers (rpc_mining ?t)) = mt_pending (triggers (rpc_mining s)) + blocks"
    by (simp add: triggered_def trigger_funpow_pending)
  have unfold: "mine_blocks L during blocks s =
      (case wait_for_block_number L during ?e ?t of (r, s') \<Rightarrow>
        (map_sum id (\<lambda>_. map (\<lambda>i. start + 1 + of_nat i) [0..<unat blocks]) r, s'))"
    unfolding mine_blocks_unfold [OF assms(1,2)] mined_range [OF assms(1,3)] ..
  show ?thesis
  proof (cases "find (\<lambda>k. poll_ends L ?e (?at k)) [0..<200]")
    case None
    then show ?thesis
      using pend by (intro exI [of _ 200])
        (simp add: unfold wait_for_block_number_def wait_rounds_find after_sleeps_def)
  next
    case (Some k)
    then have k: "k < 200" "poll_ends L ?e (?at k)"
      by (auto dest: find_upt_SomeD)
    then have ends: "case l_best_block_number L (rpc_world (?at k)) of Inl _ \<Rightarrow> True | Inr n \<Rightarrow> start + blocks \<le> n"
      by (simp add: poll_ends_def e)
    show ?thesis
      using pend k(1) Some ends
      by (intro exI [of _ k])
        (auto simp: unfold wait_for_block_number_def wait_rounds_find after_sleeps_def poll_answer_def
          split: sum.splits)
  qed
qed

theorem mine_blocks_answer_witness:
  "mt_pending (triggers (rpc_mining (triggered (demo_lib JNull) 2 (demo_rpc [])))) = 2 \<and>
   (\<exists>k \<le> 200. \<exists>r. mine_blocks (demo_lib JNull) demo_during 2 (demo_rpc []) =
      (r, fold demo_during [0..<k] (triggered (demo_lib JNull) 2 (demo_rpc []))))"
proof -
  have "mt_pending (triggers (rpc_mining (demo_rpc []))) = 0"
    by (simp add: mining_controller_default_def mining_triggers_default_def)
  then show ?thesis
    using mine_blocks_answer [of 2 "demo_lib JNull" "demo_rpc []" 10 demo_during] by auto
qed

lemma set_interval_fields:
  "set_block_timestamp_interval p tm = tm\<lparr>tm_interval := Some p\<rparr>"
  "snd (remove_block_timestamp_interval tm) = tm\<lparr>tm_interval := None\<rparr>"
  by (simp_all add: set_block_timestamp_interval_def remove_block_timestamp_interval_def)

lemma anvil_mine_state:
  fixes s :: "('w, 'n, 'bc, 'x) anvil_rpc"
  obtains "snd (anvil_mine L during n i s) = s"
    | blocks where "snd (anvil_mine L during n i s) = snd (mine_blocks L during blocks s)"
    | blocks secs s2 where
      "s2 = snd (mine_blocks L during blocks (s\<lparr>rpc_time := (rpc_time s)\<lparr>tm_interval := Some secs\<rparr>\<rparr>))"
      "snd (anvil_mine L during n i s) =
        s2\<lparr>rpc_time := (rpc_time s2)\<lparr>tm_interval := tm_interval (rpc_time s)\<rparr>\<rparr>"
proof (cases "to_u64 (case n of Some n \<Rightarrow> n | None \<Rightarrow> 1)")
  case None
  then show thesis using that(1) by (simp add: anvil_mine_def)
next
  case (Some blocks)
  let ?i = "case i of Some i \<Rightarrow> (if i \<noteq> 0 then Some i else None) | None \<Rightarrow> None"
  show thesis
  proof (cases ?i)
    case None
    then have "snd (anvil_mine L during n i s) = snd (mine_blocks L during blocks s)"
      using Some by (simp add: anvil_mine_def split: prod.split sum.split)
    then show thesis by (rule that(2))
  next
    case i: (Some v)
    show thesis
    proof (cases "to_u64 v")
      case None
      then show thesis using that(1) Some i by (simp add: anvil_mine_def)
    next
      case secs: (Some secs)
      let ?s2 = "snd (mine_blocks L during blocks (s\<lparr>rpc_time := (rpc_time s)\<lparr>tm_interval := Some secs\<rparr>\<rparr>))"
      have "snd (anvil_mine L during n i s) =
          ?s2\<lparr>rpc_time := (rpc_time ?s2)\<lparr>tm_interval := tm_interval (rpc_time s)\<rparr>\<rparr>"
        using Some i secs
        by (simp add: anvil_mine_def Let_def set_interval_fields interval_def case_prod_beta
            split: sum.split option.split)
      then show thesis by (rule that(3) [OF refl])
    qed
  qed
qed

text \<open>
  C14: \<open>anvil_mine\<close> with a non-zero interval mines with that block-timestamp interval in place and
  puts the previous setting back afterwards, whether the blocks arrived or the wait failed
  and whatever other calls did to the time manager meanwhile; without an interval it is just
  \<open>mine_blocks\<close>, of one block by default.
\<close>

theorem anvil_mine_restores_interval:
  assumes "to_u64 (case num_blocks of Some n \<Rightarrow> n | None \<Rightarrow> 1) = Some blocks"
  shows "(v \<noteq> 0 \<and> to_u64 v = Some secs \<longrightarrow>
      (\<exists>r s2. mine_blocks L during blocks
          (s\<lparr>rpc_time := (rpc_time s)\<lparr>tm_interval := Some secs\<rparr>\<rparr>) = (r, s2) \<and>
        anvil_mine L during num_blocks (Some v) s =
          ((case r of Inl e \<Rightarrow> Err e | Inr _ \<Rightarrow> Ok ()),
           s2\<lparr>rpc_time := (rpc_time s2)\<lparr>tm_interval := interval (rpc_time s)\<rparr>\<rparr>))) \<and>
    (i = None \<or> i = Some 0 \<longrightarrow>
      anvil_mine L during num_blocks i s =
        ((case fst (mine_blocks L during blocks s) of Inl e \<Rightarrow> Err e | Inr _ \<Rightarrow> Ok ()),
         snd (mine_blocks L during blocks s)))"
  using assms
  by (auto simp: anvil_mine_def Let_def set_interval_fields interval_def
      split: prod.split sum.split option.split)

theorem anvil_mine_restores_interval_witness:
  "interval (rpc_time (snd (anvil_mine (demo_lib JNull) demo_during None (Some 12) (demo_rpc [])))) = None"
proof -
  have "to_u64 (case None of Some n \<Rightarrow> n | None \<Rightarrow> 1) = Some 1" "to_u64 12 = Some 12"
    by (simp_all add: to_u64_def)
  then show ?thesis
    using anvil_mine_restores_interval [of None 1 12 12 "demo_lib JNull" demo_during "demo_rpc []" None]
    by (auto simp: new_time_manager_def reset_def interval_def)
qed

text \<open>
  Switching automine on mines at once what is already in the pool: one trigger if a
  transaction is pending, none otherwise; switching it off never triggers. The mode
  afterwards is the one the mode machine gives.
\<close>

theorem set_automine_triggers_pending:
  assumes "watch_laws (l_watch L)"
  shows "fst (anvil_set_automine L enabled s) = Ok () \<and>
    (let s' = snd (anvil_set_automine L enabled s)
     in mode (l_watch L) (rpc_mining s') = spec_mode (SetAutomine enabled) (mode (l_watch L) (rpc_mining s)) \<and>
        mt_pending (triggers (rpc_mining s')) = mt_pending (triggers (rpc_mining s)) +
          (if enabled \<and> 0 < fst (l_pending_and_queued_txn_count L (rpc_world s)) then 1 else 0))"
  using mode_exec [OF assms, of _ "SetAutomine enabled" "rpc_mining s"]
  by (cases enabled) (simp_all add: anvil_set_automine_def Let_def)

theorem set_automine_triggers_pending_witness:
  "mt_pending (triggers (rpc_mining (snd (anvil_set_automine (demo_lib JNull) True (demo_rpc [(1, 2)]))))) = 1"
  using set_automine_triggers_pending [of "demo_lib JNull" True "demo_rpc [(1, 2)]"]
  by (simp add: demo_watch_laws Let_def mining_controller_default_def mining_triggers_default_def)

lemma fetch_blocks_Inr:
  "fetch_blocks fetch ns = Inr bs \<longleftrightarrow> list_all2 (\<lambda>n b. fetch n = Inr (Some b)) ns bs"
proof (induction ns arbitrary: bs)
  case Nil
  show ?case by auto
next
  case (Cons n ns)
  show ?case
  proof (cases "fetch n")
    case (Inl e)
    then show ?thesis by (auto simp: list_all2_Cons1)
  next
    case (Inr r)
    then show ?thesis
      using Cons.IH
      by (cases r; cases "fetch_blocks fetch ns")
        (auto simp: list_all2_Cons1 split: option.splits)
  qed
qed

text \<open>
  \<open>anvil_mine_detailed\<close> refuses a timestamp before the last block with an invalid-params
  error and without mining; otherwise it mines with the timestamp pinned, and a successful
  answer is, block by block, what the chain has under the mined numbers, in order.
\<close>

theorem mine_detailed_answer:
  shows "(t < last_timestamp (rpc_time s) \<longrightarrow>
      anvil_mine_detailed L during (Some (Options (Some t) b)) s =
        (Err (invalid_params (timestamp_error t)), s)) \<and>
    (\<not> t < last_timestamp (rpc_time s) \<and>
     anvil_mine_detailed L during (Some (Options (Some t) b)) s = (Ok bs, s') \<longrightarrow>
      (\<exists>ns. mine_blocks L during (case b of Some n \<Rightarrow> n | None \<Rightarrow> 1)
          (s\<lparr>rpc_time := (rpc_time s)\<lparr>next_exact_timestamp := Some t\<rparr>\<rparr>) = (Inr ns, s') \<and>
        list_all2 (\<lambda>n blk. eth_block_by_number (l_eth L) s' (Number n) True = Inr (Some blk)) ns bs))"
proof (intro conjI impI)
  show "anvil_mine_detailed L during (Some (Options (Some t) b)) s =
      (Err (invalid_params (timestamp_error t)), s)" if "t < last_timestamp (rpc_time s)"
    using that by (simp add: anvil_mine_detailed_def set_next_block_timestamp_def)
  show "\<exists>ns. mine_blocks L during (case b of Some n \<Rightarrow> n | None \<Rightarrow> 1)
          (s\<lparr>rpc_time := (rpc_time s)\<lparr>next_exact_timestamp := Some t\<rparr>\<rparr>) = (Inr ns, s') \<and>
        list_all2 (\<lambda>n blk. eth_block_by_number (l_eth L) s' (Number n) True = Inr (Some blk)) ns bs"
    if "\<not> t < last_timestamp (rpc_time s) \<and>
     anvil_mine_detailed L during (Some (Options (Some t) b)) s = (Ok bs, s')"
    using that
    by (auto simp: anvil_mine_detailed_def set_next_block_timestamp_def fetch_blocks_Inr
        bs_block_by_number_full_def split: prod.splits sum.splits)
qed

theorem mine_detailed_answer_witness:
  "anvil_mine_detailed (demo_lib JNull) demo_during (Some (Options (Some 999) None)) (demo_rpc []) =
     (Err (invalid_params (timestamp_error 999)), demo_rpc [])"
  using mine_detailed_answer [of 999 "demo_rpc []" "demo_lib JNull" demo_during None]
  by (simp add: new_time_manager_def reset_def)

end
