(* ===== verification/Rpc_Accounts.thy ===== *)
theory Rpc_Accounts
  imports Rpc_Instance
begin

text \<open>
  The handlers that read and write accounts and block parameters (src/src/anvil_api.rs):
  their reads against the overlay the \<open>eth_*\<close> handlers see, the accumulation of
  \<open>anvil_addBalance\<close>, and what happens to numbers that do not fit 64 bits.
\<close>

section \<open>Account reads\<close>

lemma account_nonce_view:
  "sp_basic_account inner a = l_basic_account L (rpc_world s) a \<Longrightarrow>
   account_nonce L s a =
     map_sum (\<lambda>e. internal_error (''failed to read account: '' @ e)) acc_nonce
       (read_account (anvil_state_provider (anvil_state_of s) inner) a)"
  unfolding read_account_overlay
  by (auto simp: account_nonce_def apply_overrides_def local_nonce_def read_account_def Let_def
      split: sum.split option.split)

lemma account_balance_view:
  "sp_basic_account inner a = l_basic_account L (rpc_world s) a \<Longrightarrow>
   read_account (anvil_state_provider (anvil_state_of s) inner) a = Inr acc \<Longrightarrow>
   account_balance L s a = Inr (acc_balance acc)"
  unfolding read_account_overlay
  by (auto simp: account_balance_def apply_overrides_def local_balance_def read_account_def
      split: sum.splits option.splits)

lemma account_balance_local:
  "account_balance L s a =
     (case local_balance (anvil_state_of s) a of
        Some b \<Rightarrow> Inr b
      | None \<Rightarrow> map_sum (\<lambda>e. internal_error (''failed to read account: '' @ e))
          (\<lambda>found. acc_balance (case found of Some x \<Rightarrow> x | None \<Rightarrow> acct_default))
          (l_basic_account L (rpc_world s) a))"
  by (auto simp: account_balance_def local_balance_def split: option.split sum.split)

lemma balance_after_set:
  "account_balance L (upd_anvil_state (set_balance a v) s) a' =
     (if a' = a then Inr v else account_balance L s a')"
  by (auto simp: account_balance_local store.bal_set_bal split: option.split)

lemma add_balance_run:
  "account_balance L s a = Inr b \<Longrightarrow>
     (let (rs, s') = runs (anvil_add_balance L a) xs s
      in rs = replicate (length xs) (Ok ()) \<and>
         account_balance L s' a = Inr (foldl sat_add b xs) \<and>
         (a' \<noteq> a \<longrightarrow> account_balance L s' a' = account_balance L s a'))"
proof (induction xs arbitrary: s b)
  case Nil
  then show ?case by simp
next
  case (Cons x xs)
  let ?s = "upd_anvil_state (set_balance a (sat_add b x)) s"
  have step: "anvil_add_balance L a x s = (Ok (), ?s)"
    using Cons.prems by (simp add: anvil_add_balance_def)
  have "account_balance L ?s a = Inr (sat_add b x)"
    by (simp add: balance_after_set)
  from Cons.IH [OF this] show ?case
    by (auto simp: runs_Cons step balance_after_set case_prod_beta Let_def)
qed

lemma unat_foldl_sat_add:
  "unat (foldl sat_add b xs) = min (unat b + sum_list (map unat xs)) (2 ^ LENGTH('a) - 1)"
  for b :: "'a::len word"
proof (induction xs arbitrary: b)
  case Nil
  have "unat b \<le> 2 ^ LENGTH('a) - 1"
    using unat_bound [of b] by linarith
  then show ?case by (simp add: min_absorb1)
next
  case (Cons x xs)
  show ?case
    by (simp add: Cons.IH unat_sat_add)
qed

section \<open>Numbers that do not fit\<close>

lemma u64_max_less: "ucast (- 1 :: u64) < (x :: u256) \<longleftrightarrow> 2 ^ 64 \<le> unat x"
proof -
  have "unat (ucast (- 1 :: u64) :: u256) = 2 ^ 64 - 1"
    by (simp add: unsigned_ucast_eq unat_max take_bit_nat_eq_self)
  then show ?thesis
    unfolding word_less_nat_alt by auto
qed

lemma to_u64_fits: "unat x < 2 ^ 64 \<Longrightarrow> to_u64 x = Some (ucast x)"
  by (simp add: to_u64_def)

section \<open>Properties\<close>

text \<open>
  C23: The account reads of the handlers agree with what the \<open>eth_*\<close> handlers see through the
  overlay: the nonce always, errors included; the balance whenever the overlay can be read
  (an overridden balance is answered even when the provider fails).
\<close>

theorem rpc_reads_match_overlay:
  assumes "sp_basic_account inner a = l_basic_account L (rpc_world s) a"
  shows "account_nonce L s a =
      map_sum (\<lambda>e. internal_error (''failed to read account: '' @ e)) acc_nonce
        (account_view (anvil_state_of s) inner a) \<and>
    (case account_view (anvil_state_of s) inner a of
       Inr acc \<Rightarrow> account_balance L s a = Inr (acc_balance acc)
     | Inl e \<Rightarrow> account_balance L s a =
         (case local_balance (anvil_state_of s) a of
            Some b \<Rightarrow> Inr b
          | None \<Rightarrow> Inl (internal_error (''failed to read account: '' @ e))))"
proof
  have view: "account_view (anvil_state_of s) inner a =
      read_account (anvil_state_provider (anvil_state_of s) inner) a"
    by (simp add: account_view_def read_account_def)
  show "account_nonce L s a =
      map_sum (\<lambda>e. internal_error (''failed to read account: '' @ e)) acc_nonce
        (account_view (anvil_state_of s) inner a)"
    using account_nonce_view [OF assms] view by simp
  show "case account_view (anvil_state_of s) inner a of
       Inr acc \<Rightarrow> account_balance L s a = Inr (acc_balance acc)
     | Inl e \<Rightarrow> account_balance L s a =
         (case local_balance (anvil_state_of s) a of
            Some b \<Rightarrow> Inr b
          | None \<Rightarrow> Inl (internal_error (''failed to read account: '' @ e)))"
  proof (cases "l_basic_account L (rpc_world s) a")
    case (Inl e)
    then show ?thesis
      using assms by (auto simp: account_view_overrides account_balance_local split: option.split)
  next
    case (Inr found)
    then have "account_view (anvil_state_of s) inner a = Inr (apply_overrides (anvil_state_of s) a
        (case found of Some x \<Rightarrow> x | None \<Rightarrow> acct_default))"
      using assms by (simp add: account_view_overrides)
    then show ?thesis
      using account_balance_view [OF assms] by (simp add: view)
  qed
qed

theorem rpc_reads_match_overlay_witness:
  "account_nonce (demo_lib JNull) (upd_anvil_state (set_balance 5 3) (demo_rpc [])) 5 = Inr 1 \<and>
   account_balance (demo_lib JNull) (upd_anvil_state (set_balance 5 3) (demo_rpc [])) 5 = Inr 3"
proof -
  let ?s = "upd_anvil_state (set_balance 5 3) (demo_rpc [])"
  have base: "account_view (anvil_state_of ?s) demo_provider 5 =
      Inr \<lparr>acc_nonce = 1, acc_balance = 3, acc_bytecode_hash = None\<rparr>"
    by (simp add: account_view_overrides apply_overrides_def demo_provider_def
        anvil_state_shared_def anvil_state_defs hm_entry_def account_override_default_def)
  have "sp_basic_account demo_provider 5 = l_basic_account (demo_lib JNull) (rpc_world ?s) 5"
    by simp
  from rpc_reads_match_overlay [OF this] show ?thesis
    unfolding base by simp
qed

text \<open>
  C22: Repeated \<open>anvil_addBalance\<close> calls on an account whose balance can be read all succeed and
  add up, stopping at the largest balance instead of wrapping; no other account's balance
  moves.
\<close>

theorem add_balance_accumulates:
  assumes "account_balance L s a = Inr b"
  shows "fst (runs (anvil_add_balance L a) xs s) = replicate (length xs) (Ok ()) \<and>
    (\<exists>b'. account_balance L (snd (runs (anvil_add_balance L a) xs s)) a = Inr b' \<and>
       unat b' = min (unat b + sum_list (map unat xs)) (2 ^ 256 - 1)) \<and>
    (a' \<noteq> a \<longrightarrow> account_balance L (snd (runs (anvil_add_balance L a) xs s)) a' =
       account_balance L s a')"
  using add_balance_run [OF assms, of xs a'] unat_foldl_sat_add [of b xs]
  by (auto simp: case_prod_beta Let_def)

theorem add_balance_accumulates_witness:
  "account_balance (demo_lib JNull)
     (snd (runs (anvil_add_balance (demo_lib JNull) 5) [10, - 1] (demo_rpc []))) 5 = Inr (- 1)"
proof -
  have "account_balance (demo_lib JNull) (demo_rpc []) 5 = Inr 100"
    by (simp add: account_balance_local demo_provider_def anvil_state_shared_def anvil_state_defs)
  from add_balance_accumulates [OF this, of "[10, - 1]"]
  obtain b' where "account_balance (demo_lib JNull)
      (snd (runs (anvil_add_balance (demo_lib JNull) 5) [10, - 1] (demo_rpc []))) 5 = Inr b'"
    and "unat b' = 2 ^ 256 - 1"
    by (auto simp: unat_max)
  moreover from this have "b' = - 1"
    by (simp add: word_unat_eq_iff unat_max)
  ultimately show ?thesis by simp
qed

text \<open>
  C24: Numbers above \<open>u64::MAX\<close>: the setters of nonce, gas limit and base fee refuse them with
  an invalid-params error and change nothing, but \<open>anvil_mine\<close> (either argument) and
  \<open>anvil_increaseTime\<close> panic. Numbers that fit are stored as they are.
\<close>

theorem oversized_numbers:
  "(2 ^ 64 \<le> unat x \<longrightarrow>
      anvil_set_nonce a x s = (Err (invalid_params ''nonce exceeds u64::MAX''), s) \<and>
      anvil_set_block_gas_limit x s = (Err (invalid_params ''gas_limit exceeds u64::MAX''), s) \<and>
      anvil_set_next_block_base_fee_per_gas x s =
        (Err (invalid_params ''base_fee exceeds u64::MAX''), s) \<and>
      fst (anvil_mine L during (Some x) i s) = Panic \<and>
      fst (anvil_mine L during None (Some x) s) = Panic \<and>
      fst (anvil_increase_time x s) = Panic) \<and>
   (unat x < 2 ^ 64 \<longrightarrow>
      local_nonce (anvil_state_of (snd (anvil_set_nonce a x s))) a = Some (ucast x) \<and>
      gas_limit (block_env_of (snd (anvil_set_block_gas_limit x s))) = Some (ucast x) \<and>
      fst (take_next_base_fee (block_env_of (snd (anvil_set_next_block_base_fee_per_gas x s)))) =
        Some (ucast x))"
proof (intro conjI impI)
  assume big: "2 ^ 64 \<le> unat x"
  then have none: "to_u64 x = None" and less: "ucast (- 1 :: u64) < x"
    by (simp_all only: to_u64_None u64_max_less)
  show "anvil_set_nonce a x s = (Err (invalid_params ''nonce exceeds u64::MAX''), s)"
    "anvil_set_block_gas_limit x s = (Err (invalid_params ''gas_limit exceeds u64::MAX''), s)"
    "anvil_set_next_block_base_fee_per_gas x s =
      (Err (invalid_params ''base_fee exceeds u64::MAX''), s)"
    unfolding anvil_set_nonce_def anvil_set_block_gas_limit_def rpc_set_block_gas_limit_def
      anvil_set_next_block_base_fee_per_gas_def
    by (simp_all only: less if_True)
  have one: "to_u64 1 = Some 1" and "x \<noteq> 0"
    using big by (auto simp: to_u64_def)
  then show "fst (anvil_mine L during (Some x) i s) = Panic"
    "fst (anvil_mine L during None (Some x) s) = Panic"
    "fst (anvil_increase_time x s) = Panic"
    by (simp_all add: anvil_mine_def anvil_increase_time_def none)
next
  assume "unat x < 2 ^ 64"
  then have "to_u64 x = Some (ucast x)" and "\<not> ucast (- 1 :: u64) < x"
    by (simp_all only: to_u64_fits u64_max_less not_le)
  then show "local_nonce (anvil_state_of (snd (anvil_set_nonce a x s))) a = Some (ucast x)"
    "gas_limit (block_env_of (snd (anvil_set_block_gas_limit x s))) = Some (ucast x)"
    "fst (take_next_base_fee (block_env_of (snd (anvil_set_next_block_base_fee_per_gas x s)))) =
      Some (ucast x)"
    unfolding anvil_set_nonce_def anvil_set_block_gas_limit_def rpc_set_block_gas_limit_def
      anvil_set_next_block_base_fee_per_gas_def
    by (simp_all add: store.non_set_non)
qed

theorem oversized_numbers_witness:
  "fst (anvil_mine (demo_lib JNull) demo_during (Some (- 1)) None (demo_rpc [])) = Panic \<and>
   fst (anvil_set_nonce 5 (- 1) (demo_rpc [])) = Err (invalid_params ''nonce exceeds u64::MAX'') \<and>
   gas_limit (block_env_of (snd (anvil_set_block_gas_limit 7 (demo_rpc [])))) = Some 7"
proof -
  have "(2::nat) ^ 64 \<le> unat (- 1 :: u256)" and "unat (7 :: u256) < 2 ^ 64"
    by (simp_all add: unat_max)
  then show ?thesis
    using oversized_numbers [of "- 1" 5 "demo_rpc []" "demo_lib JNull" demo_during None]
      oversized_numbers [of 7 5 "demo_rpc []" "demo_lib JNull" demo_during None]
    by simp
qed

end
