(* ===== verification/Rpc_Dump.thy ===== *)
theory Rpc_Dump
  imports Rpc_Accounts
begin

text \<open>
  \<open>anvil_dumpState\<close> and \<open>anvil_loadState\<close> (src/src/anvil_api.rs): what a load does to every
  read of the local state, what it leaves behind when it fails, and that a dump loaded into
  another node makes the \<open>eth_*\<close> handlers of that node see what the first one showed.
\<close>

section \<open>Loading accounts\<close>

lemma account_nonce_cong:
  "rpc_world s = rpc_world s' \<Longrightarrow> local_nonce (anvil_state_of s) a = local_nonce (anvil_state_of s') a \<Longrightarrow>
     account_nonce L s a = account_nonce L s' a"
  by (auto simp: account_nonce_def local_nonce_def Let_def split: sum.split)

lemma load_account_reads:
  assumes "load_account L a r s = (Ok (), s')" and "bt_wf (sr_storage r)"
  obtains cur st where "account_nonce L s a = Inr cur"
    and "s' = upd_anvil_state (\<lambda>_. st) s"
    and "\<And>a'. local_balance st a' =
      (if a' = a then Some (sr_balance r) else local_balance (anvil_state_of s) a')"
    and "\<And>a'. local_nonce st a' =
      (if a' = a then Some (max cur (sr_nonce r)) else local_nonce (anvil_state_of s) a')"
    and "\<And>a'. local_code_hash st a' =
      (if a' = a then Some (code_hash_of (l_code L) (sr_code r))
       else local_code_hash (anvil_state_of s) a')"
    and "\<And>a' k. local_storage st a' k =
      (if a' = a then (case bt_get (sr_storage r) k of
                         Some v \<Rightarrow> Some v | None \<Rightarrow> local_storage (anvil_state_of s) a k)
       else local_storage (anvil_state_of s) a' k)"
proof -
  obtain cur where cur: "account_nonce L s a = Inr cur"
    using assms(1) by (cases "account_nonce L s a") (auto simp: load_account_def)
  let ?st1 = "set_nonce a (max cur (sr_nonce r)) (set_balance a (sr_balance r) (anvil_state_of s))"
  obtain st2 where code: "set_code (l_code L) a (sr_code r) ?st1 = Some st2"
    using assms(1) cur
    by (cases "set_code (l_code L) a (sr_code r) ?st1") (simp_all add: load_account_def Let_def)
  let ?st = "fold (\<lambda>(slot, value). set_storage_at a slot value) (sr_storage r) st2"
  have s': "s' = upd_anvil_state (\<lambda>_. ?st) s"
    using assms(1) cur code by (simp add: load_account_def Let_def)
  have rev_eq: "map_of (rev (sr_storage r)) = map_of (sr_storage r)"
    using bt_wf_distinct [OF assms(2)]
    by (intro map_of_inject_set [THEN iffD2]) (auto simp: rev_map [symmetric])
  have hash: "local_code_hash (fold (\<lambda>(k, v). set_storage_at a k v) kvs x) = local_code_hash x"
    for kvs x by (induction kvs arbitrary: x) auto
  note reads = set_code_reads [OF code]
  show thesis
  proof (rule that [OF cur s'])
    show "local_balance ?st a' = (if a' = a then Some (sr_balance r) else local_balance (anvil_state_of s) a')" for a'
      by (simp add: store.fold_set_sto_frame reads store.bal_frame store.bal_set_bal)
    show "local_nonce ?st a' =
      (if a' = a then Some (max cur (sr_nonce r)) else local_nonce (anvil_state_of s) a')" for a'
      by (simp add: store.fold_set_sto_frame reads store.non_frame store.non_set_non)
    show "local_code_hash ?st a' = (if a' = a then Some (code_hash_of (l_code L) (sr_code r))
       else local_code_hash (anvil_state_of s) a')" for a'
      by (simp add: hash reads)
    show "local_storage ?st a' k =
      (if a' = a then (case bt_get (sr_storage r) k of
                         Some v \<Rightarrow> Some v | None \<Rightarrow> local_storage (anvil_state_of s) a k)
       else local_storage (anvil_state_of s) a' k)" for a' k
      by (auto simp: store.sto_fold_set_sto reads store.sto_frame rev_eq split: option.split)
  qed
qed

lemma load_accounts_Cons_Ok:
  assumes "load_accounts L ((a, r) # accs) s = (Ok b, s')"
  obtains s1 where "load_account L a r s = (Ok (), s1)" and "load_accounts L accs s1 = (Ok b, s')"
  using assms by (auto split: prod.splits outcome.splits)

text \<open>The reads after a load, from the records loaded and the reads before.\<close>

lemma load_accounts_reads:
  assumes "load_accounts L accs s = (Ok b, s')" and "distinct (map fst accs)"
    and "list_all (\<lambda>(a, r). bt_wf (sr_storage r)) accs"
  shows "local_balance (anvil_state_of s') a =
      (case map_of accs a of
         Some r \<Rightarrow> Some (sr_balance r) | None \<Rightarrow> local_balance (anvil_state_of s) a) \<and>
    (case map_of accs a of
       Some r \<Rightarrow> \<exists>cur. account_nonce L s a = Inr cur \<and>
         local_nonce (anvil_state_of s') a = Some (max cur (sr_nonce r))
     | None \<Rightarrow> local_nonce (anvil_state_of s') a = local_nonce (anvil_state_of s) a) \<and>
    local_code_hash (anvil_state_of s') a =
      (case map_of accs a of
         Some r \<Rightarrow> Some (code_hash_of (l_code L) (sr_code r))
       | None \<Rightarrow> local_code_hash (anvil_state_of s) a) \<and>
    local_storage (anvil_state_of s') a k =
      (case Option.bind (map_of accs a) (\<lambda>r. bt_get (sr_storage r) k) of
         Some v \<Rightarrow> Some v | None \<Rightarrow> local_storage (anvil_state_of s) a k)"
  using assms
proof (induction accs arbitrary: s)
  case Nil
  then show ?case by auto
next
  case (Cons ar accs)
  obtain a0 r where ar: "ar = (a0, r)" by (cases ar)
  obtain s1 where head: "load_account L a0 r s = (Ok (), s1)" and tail: "load_accounts L accs s1 = (Ok b, s')"
    using Cons.prems(1) unfolding ar by (rule load_accounts_Cons_Ok)
  have wf: "bt_wf (sr_storage r)" and dist: "distinct (map fst accs)" "map_of accs a0 = None"
    and wfs: "list_all (\<lambda>(a, r). bt_wf (sr_storage r)) accs"
    using Cons.prems(2,3) by (auto simp: ar map_of_eq_None_iff)
  from head wf obtain cur st where st: "account_nonce L s a0 = Inr cur"
    "s1 = upd_anvil_state (\<lambda>_. st) s"
    "\<And>a'. local_balance st a' =
      (if a' = a0 then Some (sr_balance r) else local_balance (anvil_state_of s) a')"
    "\<And>a'. local_nonce st a' =
      (if a' = a0 then Some (max cur (sr_nonce r)) else local_nonce (anvil_state_of s) a')"
    "\<And>a'. local_code_hash st a' =
      (if a' = a0 then Some (code_hash_of (l_code L) (sr_code r))
       else local_code_hash (anvil_state_of s) a')"
    "\<And>a' k. local_storage st a' k =
      (if a' = a0 then (case bt_get (sr_storage r) k of
                         Some v \<Rightarrow> Some v | None \<Rightarrow> local_storage (anvil_state_of s) a0 k)
       else local_storage (anvil_state_of s) a' k)"
    by (rule load_account_reads) blast
  have s1: "anvil_state_of s1 = st" "rpc_world s1 = rpc_world s"
    using st(2) by simp_all
  note IH = Cons.IH [OF tail dist(1) wfs]
  show ?case
  proof (cases "a = a0")
    case True
    with IH dist(2) st(1,3-6) s1(1) show ?thesis
      by (simp add: ar split: option.split)
  next
    case False
    then have "account_nonce L s1 a = account_nonce L s a"
      by (intro account_nonce_cong) (simp_all add: s1 st(4))
    with IH False st(3-6) s1(1) show ?thesis
      by (simp add: ar cong: option.case_cong)
  qed
qed

lemma load_account_frame:
  "snd (load_account L a r s) = upd_anvil_state (\<lambda>_. anvil_state_of (snd (load_account L a r s))) s"
proof -
  have "s = upd_anvil_state (\<lambda>_. anvil_state_of s) s"
    by (simp add: upd_anvil_state_def)
  then show ?thesis
    by (auto simp: load_account_def Let_def split: sum.split option.split)
qed

lemma upd_anvil_state_twice [simp]:
  "upd_anvil_state f (upd_anvil_state g s) = upd_anvil_state (f \<circ> g) s"
  by (simp add: upd_anvil_state_def)

lemma load_accounts_frame:
  "snd (load_accounts L accs s) = upd_anvil_state (\<lambda>_. anvil_state_of (snd (load_accounts L accs s))) s"
proof (induction accs arbitrary: s)
  case Nil
  show ?case by (simp add: upd_anvil_state_def)
next
  case (Cons ar accs)
  obtain a r where ar: "ar = (a, r)" by (cases ar)
  obtain o' s1 where head: "load_account L a r s = (o', s1)" by (cases "load_account L a r s")
  have s1: "s1 = upd_anvil_state (\<lambda>_. anvil_state_of s1) s"
    using load_account_frame [of L a r s] head by simp
  have upd: "upd_anvil_state (\<lambda>_. x) s1 = upd_anvil_state (\<lambda>_. x) s" for x
    by (subst s1) (simp add: comp_def)
  show ?case
  proof (cases o')
    case (Ok u)
    then show ?thesis
      using Cons.IH [of s1] unfolding upd by (simp add: ar head)
  next
    case (Err e)
    then show ?thesis using s1 by (simp only: ar head load_accounts.simps prod.case outcome.case snd_conv)
  next
    case Panic
    then show ?thesis using s1 by (simp only: ar head load_accounts.simps prod.case outcome.case snd_conv)
  qed
qed

lemma as_wf_load_account [wf_intros]:
  assumes "code_laws (l_code L)" and "as_wf (l_code L) (anvil_state_of s)"
  shows "as_wf (l_code L) (anvil_state_of (snd (load_account L a r s)))"
proof (cases "account_nonce L s a")
  case (Inl e)
  with assms(2) show ?thesis by (simp add: load_account_def)
next
  case (Inr cur)
  let ?st1 = "set_nonce a (max cur (sr_nonce r)) (set_balance a (sr_balance r) (anvil_state_of s))"
  have st1: "as_wf (l_code L) ?st1"
    by (intro as_wf_set_nonce as_wf_set_balance assms(2))
  show ?thesis
  proof (cases "set_code (l_code L) a (sr_code r) ?st1")
    case None
    with Inr st1 show ?thesis by (simp add: load_account_def Let_def)
  next
    case (Some st2)
    then have "as_wf (l_code L) st2" by (rule as_wf_set_code [OF assms(1) st1])
    with Inr Some show ?thesis
      by (simp add: load_account_def Let_def as_wf_fold_storage)
  qed
qed

lemma as_wf_load_accounts [wf_intros]:
  assumes "code_laws (l_code L)"
  shows "as_wf (l_code L) (anvil_state_of s) \<Longrightarrow>
    as_wf (l_code L) (anvil_state_of (snd (load_accounts L accs s)))"
proof (induction accs arbitrary: s)
  case (Cons ar accs)
  obtain a r where ar: "ar = (a, r)" by (cases ar)
  have "as_wf (l_code L) (anvil_state_of (snd (load_account L a r s)))"
    by (rule as_wf_load_account [OF assms Cons.prems])
  then show ?case
    using Cons.IH by (auto simp: ar split: prod.split outcome.split)
qed simp

lemma load_accounts_append:
  "load_accounts L (xs @ ys) s =
     (case load_accounts L xs s of
        (Ok _, s') \<Rightarrow> load_accounts L ys s' | (Err e, s') \<Rightarrow> (Err e, s') | (Panic, s') \<Rightarrow> (Panic, s'))"
  by (induction xs arbitrary: s) (auto split: prod.split outcome.split)

section \<open>Properties\<close>

text \<open>
  C12: A successful \<open>anvil_loadState\<close> overrides, for every account of the dump, the balance, the
  code and the listed slots with those of its record, and the nonce with the larger of the
  record's and the current one; every other account, and every slot a record does not list,
  reads as before, and nothing but the local state changes.
\<close>

theorem load_state_effect:
  assumes "load_state L buf s = (Ok b, s')"
  shows "\<exists>st. decode (l_leaf L) (l_dump L) buf = Inr st \<and>
    s' = upd_anvil_state (\<lambda>_. anvil_state_of s') s \<and>
    local_balance (anvil_state_of s') a =
      (case bt_get (ss_accounts st) a of
         Some r \<Rightarrow> Some (sr_balance r) | None \<Rightarrow> local_balance (anvil_state_of s) a) \<and>
    (case bt_get (ss_accounts st) a of
       Some r \<Rightarrow> \<exists>cur. account_nonce L s a = Inr cur \<and>
         local_nonce (anvil_state_of s') a = Some (max cur (sr_nonce r))
     | None \<Rightarrow> local_nonce (anvil_state_of s') a = local_nonce (anvil_state_of s) a) \<and>
    local_code_hash (anvil_state_of s') a =
      (case bt_get (ss_accounts st) a of
         Some r \<Rightarrow> Some (code_hash_of (l_code L) (sr_code r))
       | None \<Rightarrow> local_code_hash (anvil_state_of s) a) \<and>
    local_storage (anvil_state_of s') a k =
      (case Option.bind (bt_get (ss_accounts st) a) (\<lambda>r. bt_get (sr_storage r) k) of
         Some v \<Rightarrow> Some v | None \<Rightarrow> local_storage (anvil_state_of s) a k)"
proof -
  obtain st where st: "decode (l_leaf L) (l_dump L) buf = Inr st"
    "load_accounts L (ss_accounts st) s = (Ok b, s')"
    using assms by (auto simp: load_state_def split: sum.splits)
  have "dump_wf st" using st(1) by (rule decode_dump_wf)
  then have wf: "distinct (map fst (ss_accounts st))"
    "list_all (\<lambda>(a, r). bt_wf (sr_storage r)) (ss_accounts st)"
    by (simp_all add: dump_wf_def bt_wf_distinct)
  have "s' = upd_anvil_state (\<lambda>_. anvil_state_of s') s"
    using load_accounts_frame [of L "ss_accounts st" s] by (simp add: st(2))
  with st(1) load_accounts_reads [OF st(2) wf, of a k] show ?thesis
    by blast
qed

text \<open>
  C13: \<open>anvil_loadState\<close> is not atomic: when the account read of some record fails, the answer
  is that error, but the records before it (in address order) stay loaded.
\<close>

theorem load_state_keeps_prefix:
  assumes "decode (l_leaf L) (l_dump L) buf = Inr st"
    and "ss_accounts st = loaded @ (a, r) # rest"
    and "load_accounts L loaded s = (Ok True, s1)"
    and "l_basic_account L (rpc_world s) a = Inl e"
  shows "load_state L buf s =
    (Err (internal_error (''failed to read account: '' @ e)), s1)"
proof -
  have "s1 = upd_anvil_state (\<lambda>_. anvil_state_of s1) s"
    using load_accounts_frame [of L loaded s] by (simp add: assms(3))
  then have "rpc_world s1 = rpc_world s"
    by (metis upd_simps(11))
  then show ?thesis
    using assms by (simp add: load_state_def load_accounts_append load_account_def account_nonce_def)
qed

lemma record_at_from_dump [simp]:
  "record_at (from_dump ds (Some n)) a = record_at (from_dump ds None) a"
  by (simp add: record_at_def from_dump_def)

lemma dump_state_Inr:
  assumes "dump_state L p s = Inr z" and "l_dump_state_collect L (rpc_world s) = Inr ds"
  obtains n where "encode_gzipped (l_leaf L) (l_dump L)
    (merge_anvil_state (l_code L) (anvil_state_of s) (from_dump ds (Some n))) = Inr z"
  using assms by (auto simp: dump_state_def Let_def split: if_splits sum.splits)

lemma drop_nulls_accounts [simp]: "ss_accounts (drop_nulls st) = ss_accounts st"
  by (simp add: drop_nulls_def)

lemma merged_present:
  assumes "as_wf K s" and "account s a \<noteq> None \<or> a \<in> da_address ` set ds"
  shows "bt_get (ss_accounts (merge_anvil_state K s (from_dump ds n))) a =
    Some (record_at (merge_anvil_state K s (from_dump ds n)) a)"
proof -
  have "bt_get (ss_accounts (from_dump ds n)) a \<noteq> None" if "a \<in> da_address ` set ds"
    using that by (simp add: from_dump_def bt_get_collect map_of_eq_None_iff image_image)
  then have "bt_get (ss_accounts (merge_anvil_state K s (from_dump ds n))) a \<noteq> None"
    using assms by (auto simp: merge_lookup as_wf_def split: option.split)
  then show ?thesis by (auto simp: record_at_def)
qed

text \<open>What the dump of a node says of an account, against what its overlay shows.\<close>

lemma dumped_record:
  assumes "as_wf K st" and "list_all (\<lambda>d. bt_wf (da_storage d)) ds"
    and "dump_agrees K inner (from_dump ds None) a"
    and "\<And>h bc. map_sum id acc_bytecode_hash (read_account inner a) = Inr (Some h) \<Longrightarrow>
      local_bytecode_by_hash st h = Some bc \<Longrightarrow> sp_bytecode_by_hash inner h = Inr (Some bc)"
    and "read_account (anvil_state_provider st inner) a = Inr acc"
    and "read_code K (anvil_state_provider st inner) a = Inr code"
    and "m = merge_anvil_state K st (from_dump ds (Some n))"
  shows "dump_wf m" "sr_nonce (record_at m a) = acc_nonce acc" "sr_balance (record_at m a) = acc_balance acc"
    "sr_code (record_at m a) = code"
    "read_slot (anvil_state_provider st inner) a k =
      Inr (case bt_get (sr_storage (record_at m a)) k of Some v \<Rightarrow> v | None \<Rightarrow> 0)"
proof -
  have wf: "dump_wf (from_dump ds (Some n))"
    by (rule dump_wf_from_dump) (rule assms(2))
  then show "dump_wf m" unfolding assms(7) by (rule dump_wf_merge [OF assms(1)])
  have "dump_agrees K inner (from_dump ds (Some n)) a"
    using assms(3) by (simp add: dump_agrees_def)
  then have "dump_agrees K (anvil_state_provider st inner) m a"
    unfolding assms(7) by (rule merge_agrees [OF assms(1) wf]) (rule assms(4))
  then show "sr_nonce (record_at m a) = acc_nonce acc" "sr_balance (record_at m a) = acc_balance acc"
    "sr_code (record_at m a) = code"
    "read_slot (anvil_state_provider st inner) a k =
      Inr (case bt_get (sr_storage (record_at m a)) k of Some v \<Rightarrow> v | None \<Rightarrow> 0)"
    using assms(5,6) by (simp_all add: dump_agrees_def Let_def)
qed

text \<open>An account whose code hash is overridden shows the code with that hash.\<close>

lemma hashed_code_shows:
  assumes "code_laws K" and "as_wf K st" and "local_code_hash st a = Some (keccak256 K code)"
    and "read_account inner a = Inr base" and "\<And>c. keccak256 K c = keccak256 K code \<Longrightarrow> c = code"
  shows "read_code K (anvil_state_provider st inner) a = Inr code"
proof (cases "keccak256 K code = keccak_empty K")
  case True
  then have "code = []" using assms(1) by (simp add: code_laws_def)
  with True show ?thesis
    by (simp add: read_code_def read_account_overlay assms(4) apply_overrides_def assms(3))
next
  case False
  then obtain bc where "local_bytecode_by_hash st (keccak256 K code) = Some bc"
    "keccak256 K (original_bytes K bc) = keccak256 K code"
    using assms(2,3) by (fastforce simp: as_wf_def)
  with False assms(5) show ?thesis
    by (simp add: read_code_def read_account_overlay assms(4) apply_overrides_def assms(3) bytecode_overlay)
qed

text \<open>
  C4: A dump loaded into another node carries an account over: if the dump of the first node
  agrees with its provider on the account, and the second node has no higher nonce and no
  non-zero slot for it, then after the load the second node's overlay shows the nonce, the
  balance, the code and every slot that the first node's overlay showed. (No other code has
  the hash of this account's code.)
\<close>

theorem dump_load_round_trip:
  fixes inner inner2 :: "(string, 'bc, 'v) state_provider"
  assumes laws: "leaf_laws (l_leaf L)" "dump_codec_laws (l_dump L)" "code_laws (l_code L)"
    and wf: "as_wf (l_code L) (anvil_state_of s)" "as_wf (l_code L) (anvil_state_of s2)"
    and dump: "l_dump_state_collect L (rpc_world s) = Inr ds"
      "list_all (\<lambda>d. bt_wf (da_storage d)) ds"
    and run: "dump_state L p s = Inr z" "load_state L z s2 = (Ok b, s2')"
    and present: "account (anvil_state_of s) a \<noteq> None \<or> a \<in> da_address ` set ds"
    and agrees: "dump_agrees (l_code L) inner (from_dump ds None) a"
    and base_code: "\<And>h bc. map_sum id acc_bytecode_hash (read_account inner a) = Inr (Some h) \<Longrightarrow>
      local_bytecode_by_hash (anvil_state_of s) h = Some bc \<Longrightarrow>
      sp_bytecode_by_hash inner h = Inr (Some bc)"
    and shown: "read_account (anvil_state_provider (anvil_state_of s) inner) a = Inr acc"
      "read_code (l_code L) (anvil_state_provider (anvil_state_of s) inner) a = Inr code"
    and no_collision: "\<And>c. keccak256 (l_code L) c = keccak256 (l_code L) code \<Longrightarrow> c = code"
    and fresh: "sp_basic_account inner2 a = l_basic_account L (rpc_world s2) a"
      "account_nonce L s2 a = Inr cur" "cur \<le> acc_nonce acc"
      "\<And>k. read_slot (anvil_state_provider (anvil_state_of s2) inner2) a k = Inr 0"
  shows "\<exists>acc2. read_account (anvil_state_provider (anvil_state_of s2') inner2) a = Inr acc2 \<and>
    acc_nonce acc2 = acc_nonce acc \<and> acc_balance acc2 = acc_balance acc \<and>
    read_code (l_code L) (anvil_state_provider (anvil_state_of s2') inner2) a = Inr code \<and>
    read_slot (anvil_state_provider (anvil_state_of s2') inner2) a k =
      read_slot (anvil_state_provider (anvil_state_of s) inner) a k"
proof -
  let ?K = "l_code L" and ?st = "anvil_state_of s" and ?st2 = "anvil_state_of s2'"
  obtain n where enc: "encode_gzipped (l_leaf L) (l_dump L)
      (merge_anvil_state ?K ?st (from_dump ds (Some n))) = Inr z"
    by (rule dump_state_Inr [OF run(1) dump(1)])
  let ?m = "merge_anvil_state ?K ?st (from_dump ds (Some n))"
  let ?r = "record_at ?m a"
  note dumped = dumped_record [OF wf(1) dump(2) agrees base_code shown refl, where n = n]
  note mwf = dumped(1) and r = dumped(2-4)
  have get: "bt_get (ss_accounts ?m) a = Some ?r"
    by (rule merged_present [OF wf(1) present])
  have load: "load_accounts L (ss_accounts ?m) s2 = (Ok b, s2')"
    using run(2) decode_encode [OF laws(1,2) mwf enc] by (simp add: load_state_def)
  have keys: "distinct (map fst (ss_accounts ?m))"
    "list_all (\<lambda>(a, r). bt_wf (sr_storage r)) (ss_accounts ?m)"
    using mwf by (simp_all add: dump_wf_def bt_wf_distinct)
  have reads: "local_balance ?st2 a = Some (acc_balance acc)"
    "local_nonce ?st2 a = Some (acc_nonce acc)"
    "local_code_hash ?st2 a = Some (keccak256 ?K code)"
    "\<And>k. local_storage ?st2 a k = (case bt_get (sr_storage ?r) k of
        Some v \<Rightarrow> Some v | None \<Rightarrow> local_storage (anvil_state_of s2) a k)"
    using load_accounts_reads [OF load keys, of a] fresh(2,3)
    by (auto simp: get r code_hash_of_keccak [OF laws(3)] max_absorb2)
  have wf2: "as_wf ?K ?st2"
    using as_wf_load_accounts [OF laws(3) wf(2), of "ss_accounts ?m"] load by simp
  obtain base where base: "read_account inner2 a = Inr base"
    using fresh(1,2) by (auto simp: read_account_def account_nonce_def split: sum.splits)
  have code2: "read_code ?K (anvil_state_provider ?st2 inner2) a = Inr code"
    by (rule hashed_code_shows [OF laws(3) wf2 reads(3) base no_collision])
  have "read_slot (anvil_state_provider ?st2 inner2) a k =
      Inr (case bt_get (sr_storage ?r) k of Some v \<Rightarrow> v | None \<Rightarrow> 0)"
    using fresh(4) [of k] unfolding read_slot_overlay
    by (auto simp: reads(4) split: option.splits)
  then have "read_slot (anvil_state_provider ?st2 inner2) a k =
      read_slot (anvil_state_provider ?st inner) a k"
    by (simp only: dumped(5))
  with code2 base reads show ?thesis
    by (simp add: read_account_overlay apply_overrides_def)
qed

section \<open>Witnesses\<close>

definition demo_merged :: serializable_state where
  "demo_merged = merge_anvil_state demo_code (set_balance 5 7 anvil_state_shared)
     (from_dump [\<lparr>da_address = 5, da_nonce = 1, da_balance = 100, da_code = None,
        da_storage = []\<rparr>] (Some 10))"

definition demo_two :: serializable_state where
  "demo_two = from_dump [\<lparr>da_address = 5, da_nonce = 1, da_balance = 100, da_code = None,
     da_storage = []\<rparr>, \<lparr>da_address = 6, da_nonce = 2, da_balance = 9, da_code = None,
     da_storage = []\<rparr>] None"

lemma demo_merged_accounts:
  "ss_accounts demo_merged = [(5, \<lparr>sr_nonce = 1, sr_balance = 7, sr_code = [], sr_storage = []\<rparr>)]"
  by (simp add: demo_merged_def merge_anvil_state_def accounts_def anvil_state_defs hm_entry_def
      anvil_state_shared_def from_dump_def bt_collect_def bt_entry_def merge_record_def Let_def
      account_record_from_def account_override_default_def)

lemma demo_two_accounts:
  "ss_accounts demo_two = [(5, \<lparr>sr_nonce = 1, sr_balance = 100, sr_code = [], sr_storage = []\<rparr>),
     (6, \<lparr>sr_nonce = 2, sr_balance = 9, sr_code = [], sr_storage = []\<rparr>)]"
  by (simp add: demo_two_def from_dump_def bt_collect_def account_record_from_def)

lemma demo_encode:
  "encode_gzipped demo_leaf (demo_dump_codec (json_of_state demo_leaf st)) st = Inr [0x1F, 0x7B]"
  by (simp add: encode_gzipped_def demo_dump_codec_def)

lemma demo_decode:
  assumes "dump_wf st"
  shows "decode demo_leaf (demo_dump_codec (json_of_state demo_leaf st)) [0x1F, 0x7B] = Inr (drop_nulls st)"
  by (rule decode_encode [OF demo_leaf_laws demo_dump_codec_laws assms demo_encode])

lemma demo_wf: "dump_wf demo_merged" "dump_wf demo_two"
  by (simp_all add: dump_wf_def demo_merged_accounts demo_two_accounts bt_wf_def)

abbreviation demo_rpc_lib :: "serializable_state \<Rightarrow>
  (mining_mode \<times> nat, nat, bool, unit, bytes, demo_world, unit) rpc_lib" where
  "demo_rpc_lib st \<equiv> demo_lib (json_of_state demo_leaf st)"

lemma demo_account_nonce: "account_nonce (demo_lib doc) (demo_rpc pool) 5 = Inr 1"
  by (simp add: account_nonce_def demo_provider_def anvil_state_shared_def anvil_state_defs)

lemma demo_load: "\<exists>s'. load_state (demo_rpc_lib demo_merged) [0x1F, 0x7B] (demo_rpc []) = (Ok True, s')"
  using demo_account_nonce [of "json_of_state demo_leaf demo_merged" "[]"]
  by (simp add: load_state_def demo_decode demo_wf demo_merged_accounts load_account_def Let_def
      set_code_def)

theorem load_state_effect_witness:
  "\<exists>s'. load_state (demo_rpc_lib demo_merged) [0x1F, 0x7B] (demo_rpc []) = (Ok True, s') \<and>
     local_balance (anvil_state_of s') 5 = Some 7 \<and> local_nonce (anvil_state_of s') 5 = Some 1"
proof -
  obtain s' where s': "load_state (demo_rpc_lib demo_merged) [0x1F, 0x7B] (demo_rpc []) = (Ok True, s')"
    using demo_load by blast
  from load_state_effect [OF this, of 5] s' show ?thesis
    by (auto simp: demo_decode demo_wf demo_merged_accounts demo_account_nonce)
qed

theorem load_state_keeps_prefix_witness:
  "\<exists>s'. load_state ((demo_rpc_lib demo_two)
       \<lparr>l_basic_account := \<lambda>x a. if a = 6 then Inl ''db'' else sp_basic_account demo_provider a\<rparr>)
     [0x1F, 0x7B] (demo_rpc []) =
       (Err (internal_error (''failed to read account: '' @ ''db'')), s') \<and>
     local_balance (anvil_state_of s') 5 = Some 100"
proof -
  let ?L = "(demo_rpc_lib demo_two)
    \<lparr>l_basic_account := \<lambda>x a. if a = 6 then Inl ''db'' else sp_basic_account demo_provider a\<rparr>"
  let ?r = "\<lparr>sr_nonce = 1, sr_balance = 100, sr_code = [], sr_storage = []\<rparr> :: account_record"
  obtain s1 where s1: "load_accounts ?L [(5, ?r)] (demo_rpc []) = (Ok True, s1)"
    by (auto simp: load_account_def account_nonce_def demo_provider_def Let_def set_code_def
        anvil_state_shared_def)
  have "decode (l_leaf ?L) (l_dump ?L) [0x1F, 0x7B] = Inr (drop_nulls demo_two)"
    by (simp add: demo_decode demo_wf)
  moreover have "ss_accounts (drop_nulls demo_two) = [(5, ?r)] @
      (6, \<lparr>sr_nonce = 2, sr_balance = 9, sr_code = [], sr_storage = []\<rparr>) # []"
    by (simp add: demo_two_accounts)
  moreover have "l_basic_account ?L (rpc_world (demo_rpc [])) 6 = Inl ''db''" by simp
  ultimately have "load_state ?L [0x1F, 0x7B] (demo_rpc []) =
      (Err (internal_error (''failed to read account: '' @ ''db'')), s1)"
    by (intro load_state_keeps_prefix [OF _ _ s1])
  moreover have "local_balance (anvil_state_of s1) 5 = Some 100"
    using load_accounts_reads [OF s1, of 5] by simp
  ultimately show ?thesis by blast
qed

theorem dump_load_round_trip_witness:
  "\<exists>s'. load_state (demo_rpc_lib demo_merged) [0x1F, 0x7B] (demo_rpc []) = (Ok True, s') \<and>
     map_sum id acc_balance (read_account (anvil_state_provider (anvil_state_of s') demo_provider) 5) = Inr 7"
proof -
  let ?L = "demo_rpc_lib demo_merged" and ?s = "upd_anvil_state (set_balance 5 7) (demo_rpc [])"
  let ?ds = "[\<lparr>da_address = 5, da_nonce = 1, da_balance = 100, da_code = None, da_storage = []\<rparr>]"
  obtain s' where s': "load_state ?L [0x1F, 0x7B] (demo_rpc []) = (Ok True, s')"
    using demo_load by blast
  have ds: "l_dump_state_collect ?L x = Inr ?ds" for x by (simp add: demo_lib_def)
  have merged: "merge_anvil_state demo_code (set_balance 5 7 anvil_state_shared)
      (from_dump ?ds (Some 10)) = demo_merged"
    by (simp add: demo_merged_def)
  have dump: "dump_state ?L None ?s = Inr [0x1F, 0x7B]"
    by (simp add: dump_state_def ds best_block_number_def Let_def merged demo_encode)
  have base: "read_account demo_provider 5 = Inr \<lparr>acc_nonce = 1, acc_balance = 100, acc_bytecode_hash = None\<rparr>"
    by (simp add: read_account_def demo_provider_def)
  have none: "local_code_hash anvil_state_shared 5 = None" "local_nonce anvil_state_shared 5 = None"
    "local_storage anvil_state_shared 5 k = None" for k
    by (simp_all add: anvil_state_shared_def anvil_state_defs)
  have shown: "read_account (anvil_state_provider (anvil_state_of ?s) demo_provider) 5 =
      Inr \<lparr>acc_nonce = 1, acc_balance = 7, acc_bytecode_hash = None\<rparr>"
    by (simp add: read_account_overlay base apply_overrides_def none store.bal_set_bal store.non_frame)
  have slot: "read_slot (anvil_state_provider anvil_state_shared demo_provider) 5 k = Inr 0" for k
    by (simp add: read_slot_overlay none) (simp add: read_slot_def demo_provider_def)
  let ?acc = "\<lparr>acc_nonce = 1, acc_balance = 7, acc_bytecode_hash = None\<rparr> :: acct"
  have "\<exists>acc2. read_account (anvil_state_provider (anvil_state_of s') demo_provider) 5 = Inr acc2 \<and>
      acc_nonce acc2 = acc_nonce ?acc \<and> acc_balance acc2 = acc_balance ?acc \<and>
      read_code (l_code ?L) (anvil_state_provider (anvil_state_of s') demo_provider) 5 = Inr [] \<and>
      read_slot (anvil_state_provider (anvil_state_of s') demo_provider) 5 0 =
        read_slot (anvil_state_provider (anvil_state_of ?s) demo_provider) 5 0"
  proof (rule dump_load_round_trip [where ds = ?ds and p = None and cur = 1])
    show "dump_state ?L None ?s = Inr [0x1F, 0x7B]" by (rule dump)
    show "load_state ?L [0x1F, 0x7B] (demo_rpc []) = (Ok True, s')" by (rule s')
    show "as_wf (l_code ?L) (anvil_state_of ?s)" "as_wf (l_code ?L) (anvil_state_of (demo_rpc []))"
      by (simp_all add: as_wf_set_balance as_wf_shared)
    show "dump_agrees (l_code ?L) demo_provider (from_dump ?ds None) 5"
      by (simp add: dump_agrees_def record_at_def from_dump_def bt_get_collect account_record_from_def
          read_account_def read_code_def read_slot_def demo_provider_def)
    show "c = []" if "keccak256 (l_code ?L) c = keccak256 (l_code ?L) []" for c
      using that demo_code_laws by (simp add: code_laws_def)
    show "read_account (anvil_state_provider (anvil_state_of ?s) demo_provider) 5 = Inr ?acc"
      by (rule shown)
    show "read_code (l_code ?L) (anvil_state_provider (anvil_state_of ?s) demo_provider) 5 = Inr []"
      using shown by (simp add: read_code_def)
    show "account_nonce ?L (demo_rpc []) 5 = Inr 1" by (rule demo_account_nonce)
  qed (simp_all add: demo_leaf_laws demo_dump_codec_laws demo_code_laws ds slot base)
  with s' show ?thesis by auto
qed

end
