(* ===== verification/Rpc_Time_Pool.thy ===== *)
theory Rpc_Time_Pool
  imports Rpc_Instance
begin

text \<open>
  The time and pool handlers (src/src/anvil_api.rs): what \<open>anvil_setTime\<close> and
  \<open>anvil_increaseTime\<close> answer and do to the next block, and that dropping transactions keeps
  the registry of impersonated senders in step with the pool.
\<close>

section \<open>Time\<close>

lemma set_time_state:
  "rpc_time (snd (anvil_set_time clock1 clock2 arg s)) =
     set_time clock2 (normalize_timestamp_input arg) (rpc_time s)"
  by (simp add: anvil_set_time_def Let_def)

lemma increase_time_step:
  assumes "unat x < 2 ^ 64" and "in_i128 (tm_offset (rpc_time s) + int (unat x))"
    and "- (2 ^ 63) \<le> tm_offset (rpc_time s)"
  shows "anvil_increase_time x s =
    (Ok (min (tm_offset (rpc_time s) + int (unat x)) (2 ^ 63 - 1)),
     s\<lparr>rpc_time := (rpc_time s)\<lparr>tm_offset := tm_offset (rpc_time s) + int (unat x)\<rparr>\<rparr>)"
proof -
  have "uint (ucast x :: u64) = int (unat x)"
    unfolding uint_nat using unat_ucast_u64 [OF assms(1)] by simp
  then have inc: "increase_time (ucast x) (rpc_time s) =
      (tm_offset (rpc_time s) + int (unat x),
       (rpc_time s)\<lparr>tm_offset := tm_offset (rpc_time s) + int (unat x)\<rparr>)"
    using i128_sat_add_exact [OF assms(2)]
    by (simp add: increase_time_def add_offset_def Let_def)
  let ?m = "min (tm_offset (rpc_time s) + int (unat x)) (2 ^ 63 - 1)"
  have "(0::int) < 2 ^ 63" and "0 \<le> int (unat x)" by simp_all
  then have "- (2 ^ 63) \<le> ?m" "?m < 2 ^ 63"
    using assms(3) by linarith+
  then have "as_i64 ?m = ?m" by (rule as_i64_exact)
  with inc assms(1) show ?thesis
    by (simp add: anvil_increase_time_def to_u64_def)
qed

lemma increase_time_run:
  assumes "list_all (\<lambda>x. unat x < 2 ^ 64) xs"
    and "- (2 ^ 63) \<le> tm_offset (rpc_time s)"
    and "tm_offset (rpc_time s) + int (sum_list (map unat xs)) \<le> i128_max"
  shows "fst (runs anvil_increase_time xs s) =
      map (\<lambda>i. Ok (min (tm_offset (rpc_time s) + int (sum_list (map unat (take (Suc i) xs)))) (2 ^ 63 - 1)))
        [0..<length xs] \<and>
    rpc_time (snd (runs anvil_increase_time xs s)) =
      (rpc_time s)\<lparr>tm_offset := tm_offset (rpc_time s) + int (sum_list (map unat xs))\<rparr>"
  using assms
proof (induction xs arbitrary: s)
  case Nil
  show ?case by simp
next
  case (Cons x xs)
  let ?o = "tm_offset (rpc_time s)"
  let ?s = "s\<lparr>rpc_time := (rpc_time s)\<lparr>tm_offset := ?o + int (unat x)\<rparr>\<rparr>"
  have "in_i128 (?o + int (unat x))"
  proof -
    have "0 \<le> int (unat x)" "0 \<le> int (sum_list (map unat xs))" by simp_all
    moreover have "?o + (int (unat x) + int (sum_list (map unat xs))) \<le> i128_max"
      using Cons.prems(3) by simp
    moreover have "i128_min \<le> - (2 ^ 63)" by (simp add: i128_min_def)
    ultimately show ?thesis
      using Cons.prems(2) unfolding in_i128_def by linarith
  qed
  then have step: "anvil_increase_time x s = (Ok (min (?o + int (unat x)) (2 ^ 63 - 1)), ?s)"
    using Cons.prems by (intro increase_time_step) simp_all
  have "list_all (\<lambda>x. unat x < 2 ^ 64) xs" "- (2 ^ 63) \<le> tm_offset (rpc_time ?s)"
    "tm_offset (rpc_time ?s) + int (sum_list (map unat xs)) \<le> i128_max"
  proof -
    show "list_all (\<lambda>x. unat x < 2 ^ 64) xs"
      "tm_offset (rpc_time ?s) + int (sum_list (map unat xs)) \<le> i128_max"
      using Cons.prems by simp_all
    have "0 \<le> int (unat x)" by simp
    then have "- (2 ^ 63) \<le> ?o + int (unat x)"
      using Cons.prems(2) by linarith
    then show "- (2 ^ 63) \<le> tm_offset (rpc_time ?s)" by simp
  qed
  from Cons.IH [OF this] show ?case
    by (simp add: runs_Cons step map_upt_Suc add.assoc del: upt_Suc)
qed

section \<open>Properties\<close>

text \<open>
  \<open>anvil_setTime\<close> takes milliseconds for seconds when the argument is above \<open>10 ^ 12\<close>;
  it answers how far the new time lies ahead of the timestamp the next block would have had
  (zero if it does not), and the next block mined \<open>d\<close> seconds later without an interval is
  stamped the new time plus \<open>max 1 d\<close>, whatever was requested before.
\<close>

theorem set_time_answer_and_effect:
  defines "secs arg \<equiv> (if (1000000000000 :: u64) < arg then arg div 1000 else arg)"
  assumes "tm_interval (rpc_time s) = None" and "clock2 \<le> now'"
    and "unat (secs arg) + (unat now' - unat clock2) < 2 ^ 64 - 1"
  shows "(\<exists>r. fst (anvil_set_time clock1 clock2 arg s) = Ok r \<and>
      unat r = unat (secs arg) - unat (current_call_timestamp clock1 (rpc_time s))) \<and>
    unat (fst (next_timestamp now' (rpc_time (snd (anvil_set_time clock1 clock2 arg s))))) =
      unat (secs arg) + max 1 (unat now' - unat clock2)"
proof
  show "\<exists>r. fst (anvil_set_time clock1 clock2 arg s) = Ok r \<and>
      unat r = unat (secs arg) - unat (current_call_timestamp clock1 (rpc_time s))"
    by (simp add: anvil_set_time_def Let_def unat_sat_sub normalize_timestamp_input_def secs_def)
  show "unat (fst (next_timestamp now' (rpc_time (snd (anvil_set_time clock1 clock2 arg s))))) =
      unat (secs arg) + max 1 (unat now' - unat clock2)"
    unfolding set_time_state
    by (rule pinned_clock_runs_on [OF _ _ _ _ assms(3,4)])
      (simp_all add: set_time_def reset_def assms(2) normalize_timestamp_input_def secs_def)
qed

theorem set_time_answer_and_effect_witness:
  "unat (fst (next_timestamp 1007 (rpc_time (snd (anvil_set_time 1005 1005 2000000000000 (demo_rpc [])))))) =
     2000000002"
proof -
  have "(2000000000000 :: u64) div 1000 = 2000000000"
    by (simp add: word_unat_eq_iff unat_div)
  then show ?thesis
    using set_time_answer_and_effect [of "demo_rpc []" 1005 1007 2000000000000 1005]
    by (simp add: new_time_manager_def reset_def)
qed

text \<open>
  The offsets answered by successive \<open>anvil_increaseTime\<close> calls are the running total of
  the seconds added to the offset so far, capped at \<open>i64::MAX\<close>; the time manager itself keeps
  the uncapped total.
\<close>

theorem increase_time_accumulates:
  assumes "list_all (\<lambda>x. unat x < 2 ^ 64) xs"
    and "- (2 ^ 63) \<le> tm_offset (rpc_time s)"
    and "tm_offset (rpc_time s) + int (sum_list (map unat xs)) \<le> i128_max"
  shows "fst (runs anvil_increase_time xs s) =
      map (\<lambda>i. Ok (min (tm_offset (rpc_time s) + int (sum_list (map unat (take (Suc i) xs)))) (2 ^ 63 - 1)))
        [0..<length xs] \<and>
    tm_offset (rpc_time (snd (runs anvil_increase_time xs s))) =
      tm_offset (rpc_time s) + int (sum_list (map unat xs))"
  using increase_time_run [OF assms] by simp

theorem increase_time_accumulates_witness:
  "fst (runs anvil_increase_time [10, 0xFFFFFFFFFFFFFFFF] (demo_rpc [])) = [Ok 10, Ok (2 ^ 63 - 1)]"
  using increase_time_accumulates [of "[10, 0xFFFFFFFFFFFFFFFF]" "demo_rpc []"]
  by (simp add: new_time_manager_def reset_def i128_max_def upt_rec)

text \<open>
  The registry of impersonated senders follows the pool: dropping one transaction forgets
  its sender exactly if the pool had it, dropping all forgets those of all pool hashes,
  dropping a sender's transactions those the pool removed; every other record stays, and the
  set of impersonated accounts is untouched.
\<close>

theorem drops_forget_senders:
  "(let (removed, x) = l_remove_transaction L h (rpc_world s);
        (r, s') = anvil_drop_transaction L h s
    in r = Ok (if removed = None then None else Some h) \<and> rpc_world s' = x \<and>
       tx_sender (rpc_state s') k =
         (if k = h \<and> removed \<noteq> None then None else tx_sender (rpc_state s) k)) \<and>
   tx_sender (rpc_state (snd (anvil_drop_all_transactions L s))) k =
     (if k \<in> set (l_all_transaction_hashes L (rpc_world s)) then None else tx_sender (rpc_state s) k) \<and>
   (let (removed, x) = l_remove_transactions_by_sender L a (rpc_world s);
        s' = snd (anvil_remove_pool_transactions L a s)
    in rpc_world s' = x \<and>
       tx_sender (rpc_state s') k = (if k \<in> set removed then None else tx_sender (rpc_state s) k)) \<and>
   is_impersonated (rpc_state (snd (anvil_drop_all_transactions L s))) b =
     is_impersonated (rpc_state s) b"
  by (auto simp: anvil_drop_transaction_def anvil_drop_all_transactions_def
      anvil_remove_pool_transactions_def Let_def reg.sender_forget forget_tx_senders_fold
      reg.sender_forgets split: prod.split option.split)
    (simp_all flip: forget_tx_senders_fold)

end
