(* ===== verification/Rpc_Erc20.thy ===== *)
theory Rpc_Erc20
  imports Rpc_Instance
begin

text \<open>
  The ERC-20 handlers and the node information (src/src/anvil_api.rs): the layout of the
  call data, the search for the storage slot as a search in a list, what
  \<open>anvil_dealERC20\<close> and \<open>anvil_setERC20Allowance\<close> write, and what \<open>anvil_nodeInfo\<close> and
  \<open>anvil_metadata\<close> report.
\<close>

section \<open>Call data\<close>

text \<open>Bytes read as a number, most significant first.\<close>

definition be_value :: "bytes \<Rightarrow> nat" where
  "be_value bs = foldl (\<lambda>n b. 256 * n + unat b) 0 bs"

lemma be_value_append: "be_value (xs @ ys) = be_value xs * 256 ^ length ys + be_value ys"
proof (induction ys rule: rev_induct)
  case (snoc y ys)
  then show ?case by (simp add: be_value_def algebra_simps)
qed (simp add: be_value_def)

lemma be_value_zeros: "be_value (replicate n 0) = 0"
proof (induction n)
  case (Suc n)
  have "replicate (Suc n) (0 :: u8) = [0] @ replicate n 0" by simp
  then show ?case unfolding be_value_append using Suc by (simp add: be_value_def)
qed (simp add: be_value_def)

lemma length_address_bytes [simp]: "length (address_bytes a) = 20"
  by (simp add: address_bytes_def)

text \<open>The bytes of a word, \<open>n\<close> of them.\<close>

lemma be_value_bytes:
  fixes a :: "'a::len word"
  shows "be_value (map (\<lambda>i. ucast (drop_bit (8 * (n - 1 - i)) a)) [0..<n]) = unat a mod 256 ^ n"
proof (induction n arbitrary: a)
  case 0
  show ?case by (simp add: be_value_def)
next
  case (Suc n)
  have shift: "drop_bit (8 * (n - i)) a = drop_bit (8 * (n - 1 - i)) (drop_bit 8 a)" if "i < n" for i
  proof -
    have "8 * (n - i) = 8 * (n - 1 - i) + 8" using that by simp
    then show ?thesis by (simp add: drop_bit_drop_bit)
  qed
  have eq: "map (\<lambda>i. ucast (drop_bit (8 * (Suc n - 1 - i)) a)) [0..<Suc n] =
      map (\<lambda>i. ucast (drop_bit (8 * (n - 1 - i)) (drop_bit 8 a))) [0..<n] @ [ucast a :: u8]"
    using shift by simp
  have one: "be_value [ucast a :: u8] = unat (ucast a :: u8)" by (simp add: be_value_def)
  have "be_value (map (\<lambda>i. ucast (drop_bit (8 * (Suc n - 1 - i)) a)) [0..<Suc n]) =
      unat (drop_bit 8 a) mod 256 ^ n * 256 + unat (ucast a :: u8)"
    unfolding eq be_value_append Suc.IH one by (simp only: list.size power_one_right One_nat_def [symmetric] add_0_right add_0)
  moreover have "unat (drop_bit 8 a) = drop_bit 8 (unat a)"
    by (simp only: unsigned_drop_bit_eq take_bit_nat_eq_self [OF unat_bound])
  moreover have "drop_bit 8 (unat a) = unat a div 256"
    by (simp add: drop_bit_eq_div)
  moreover have "unat (ucast a :: u8) = unat a mod 256"
    by (simp add: unsigned_ucast_eq take_bit_eq_mod)
  ultimately show ?case
    by (simp add: mod_mult2_eq [of "unat a" 256 "256 ^ n"] mult.commute)
qed

lemma be_value_address: "be_value (address_bytes a) = unat a"
proof -
  have "address_bytes a = map (\<lambda>i. ucast (drop_bit (8 * (20 - 1 - i)) a)) [0..<20]"
    by (simp add: address_bytes_def)
  moreover have "unat a < 256 ^ 20"
    using unat_bound [of a] by simp
  ultimately show ?thesis
    using be_value_bytes [of 20 a] by simp
qed

section \<open>The search\<close>

text \<open>The slots of the token in the access list, in order.\<close>

definition token_slots :: "address \<Rightarrow> (address \<times> b256 list) list \<Rightarrow> b256 list" where
  "token_slots token items = concat (map snd (filter (\<lambda>(a, _). a = token) items))"

lemma probe_slots_append:
  "probe_slots call fb token v (xs @ ys) =
     (case probe_slots call fb token v xs of
        Ok None \<Rightarrow> probe_slots call fb token v ys | r \<Rightarrow> r)"
  by (induction xs) (auto split: sum.split option.split outcome.split)

lemma probe_items_slots:
  "probe_items call fb token v items = probe_slots call fb token v (token_slots token items)"
proof (induction items)
  case Nil
  show ?case by (simp add: token_slots_def)
next
  case (Cons it items)
  obtain a keys where "it = (a, keys)" by (cases it)
  with Cons show ?case
    by (auto simp: token_slots_def probe_slots_append split: outcome.split option.split)
qed

text \<open>What a probe of a slot says: the value read with the slot overridden, if the call works.\<close>

definition probe_value ::
  "(state_override \<Rightarrow> rpc_error + bytes) \<Rightarrow> (bytes \<Rightarrow> u256 option) \<Rightarrow> address \<Rightarrow> u256 \<Rightarrow> b256
     \<Rightarrow> u256 option option" where
  "probe_value call fb token v slot =
     (case call [(token, [(slot, v)])] of Inl _ \<Rightarrow> None | Inr result \<Rightarrow> Some (fb result))"

lemma probe_slots_find:
  "probe_slots call fb token v slots =
     (case find (\<lambda>slot. probe_value call fb token v slot \<in> {Some None, Some (Some v)}) slots of
        None \<Rightarrow> Ok None
      | Some slot \<Rightarrow> if probe_value call fb token v slot = Some None then Panic else Ok (Some slot))"
  by (induction slots) (auto simp: probe_value_def split: sum.splits option.splits)

section \<open>Properties\<close>

text \<open>
  The call data of \<open>anvil_dealERC20\<close> is \<open>balanceOf(address)\<close> with the account as a 32-byte
  big-endian argument, that of \<open>anvil_setERC20Allowance\<close> is \<open>allowance(owner, spender)\<close> with
  both; the handlers ask the access list and every probe with exactly this data.
\<close>

theorem erc20_calldata_layout:
  "fst (anvil_deal_erc20 L a token v s) =
     (case find_erc20_storage_slot L token (balance_of_selector @ replicate 12 0 @ address_bytes a) v s of
        Ok _ \<Rightarrow> Ok () | Err e \<Rightarrow> Err e | Panic \<Rightarrow> Panic) \<and>
   length (replicate 12 0 @ address_bytes a) = 32 \<and>
   be_value (replicate 12 0 @ address_bytes a) = unat a \<and>
   fst (anvil_set_erc20_allowance L owner spender token v s) =
     (case find_erc20_storage_slot L token (allowance_selector @ replicate 12 0 @ address_bytes owner @
             replicate 12 0 @ address_bytes spender) v s of
        Ok _ \<Rightarrow> Ok () | Err e \<Rightarrow> Err e | Panic \<Rightarrow> Panic) \<and>
   balance_of_selector = [0x70, 0xa0, 0x82, 0x31] \<and> allowance_selector = [0xdd, 0x62, 0xed, 0x3e]"
  by (auto simp: anvil_deal_erc20_def anvil_set_erc20_allowance_def be_value_append be_value_zeros
      be_value_address balance_of_selector_def allowance_selector_def split: outcome.split)

text \<open>
  C25: \<open>anvil_dealERC20\<close> succeeds exactly when some slot of the token in the access list makes
  the balance call return the wanted balance, no earlier slot having made it panic; then it
  writes that balance into the first such slot of the token and nothing else. Otherwise the
  state is untouched.
\<close>

theorem deal_erc20_writes_first_match:
  fixes s :: "('w, 'n, 'bc, 'x) anvil_rpc"
  defines "tx \<equiv> \<lambda>token a. tx_request_default\<lparr>tr_to := Some token,
    tr_input := Some (balance_of_selector @ replicate 12 0 @ address_bytes a)\<rparr>"
  assumes "eth_create_access_list (l_eth L) s (tx token a) = Inr items"
  shows "anvil_deal_erc20 L a token v s =
    (let probe = probe_value (eth_call (l_eth L) s (tx token a)) (l_from_be_slice L) token v
     in (case find (\<lambda>slot. probe slot \<in> {Some None, Some (Some v)}) (token_slots token items) of
           None \<Rightarrow> (Err (internal_error ''Unable to find storage slot''), s)
         | Some slot \<Rightarrow>
             if probe slot = Some None then (Panic, s)
             else (Ok (), upd_anvil_state (set_storage_at token slot v) s)))"
  using assms
  by (auto simp: anvil_deal_erc20_def find_erc20_storage_slot_def Let_def probe_items_slots
      probe_slots_find split: option.split)

theorem deal_erc20_writes_first_match_witness:
  "local_storage (anvil_state_of (snd (anvil_deal_erc20 (demo_lib JNull) 5 2 77 (demo_rpc [])))) 2 3 = Some 77"
proof -
  have acl: "eth_create_access_list (l_eth (demo_lib JNull)) (demo_rpc [])
      (tx_request_default\<lparr>tr_to := Some 2,
        tr_input := Some (balance_of_selector @ replicate 12 0 @ address_bytes 5)\<rparr>) =
      Inr [(1, [9]), (2, [4, 3, 5])]"
    by (simp add: demo_eth_def)
  show ?thesis
    unfolding deal_erc20_writes_first_match [OF acl]
    by (simp add: Let_def token_slots_def probe_value_def demo_eth_def demo_from_be_slice_def
        store.sto_set_sto)
qed

text \<open>
  \<open>anvil_nodeInfo\<close> and \<open>anvil_metadata\<close> report the block the chain has under its best number,
  the hardfork of its timestamp and the configured chain and instance; they fail only when
  the head cannot be read or is missing, and \<open>anvil_nodeInfo\<close> panics when the gas price does
  not fit 128 bits. Neither changes the state.
\<close>

theorem info_reports_head:
  assumes "l_best_block_number L (rpc_world s) = Inr n"
    and "eth_block_by_number (l_eth L) s (Number n) False = Inr (Some blk)"
    and "eth_gas_price (l_eth L) s = Inr price"
  shows "(case anvil_node_info L s of
       (Ok info, s') \<Rightarrow> s' = s \<and> unat price < 2 ^ 128 \<and>
         ni_current_block_number info = bh_number (rb_header blk) \<and>
         ni_current_block_timestamp info = bh_timestamp (rb_header blk) \<and>
         ni_hard_fork info = hardfork_name (cx_node (rpc_context s)) (bh_timestamp (rb_header blk)) \<and>
         unat (ne_gas_price (ni_environment info)) = unat price
     | (Err e, s') \<Rightarrow> False
     | (Panic, s') \<Rightarrow> s' = s \<and> 2 ^ 128 \<le> unat price) \<and>
    (\<exists>md. anvil_metadata L s = (Ok md, s) \<and>
       md_latest_block_number md = bh_number (rb_header blk) \<and>
       md_latest_block_hash md = bh_hash (rb_header blk) \<and>
       md_chain_id md = chain_id (nc_chain_spec (cx_node (rpc_context s))) \<and>
       md_instance_id md = nc_instance_id (cx_node (rpc_context s)) \<and>
       md_client_version md = ''anvil-reth/v0.1.0'')"
proof -
  have latest: "latest_block L s = Inr blk"
    by (simp add: latest_block_def best_block_number_def bs_block_by_number_def assms)
  have fits: "unat (ucast price :: 128 word) = unat price" if "unat price < 2 ^ 128"
    using that by (simp add: unsigned_ucast_eq take_bit_nat_eq_self)
  show ?thesis
    using fits
    by (auto simp: anvil_node_info_def anvil_metadata_def latest bs_gas_price_def assms(3) Let_def
        to_u128_def pkg_name_def pkg_version_def)
qed

theorem info_reports_head_witness:
  "\<exists>md. anvil_metadata (demo_lib JNull) (demo_rpc []) = (Ok md, demo_rpc []) \<and>
     md_latest_block_number md = 10"
  using info_reports_head [of "demo_lib JNull" "demo_rpc []" 10 "demo_block 10" 8]
  by (auto simp: demo_eth_def demo_block_def)

end
