(* ===== verification/Rpc_Api.thy ===== *)
theory Rpc_Api
  imports Rpc_Handlers
begin

text \<open>
  The \<open>AnvilApi\<close> trait (src/src/anvil_api.rs): the methods of the namespace with their
  parameters, the names and aliases they are registered under, and the dispatch of a
  request to its handler.
\<close>

section \<open>Requests\<close>

datatype rpc_request =
    RpcImpersonateAccount address
  | RpcStopImpersonatingAccount address
  | RpcAutoImpersonateAccount bool
  | RpcGetAutomine
  | RpcGetIntervalMining
  | RpcSetAutomineMode bool
  | RpcSetIntervalMining u64
  | RpcMine "u256 option" "u256 option"
  | RpcMineDetailed "mine_options option"
  | RpcDropTransaction b256
  | RpcDropAllTransactions
  | RpcRemovePoolTransactions address
  | RpcSetLoggingEnabled bool
  | RpcGetGenesisTime
  | RpcNodeInfo
  | RpcMetadata
  | RpcSetBlockTimestampInterval u64
  | RpcRemoveBlockTimestampInterval
  | RpcIncreaseTime u256
  | RpcSetTime u64
  | RpcSetNextBlockTimestamp u64
  | RpcSetBalance address u256
  | RpcAddBalance address u256
  | RpcSetNonce address u256
  | RpcSetCode address bytes
  | RpcSetStorageAt address u256 b256
  | RpcDumpState "bool option"
  | RpcLoadState bytes
  | RpcDealERC20 address address u256
  | RpcSetERC20Allowance address address address u256
  | RpcSetBlockGasLimit u256
  | RpcSetCoinbase address
  | RpcSetNextBlockBaseFeePerGas u256

text \<open>The results of the methods, under one type.\<close>

datatype 'b rpc_value =
    VUnit
  | VBool bool
  | VU64 u64
  | VOptU64 "u64 option"
  | VInt int
  | VHash "b256 option"
  | VBytes bytes
  | VBlocks "'b rpc_block list"
  | VInfo node_info
  | VMetadata metadata

definition answer ::
  "('a \<Rightarrow> 'b rpc_value) \<Rightarrow> 'a outcome \<times> 's \<Rightarrow> 'b rpc_value outcome \<times> 's" where
  "answer f = map_prod (map_outcome f) id"

text \<open>
  \<open>during\<close> is what happens in the sleeps of the handlers that wait, \<open>clock\<close> the two readings
  of the wall clock of \<open>anvil_setTime\<close>.
\<close>

primrec handle ::
  "('w, 'rx, 'n, 'f, 'bc, 'x, 'b) rpc_lib
     \<Rightarrow> (nat \<Rightarrow> ('w, 'n, 'bc, 'x) anvil_rpc \<Rightarrow> ('w, 'n, 'bc, 'x) anvil_rpc) \<Rightarrow> u64 \<times> u64
     \<Rightarrow> rpc_request \<Rightarrow> ('w, 'n, 'bc, 'x) anvil_rpc
     \<Rightarrow> 'b rpc_value outcome \<times> ('w, 'n, 'bc, 'x) anvil_rpc" where
  "handle L during clock (RpcImpersonateAccount a) s =
     answer (\<lambda>_. VUnit) (anvil_impersonate_account a s)"
| "handle L during clock (RpcStopImpersonatingAccount a) s =
     answer (\<lambda>_. VUnit) (anvil_stop_impersonating_account a s)"
| "handle L during clock (RpcAutoImpersonateAccount b) s =
     answer (\<lambda>_. VUnit) (anvil_auto_impersonate_account b s)"
| "handle L during clock RpcGetAutomine s =
     answer VBool (anvil_get_automine L s)"
| "handle L during clock RpcGetIntervalMining s =
     answer VOptU64 (anvil_get_interval_mining L s)"
| "handle L during clock (RpcSetAutomineMode b) s =
     answer (\<lambda>_. VUnit) (anvil_set_automine L b s)"
| "handle L during clock (RpcSetIntervalMining i) s =
     answer (\<lambda>_. VUnit) (anvil_set_interval_mining L i s)"
| "handle L during clock (RpcMine n i) s =
     answer (\<lambda>_. VUnit) (anvil_mine L during n i s)"
| "handle L during clock (RpcMineDetailed opts) s =
     answer VBlocks (anvil_mine_detailed L during opts s)"
| "handle L during clock (RpcDropTransaction h) s =
     answer VHash (anvil_drop_transaction L h s)"
| "handle L during clock RpcDropAllTransactions s =
     answer (\<lambda>_. VUnit) (anvil_drop_all_transactions L s)"
| "handle L during clock (RpcRemovePoolTransactions a) s =
     answer (\<lambda>_. VUnit) (anvil_remove_pool_transactions L a s)"
| "handle L during clock (RpcSetLoggingEnabled b) s =
     answer (\<lambda>_. VUnit) (anvil_set_logging_enabled b s)"
| "handle L during clock RpcGetGenesisTime s =
     answer VU64 (anvil_get_genesis_time L s)"
| "handle L during clock RpcNodeInfo s =
     answer VInfo (anvil_node_info L s)"
| "handle L during clock RpcMetadata s =
     answer VMetadata (anvil_metadata L s)"
| "handle L during clock (RpcSetBlockTimestampInterval i) s =
     answer (\<lambda>_. VUnit) (anvil_set_block_timestamp_interval i s)"
| "handle L during clock RpcRemoveBlockTimestampInterval s =
     answer VBool (anvil_remove_block_timestamp_interval s)"
| "handle L during clock (RpcIncreaseTime x) s =
     answer VInt (anvil_increase_time x s)"
| "handle L during clock (RpcSetTime t) s =
     answer VU64 (anvil_set_time (fst clock) (snd clock) t s)"
| "handle L during clock (RpcSetNextBlockTimestamp t) s =
     answer (\<lambda>_. VUnit) (anvil_set_next_block_timestamp t s)"
| "handle L during clock (RpcSetBalance a x) s =
     answer (\<lambda>_. VUnit) (anvil_set_balance a x s)"
| "handle L during clock (RpcAddBalance a x) s =
     answer (\<lambda>_. VUnit) (anvil_add_balance L a x s)"
| "handle L during clock (RpcSetNonce a x) s =
     answer (\<lambda>_. VUnit) (anvil_set_nonce a x s)"
| "handle L during clock (RpcSetCode a c) s =
     answer (\<lambda>_. VUnit) (anvil_set_code L a c s)"
| "handle L during clock (RpcSetStorageAt a k v) s =
     answer VBool (anvil_set_storage_at a k v s)"
| "handle L during clock (RpcDumpState p) s =
     answer VBytes (anvil_dump_state L p s)"
| "handle L during clock (RpcLoadState z) s =
     answer VBool (anvil_load_state L z s)"
| "handle L during clock (RpcDealERC20 a t v) s =
     answer (\<lambda>_. VUnit) (anvil_deal_erc20 L a t v s)"
| "handle L during clock (RpcSetERC20Allowance a b t v) s =
     answer (\<lambda>_. VUnit) (anvil_set_erc20_allowance L a b t v s)"
| "handle L during clock (RpcSetBlockGasLimit g) s =
     answer VBool (anvil_set_block_gas_limit g s)"
| "handle L during clock (RpcSetCoinbase a) s =
     answer (\<lambda>_. VUnit) (anvil_set_coinbase a s)"
| "handle L during clock (RpcSetNextBlockBaseFeePerGas f) s =
     answer (\<lambda>_. VUnit) (anvil_set_next_block_base_fee_per_gas f s)"

section \<open>Names\<close>

text \<open>The name a method is declared with, and its aliases.\<close>

primrec method_name :: "rpc_request \<Rightarrow> string" where
  "method_name (RpcImpersonateAccount a) = ''impersonateAccount''"
| "method_name (RpcStopImpersonatingAccount a) = ''stopImpersonatingAccount''"
| "method_name (RpcAutoImpersonateAccount a) = ''autoImpersonateAccount''"
| "method_name RpcGetAutomine = ''getAutomine''"
| "method_name RpcGetIntervalMining = ''getIntervalMining''"
| "method_name (RpcSetAutomineMode a) = ''setAutomine''"
| "method_name (RpcSetIntervalMining a) = ''setIntervalMining''"
| "method_name (RpcMine a b) = ''mine''"
| "method_name (RpcMineDetailed a) = ''mine_detailed''"
| "method_name (RpcDropTransaction a) = ''dropTransaction''"
| "method_name RpcDropAllTransactions = ''dropAllTransactions''"
| "method_name (RpcRemovePoolTransactions a) = ''removePoolTransactions''"
| "method_name (RpcSetLoggingEnabled a) = ''setLoggingEnabled''"
| "method_name RpcGetGenesisTime = ''getGenesisTime''"
| "method_name RpcNodeInfo = ''nodeInfo''"
| "method_name RpcMetadata = ''metadata''"
| "method_name (RpcSetBlockTimestampInterval a) = ''setBlockTimestampInterval''"
| "method_name RpcRemoveBlockTimestampInterval = ''removeBlockTimestampInterval''"
| "method_name (RpcIncreaseTime a) = ''increaseTime''"
| "method_name (RpcSetTime a) = ''setTime''"
| "method_name (RpcSetNextBlockTimestamp a) = ''setNextBlockTimestamp''"
| "method_name (RpcSetBalance a b) = ''setBalance''"
| "method_name (RpcAddBalance a b) = ''addBalance''"
| "method_name (RpcSetNonce a b) = ''setNonce''"
| "method_name (RpcSetCode a b) = ''setCode''"
| "method_name (RpcSetStorageAt a b c) = ''setStorageAt''"
| "method_name (RpcDumpState a) = ''dumpState''"
| "method_name (RpcLoadState a) = ''loadState''"
| "method_name (RpcDealERC20 a b c) = ''dealERC20''"
| "method_name (RpcSetERC20Allowance a b c d) = ''setERC20Allowance''"
| "method_name (RpcSetBlockGasLimit a) = ''setBlockGasLimit''"
| "method_name (RpcSetCoinbase a) = ''setCoinbase''"
| "method_name (RpcSetNextBlockBaseFeePerGas a) = ''setNextBlockBaseFeePerGas''"

primrec method_aliases :: "rpc_request \<Rightarrow> string list" where
  "method_aliases (RpcImpersonateAccount a) = [''hardhat_impersonateAccount'']"
| "method_aliases (RpcStopImpersonatingAccount a) = [''hardhat_stopImpersonatingAccount'']"
| "method_aliases (RpcAutoImpersonateAccount a) = [''hardhat_autoImpersonateAccount'']"
| "method_aliases RpcGetAutomine = [''hardhat_getAutomine'']"
| "method_aliases RpcGetIntervalMining = []"
| "method_aliases (RpcSetAutomineMode a) = [''evm_setAutomine'']"
| "method_aliases (RpcSetIntervalMining a) = [''evm_setIntervalMining'']"
| "method_aliases (RpcMine a b) = [''hardhat_mine'']"
| "method_aliases (RpcMineDetailed a) = [''evm_mine_detailed'']"
| "method_aliases (RpcDropTransaction a) = []"
| "method_aliases RpcDropAllTransactions = []"
| "method_aliases (RpcRemovePoolTransactions a) = []"
| "method_aliases (RpcSetLoggingEnabled a) = []"
| "method_aliases RpcGetGenesisTime = []"
| "method_aliases RpcNodeInfo = []"
| "method_aliases RpcMetadata = [''hardhat_metadata'']"
| "method_aliases (RpcSetBlockTimestampInterval a) = []"
| "method_aliases RpcRemoveBlockTimestampInterval = []"
| "method_aliases (RpcIncreaseTime a) = [''evm_increaseTime'']"
| "method_aliases (RpcSetTime a) = [''evm_setTime'']"
| "method_aliases (RpcSetNextBlockTimestamp a) = [''evm_setNextBlockTimestamp'']"
| "method_aliases (RpcSetBalance a b) = [''hardhat_setBalance'']"
| "method_aliases (RpcAddBalance a b) = [''hardhat_addBalance'']"
| "method_aliases (RpcSetNonce a b) = [''hardhat_setNonce'']"
| "method_aliases (RpcSetCode a b) = [''hardhat_setCode'']"
| "method_aliases (RpcSetStorageAt a b c) = [''hardhat_setStorageAt'']"
| "method_aliases (RpcDumpState a) = [''hardhat_dumpState'']"
| "method_aliases (RpcLoadState a) = [''hardhat_loadState'']"
| "method_aliases (RpcDealERC20 a b c) = [''hardhat_dealERC20'', ''setERC20Balance'']"
| "method_aliases (RpcSetERC20Allowance a b c d) = []"
| "method_aliases (RpcSetBlockGasLimit a) = [''evm_setBlockGasLimit'']"
| "method_aliases (RpcSetCoinbase a) = []"
| "method_aliases (RpcSetNextBlockBaseFeePerGas a) = []"

text \<open>
  What the \<open>rpc\<close> macro registers: the name behind the namespace and an underscore, and the
  aliases as they are written.
\<close>

definition registered_names :: "rpc_request \<Rightarrow> string list" where
  "registered_names r = (''anvil_'' @ method_name r) # method_aliases r"

section \<open>Properties\<close>

text \<open>One request per method.\<close>

definition method_samples :: "rpc_request list" where
  "method_samples =
     [RpcImpersonateAccount 0, RpcStopImpersonatingAccount 0, RpcAutoImpersonateAccount True,
      RpcGetAutomine, RpcGetIntervalMining, RpcSetAutomineMode True,
      RpcSetIntervalMining 0, RpcMine None None, RpcMineDetailed None,
      RpcDropTransaction 0, RpcDropAllTransactions, RpcRemovePoolTransactions 0,
      RpcSetLoggingEnabled True, RpcGetGenesisTime, RpcNodeInfo,
      RpcMetadata, RpcSetBlockTimestampInterval 0, RpcRemoveBlockTimestampInterval,
      RpcIncreaseTime 0, RpcSetTime 0, RpcSetNextBlockTimestamp 0,
      RpcSetBalance 0 0, RpcAddBalance 0 0, RpcSetNonce 0 0,
      RpcSetCode 0 [], RpcSetStorageAt 0 0 0, RpcDumpState None,
      RpcLoadState [], RpcDealERC20 0 0 0, RpcSetERC20Allowance 0 0 0 0,
      RpcSetBlockGasLimit 0, RpcSetCoinbase 0, RpcSetNextBlockBaseFeePerGas 0]"

lemma distinct_names: "distinct (concat (map registered_names method_samples))"
  by code_simp

lemma method_has_sample: "\<exists>r' \<in> set method_samples. method_name r' = method_name r \<and> method_aliases r' = method_aliases r"
  by (cases r)
    (simp_all only: method_samples_def list.set bex_simps method_name.simps method_aliases.simps simp_thms)

lemma distinct_concat_map:
  "distinct (concat (map f xs)) \<Longrightarrow> x \<in> set xs \<Longrightarrow> y \<in> set xs \<Longrightarrow> n \<in> set (f x) \<Longrightarrow> n \<in> set (f y) \<Longrightarrow> x = y"
  by (induction xs) auto

text \<open>
  A name a client calls identifies the method: no two of the 33 methods are registered
  under a common name, be it the name in the namespace or an alias, and the names of one
  method are all different.
\<close>

theorem names_identify_methods:
  "distinct (registered_names r) \<and>
   (name \<in> set (registered_names r) \<and> name \<in> set (registered_names r') \<longrightarrow>
      method_name r = method_name r')"
proof (intro conjI impI)
  have sample: "\<exists>q \<in> set method_samples. method_name q = method_name r \<and> registered_names q = registered_names r" for r
    using method_has_sample [of r] by (auto simp: registered_names_def)
  show "distinct (registered_names r)"
    using sample [of r] distinct_names by (force simp: distinct_concat_iff)
  assume both: "name \<in> set (registered_names r) \<and> name \<in> set (registered_names r')"
  obtain q q' where "q \<in> set method_samples" "registered_names q = registered_names r" "method_name q = method_name r"
    and "q' \<in> set method_samples" "registered_names q' = registered_names r'" "method_name q' = method_name r'"
    using sample [of r] sample [of r'] by blast
  with both distinct_concat_map [OF distinct_names, of q q' name] show "method_name r = method_name r'"
    by simp
qed

theorem names_identify_methods_witness:
  "method_name (RpcMine None None) = method_name (RpcMine (Some 5) None)"
  using names_identify_methods [of "RpcMine None None" "''hardhat_mine''" "RpcMine (Some 5) None"]
  by (simp add: registered_names_def)

text \<open>
  The alias \<open>setERC20Balance\<close> of \<open>anvil_dealERC20\<close> is registered outside the namespace: no
  method answers to \<open>anvil_setERC20Balance\<close>, while \<open>setERC20Balance\<close> reaches \<open>anvil_dealERC20\<close>
  and it is the only alias without a namespace prefix.
\<close>

theorem deal_erc20_alias_has_no_namespace:
  "''anvil_setERC20Balance'' \<notin> set (registered_names r) \<and>
   ''setERC20Balance'' \<in> set (registered_names (RpcDealERC20 a b c)) \<and>
   filter (\<lambda>n. take 6 n \<noteq> ''anvil_'' \<and> take 8 n \<noteq> ''hardhat_'' \<and> take 4 n \<noteq> ''evm_'')
     (registered_names r) = (if method_name r = ''dealERC20'' then [''setERC20Balance''] else [])"
  by (cases r) (simp_all add: registered_names_def)

end
