(* ===== verification/Rpc_Contracts.thy ===== *)
theory Rpc_Contracts
  imports Rpc_Api Rpc_Mining Rpc_Dump
begin

text \<open>
  The contracts of the whole \<open>anvil_*\<close> interface (src/src/anvil_api.rs), over the dispatch
  \<open>handle\<close>: a request changes only the components its method is for, and every error carries
  one of the two codes of the file or comes from the ETH API. (That the answers have the
  types the trait declares is left to the Rust compiler.)
\<close>

section \<open>Footprints\<close>

lemma map_outcome_Err [simp]: "map_outcome f x = Err e \<longleftrightarrow> x = Err e"
  by (cases x) simp_all

lemma fst_answer: "fst (answer f p) = map_outcome f (fst p)"
  by (simp add: answer_def)

text \<open>The components behind the interface, and which of them a method may change.\<close>

datatype component =
    CImpersonation | CMining | CTime | CAccounts | CBlockEnv | CConfig | CWorld

fun same ::
  "component \<Rightarrow> ('w, 'n, 'bc, 'x) anvil_rpc \<Rightarrow> ('w, 'n, 'bc, 'x) anvil_rpc \<Rightarrow> bool" where
  "same CImpersonation s s' \<longleftrightarrow> rpc_state s' = rpc_state s"
| "same CMining s s' \<longleftrightarrow> rpc_mining s' = rpc_mining s"
| "same CTime s s' \<longleftrightarrow> rpc_time s' = rpc_time s"
| "same CAccounts s s' \<longleftrightarrow> anvil_state_of s' = anvil_state_of s"
| "same CBlockEnv s s' \<longleftrightarrow> block_env_of s' = block_env_of s"
| "same CConfig s s' \<longleftrightarrow> cx_node (rpc_context s') = cx_node (rpc_context s)"
| "same CWorld s s' \<longleftrightarrow> rpc_world s' = rpc_world s"

definition when_some :: "'a option \<Rightarrow> component set" where
  "when_some x = (if x = None then {} else {CTime})"

fun footprint :: "rpc_request \<Rightarrow> component set" where
  "footprint (RpcImpersonateAccount _) = {CImpersonation}"
| "footprint (RpcStopImpersonatingAccount _) = {CImpersonation}"
| "footprint (RpcAutoImpersonateAccount _) = {CImpersonation}"
| "footprint (RpcSetAutomineMode _) = {CMining}"
| "footprint (RpcSetIntervalMining _) = {CMining}"
| "footprint (RpcMine _ i) = {CMining} \<union> (if i = Some 0 then {} else when_some i)"
| "footprint (RpcMineDetailed (Some (Options t _))) = {CMining} \<union> when_some t"
| "footprint (RpcMineDetailed (Some (Timestamp t))) = {CMining} \<union> when_some t"
| "footprint (RpcMineDetailed None) = {CMining}"
| "footprint (RpcDropTransaction _) = {CImpersonation, CWorld}"
| "footprint RpcDropAllTransactions = {CImpersonation, CWorld}"
| "footprint (RpcRemovePoolTransactions _) = {CImpersonation, CWorld}"
| "footprint (RpcSetBlockTimestampInterval _) = {CTime}"
| "footprint RpcRemoveBlockTimestampInterval = {CTime}"
| "footprint (RpcIncreaseTime _) = {CTime}"
| "footprint (RpcSetTime _) = {CTime}"
| "footprint (RpcSetNextBlockTimestamp _) = {CTime}"
| "footprint (RpcSetBalance _ _) = {CAccounts}"
| "footprint (RpcAddBalance _ _) = {CAccounts}"
| "footprint (RpcSetNonce _ _) = {CAccounts}"
| "footprint (RpcSetCode _ _) = {CAccounts}"
| "footprint (RpcSetStorageAt _ _ _) = {CAccounts}"
| "footprint (RpcLoadState _) = {CAccounts}"
| "footprint (RpcDealERC20 _ _ _) = {CAccounts}"
| "footprint (RpcSetERC20Allowance _ _ _ _) = {CAccounts}"
| "footprint (RpcSetBlockGasLimit _) = {CBlockEnv}"
| "footprint (RpcSetCoinbase _) = {CBlockEnv}"
| "footprint (RpcSetNextBlockBaseFeePerGas _) = {CBlockEnv}"
| "footprint RpcGetAutomine = {}"
| "footprint RpcGetIntervalMining = {}"
| "footprint (RpcSetLoggingEnabled _) = {}"
| "footprint RpcGetGenesisTime = {}"
| "footprint RpcNodeInfo = {}"
| "footprint RpcMetadata = {}"
| "footprint (RpcDumpState _) = {}"

lemma same_refl [simp]: "same c s s"
  by (cases c) simp_all

lemma same_trans: "same c s1 s2 \<Longrightarrow> same c s2 s3 \<Longrightarrow> same c s1 s3"
  by (cases c) simp_all

lemma same_updates [simp]:
  "c \<noteq> CImpersonation \<Longrightarrow> same c s (s\<lparr>rpc_state := i\<rparr>)"
  "c \<noteq> CMining \<Longrightarrow> same c s (s\<lparr>rpc_mining := m\<rparr>)"
  "c \<noteq> CTime \<Longrightarrow> same c s (s\<lparr>rpc_time := tm\<rparr>)"
  "c \<noteq> CWorld \<Longrightarrow> same c s (s\<lparr>rpc_world := x\<rparr>)"
  "c \<noteq> CWorld \<Longrightarrow> c \<noteq> CImpersonation \<Longrightarrow> same c s (s\<lparr>rpc_world := x, rpc_state := i\<rparr>)"
  "c \<noteq> CWorld \<Longrightarrow> c \<noteq> CImpersonation \<Longrightarrow> same c s (s\<lparr>rpc_state := i, rpc_world := x\<rparr>)"
  "c \<noteq> CAccounts \<Longrightarrow> same c s (upd_anvil_state f s)"
  "c \<noteq> CBlockEnv \<Longrightarrow> same c s (upd_block_env g s)"
  by (cases c; simp)+

lemma wait_rounds_same:
  assumes "\<forall>i t. same c t (during i t)"
  shows "same c s (snd (wait_rounds L during i fuel expected s))"
proof (induction fuel arbitrary: i s)
  case 0
  show ?case by simp
next
  case (Suc fuel)
  show ?case
    using same_trans [OF assms [rule_format, of s i] Suc.IH [of "during i s" "Suc i"]]
    by (auto split: sum.split)
qed

lemma mine_blocks_same:
  assumes "\<forall>i t. same c t (during i t)" and "c \<noteq> CMining"
  shows "same c s (snd (mine_blocks L during blocks s))"
proof -
  let ?s1 = "s\<lparr>rpc_mining := (trigger (l_notify L) ^^ unat blocks) (rpc_mining s)\<rparr>"
  have "same c s ?s1" using assms(2) by simp
  then have "same c s (snd (wait_for_block_number L during e ?s1))" for e
    unfolding wait_for_block_number_def by (rule same_trans) (rule wait_rounds_same [OF assms(1)])
  then show ?thesis
    by (auto simp: mine_blocks_def Let_def case_prod_beta split: sum.split)
qed

lemma anvil_mine_same:
  assumes "\<forall>i t. same c t (during i t)" and "c \<noteq> CMining"
    and "c \<noteq> CTime \<or> i = None \<or> i = Some 0"
  shows "same c s (snd (anvil_mine L during n i s))"
proof (cases "i = None \<or> i = Some 0")
  case True
  then show ?thesis
    using mine_blocks_same [OF assms(1,2), of s L] 
    by (auto simp: anvil_mine_def case_prod_beta split: option.split sum.split prod.split)
next
  case False
  with assms(3) have time: "c \<noteq> CTime" by simp
  show ?thesis
  proof (cases rule: anvil_mine_state [of L during n i s])
    case (3 blocks secs s2)
    have "same c s s2"
      unfolding 3(1) by (rule same_trans [OF _ mine_blocks_same [OF assms(1,2)]]) (simp add: time)
    then show ?thesis unfolding 3(2) by (rule same_trans) (simp add: time)
  qed (simp_all add: mine_blocks_same [OF assms(1,2)])
qed

lemma mine_detailed_same:
  assumes "\<forall>i t. same c t (during i t)" and "c \<notin> footprint (RpcMineDetailed opts)"
  shows "same c s (snd (anvil_mine_detailed L during opts s))"
proof -
  obtain t b where opts: "(case (case opts of Some x \<Rightarrow> x | None \<Rightarrow> Options None None) of
      Options t b \<Rightarrow> (t, case b of Some n \<Rightarrow> n | None \<Rightarrow> 1) | Timestamp t \<Rightarrow> (t, 1)) = (t, b)"
    by (rule prod.exhaust)
  have c: "c \<noteq> CMining" "c \<noteq> CTime \<or> t = None"
    using assms(2) opts by (auto simp: when_some_def split: option.splits mine_options.splits if_splits)
  show ?thesis
  proof (cases "case t of None \<Rightarrow> Inr (rpc_time s) | Some t \<Rightarrow> set_next_block_timestamp t (rpc_time s)")
    case (Inl e)
    then show ?thesis by (simp add: anvil_mine_detailed_def opts)
  next
    case (Inr tm)
    then have "same c s (s\<lparr>rpc_time := tm\<rparr>)" using c(2) by (cases c) auto
    from same_trans [OF this mine_blocks_same [OF assms(1) c(1), where L = L and blocks = b]] Inr
    show ?thesis
      by (cases "mine_blocks L during b (s\<lparr>rpc_time := tm\<rparr>)")
        (simp add: anvil_mine_detailed_def opts split: sum.split)
  qed
qed

lemma load_state_same: "c \<noteq> CAccounts \<Longrightarrow> same c s (snd (load_state L z s))"
  by (simp add: load_state_def split: sum.split) (metis load_accounts_frame same_updates(7))

lemma handlers_same:
  "c \<noteq> CMining \<Longrightarrow> same c s (snd (anvil_set_automine L e s))"
  "c \<noteq> CWorld \<Longrightarrow> c \<noteq> CImpersonation \<Longrightarrow> same c s (snd (anvil_drop_transaction L h s))"
  "c \<noteq> CWorld \<Longrightarrow> c \<noteq> CImpersonation \<Longrightarrow> same c s (snd (anvil_drop_all_transactions L s))"
  "c \<noteq> CWorld \<Longrightarrow> c \<noteq> CImpersonation \<Longrightarrow> same c s (snd (anvil_remove_pool_transactions L a s))"
  "same c s (snd (anvil_get_genesis_time L s))" "same c s (snd (anvil_node_info L s))"
  "same c s (snd (anvil_metadata L s))"
  "c \<noteq> CTime \<Longrightarrow> same c s (snd (anvil_remove_block_timestamp_interval s))"
  "c \<noteq> CTime \<Longrightarrow> same c s (snd (anvil_increase_time x s))"
  "c \<noteq> CTime \<Longrightarrow> same c s (snd (anvil_set_time c1 c2 t s))"
  "c \<noteq> CTime \<Longrightarrow> same c s (snd (anvil_set_next_block_timestamp t s))"
  "c \<noteq> CAccounts \<Longrightarrow> same c s (snd (anvil_add_balance L a x s))"
  "c \<noteq> CAccounts \<Longrightarrow> same c s (snd (anvil_set_nonce a x s))"
  "c \<noteq> CAccounts \<Longrightarrow> same c s (snd (anvil_set_code L a code s))"
  "c \<noteq> CAccounts \<Longrightarrow> same c s (snd (anvil_deal_erc20 L a b x s))"
  "c \<noteq> CAccounts \<Longrightarrow> same c s (snd (anvil_set_erc20_allowance L a b b' x s))"
  "c \<noteq> CBlockEnv \<Longrightarrow> same c s (snd (anvil_set_block_gas_limit x s))"
  "c \<noteq> CBlockEnv \<Longrightarrow> same c s (snd (anvil_set_next_block_base_fee_per_gas x s))"
  subgoal by (auto simp: anvil_set_automine_def Let_def intro: same_trans)
  subgoal by (simp add: anvil_drop_transaction_def split: prod.split option.split)
  subgoal by (simp add: anvil_drop_all_transactions_def Let_def)
  subgoal by (simp add: anvil_remove_pool_transactions_def case_prod_beta)
  subgoal by (simp add: anvil_get_genesis_time_def split: sum.split option.split)
  subgoal by (simp add: anvil_node_info_def Let_def split: sum.split option.split)
  subgoal by (simp add: anvil_metadata_def Let_def split: sum.split)
  subgoal by (simp add: anvil_remove_block_timestamp_interval_def case_prod_beta)
  subgoal by (simp add: anvil_increase_time_def case_prod_beta split: option.split)
  subgoal by (simp add: anvil_set_time_def Let_def)
  subgoal by (simp add: anvil_set_next_block_timestamp_def split: sum.split)
  subgoal by (simp add: anvil_add_balance_def split: sum.split)
  subgoal by (simp add: anvil_set_nonce_def split: option.split)
  subgoal by (simp add: anvil_set_code_def split: option.split)
  subgoal by (simp add: anvil_deal_erc20_def Let_def split: outcome.split)
  subgoal by (simp add: anvil_set_erc20_allowance_def Let_def split: outcome.split)
  subgoal by (simp add: anvil_set_block_gas_limit_def rpc_set_block_gas_limit_def split: option.split)
  subgoal by (simp add: anvil_set_next_block_base_fee_per_gas_def split: option.split)
  done

section \<open>Error codes\<close>

text \<open>The errors the ETH API can hand to the handlers have codes from \<open>C\<close>.\<close>

definition eth_error_codes ::
  "('w, 'rx, 'n, 'f, 'bc, 'x, 'b) rpc_lib \<Rightarrow> int set \<Rightarrow> bool" where
  "eth_error_codes L C \<longleftrightarrow>
     (\<forall>s e. eth_gas_price (l_eth L) s = Inl e \<longrightarrow> err_code e \<in> C) \<and>
     (\<forall>s n b e. eth_block_by_number (l_eth L) s n b = Inl e \<longrightarrow> err_code e \<in> C) \<and>
     (\<forall>s tx e. eth_create_access_list (l_eth L) s tx = Inl e \<longrightarrow> err_code e \<in> C)"

definition own_error_codes :: "int set" where
  "own_error_codes = {- 32602, - 32603}"

lemma own_errors [simp]:
  "err_code (internal_error m) \<in> own_error_codes" "err_code (invalid_params m) \<in> own_error_codes"
  by (simp_all add: own_error_codes_def internal_error_def invalid_params_def)

lemma best_block_number_error: "best_block_number L s = Inl e \<Longrightarrow> err_code e \<in> own_error_codes"
  by (auto simp: best_block_number_def split: sum.splits)

lemma wait_rounds_error:
  "fst (wait_rounds L during i fuel expected s) = Inl e \<Longrightarrow> err_code e \<in> own_error_codes"
  by (induction fuel arbitrary: i s) (auto split: sum.splits if_splits)

lemma mine_blocks_error:
  "fst (mine_blocks L during blocks s) = Inl e \<Longrightarrow> err_code e \<in> own_error_codes"
  using wait_rounds_error
  by (fastforce simp: mine_blocks_def Let_def case_prod_beta wait_for_block_number_def
      split: if_splits sum.splits prod.splits dest: best_block_number_error)

lemma mine_blocks_error':
  "mine_blocks L during blocks s = (Inl e, s') \<Longrightarrow> err_code e \<in> own_error_codes"
  using mine_blocks_error [of L during blocks s e] by simp

lemma map_sum_id_Inl [simp]: "map_sum id f r = Inl e \<longleftrightarrow> r = Inl e"
  by (cases r) simp_all

lemma account_error:
  "account_balance L s a = Inl e \<Longrightarrow> err_code e \<in> own_error_codes"
  "account_nonce L s a = Inl e \<Longrightarrow> err_code e \<in> own_error_codes"
  by (auto simp: account_balance_def account_nonce_def Let_def split: option.splits sum.splits)

lemma probe_slots_no_error: "probe_slots call fbs a v slots \<noteq> Err e"
  by (induction slots) (auto split: sum.split option.split)

lemma probe_items_no_error: "probe_items call fbs a v items \<noteq> Err e"
  by (induction call fbs a v items rule: probe_items.induct)
    (auto simp: probe_slots_no_error split: outcome.split option.split)

lemma find_slot_error:
  assumes "eth_error_codes L C" and "find_erc20_storage_slot L a cd v s = Err e"
  shows "err_code e \<in> own_error_codes \<union> C"
  using assms probe_items_no_error
  by (auto simp: find_erc20_storage_slot_def Let_def eth_error_codes_def
      split: sum.splits outcome.splits option.splits)

lemma latest_block_error:
  assumes "eth_error_codes L C" and "latest_block L s = Inl e"
  shows "err_code e \<in> own_error_codes \<union> C"
  using assms best_block_number_error [of L s]
  by (auto simp: latest_block_def bs_block_by_number_def eth_error_codes_def
      split: sum.splits option.splits)

lemma fetch_blocks_error:
  assumes "\<forall>n e. fetch n = Inl e \<longrightarrow> err_code e \<in> C" and "fetch_blocks fetch ns = Inl e"
  shows "err_code e \<in> own_error_codes \<union> C"
  using assms(2) assms(1)
  by (induction fetch ns arbitrary: e rule: fetch_blocks.induct)
    (auto split: sum.splits option.splits)

lemma load_accounts_error:
  "fst (load_accounts L accs s) = Err e \<Longrightarrow> err_code e \<in> own_error_codes"
  by (induction L accs s rule: load_accounts.induct)
    (auto simp: load_account_def Let_def dest: account_error split: sum.splits option.splits prod.splits outcome.splits)

lemma dump_state_error: "dump_state L p s = Inl e \<Longrightarrow> err_code e \<in> own_error_codes"
  by (auto simp: dump_state_def Let_def dest: best_block_number_error split: if_splits sum.splits)

lemma mine_error:
  "fst (anvil_mine L during n i s) = Err e \<Longrightarrow> err_code e \<in> own_error_codes"
  by (auto simp: anvil_mine_def Let_def case_prod_beta dest: mine_blocks_error mine_blocks_error'
      split: option.splits sum.splits prod.splits)

lemma mine_detailed_error:
  assumes "eth_error_codes L C" and "fst (anvil_mine_detailed L during opts s) = Err e"
  shows "err_code e \<in> own_error_codes \<union> C"
proof -
  have fetch: "fetch_blocks (bs_block_by_number_full (l_eth L) s') ns = Inl e \<Longrightarrow>
      err_code e \<in> own_error_codes \<union> C" for s' ns
    by (rule fetch_blocks_error)
      (use assms(1) in \<open>auto simp: bs_block_by_number_full_def eth_error_codes_def\<close>)
  obtain t b where opts: "(case (case opts of Some x \<Rightarrow> x | None \<Rightarrow> Options None None) of
      Options t b \<Rightarrow> (t, case b of Some n \<Rightarrow> n | None \<Rightarrow> 1) | Timestamp t \<Rightarrow> (t, 1)) = (t, b)"
    by (rule prod.exhaust)
  show ?thesis
  proof (cases "case t of None \<Rightarrow> Inr (rpc_time s) | Some t \<Rightarrow> set_next_block_timestamp t (rpc_time s)")
    case (Inl m)
    then show ?thesis using assms(2) by (auto simp: anvil_mine_detailed_def opts)
  next
    case (Inr tm)
    then show ?thesis
      using assms(2) fetch mine_blocks_error [of L during b "s\<lparr>rpc_time := tm\<rparr>" e]
      by (cases "mine_blocks L during b (s\<lparr>rpc_time := tm\<rparr>)")
        (auto simp: anvil_mine_detailed_def opts split: sum.splits)
  qed
qed

lemma handlers_error:
  assumes "eth_error_codes L C"
  shows
    "fst (anvil_get_genesis_time L s) = Err e \<Longrightarrow> err_code e \<in> own_error_codes \<union> C"
    "fst (anvil_node_info L s) = Err e \<Longrightarrow> err_code e \<in> own_error_codes \<union> C"
    "fst (anvil_metadata L s) = Err e \<Longrightarrow> err_code e \<in> own_error_codes \<union> C"
    "fst (anvil_add_balance L a x s) = Err e \<Longrightarrow> err_code e \<in> own_error_codes \<union> C"
    "fst (anvil_set_nonce a x s) = Err e \<Longrightarrow> err_code e \<in> own_error_codes \<union> C"
    "fst (anvil_load_state L z s) = Err e \<Longrightarrow> err_code e \<in> own_error_codes \<union> C"
    "fst (anvil_dump_state L p s) = Err e \<Longrightarrow> err_code e \<in> own_error_codes \<union> C"
    "fst (anvil_deal_erc20 L a b x s) = Err e \<Longrightarrow> err_code e \<in> own_error_codes \<union> C"
    "fst (anvil_set_erc20_allowance L a b b' x s) = Err e \<Longrightarrow> err_code e \<in> own_error_codes \<union> C"
    "fst (anvil_set_block_gas_limit x s) = Err e \<Longrightarrow> err_code e \<in> own_error_codes \<union> C"
    "fst (anvil_set_next_block_base_fee_per_gas x s) = Err e \<Longrightarrow> err_code e \<in> own_error_codes \<union> C"
    "fst (anvil_set_next_block_timestamp t s) = Err e \<Longrightarrow> err_code e \<in> own_error_codes \<union> C"
  subgoal by (auto simp: anvil_get_genesis_time_def split: sum.splits option.splits)
  subgoal using latest_block_error [OF assms] assms
    by (auto simp: anvil_node_info_def Let_def bs_gas_price_def eth_error_codes_def
        split: sum.splits option.splits)
  subgoal using latest_block_error [OF assms]
    by (auto simp: anvil_metadata_def Let_def split: sum.splits option.splits)
  subgoal by (auto simp: anvil_add_balance_def dest: account_error split: sum.splits)
  subgoal by (auto simp: anvil_set_nonce_def split: if_splits option.splits)
  subgoal by (auto simp: anvil_load_state_def load_state_def dest: load_accounts_error split: sum.splits)
  subgoal by (auto simp: anvil_dump_state_def dest: dump_state_error)
  subgoal using find_slot_error [OF assms]
    by (auto simp: anvil_deal_erc20_def Let_def split: outcome.splits)
  subgoal using find_slot_error [OF assms]
    by (auto simp: anvil_set_erc20_allowance_def Let_def split: outcome.splits)
  subgoal by (auto simp: anvil_set_block_gas_limit_def rpc_set_block_gas_limit_def split: if_splits option.splits)
  subgoal by (auto simp: anvil_set_next_block_base_fee_per_gas_def split: if_splits option.splits)
  subgoal by (auto simp: anvil_set_next_block_timestamp_def split: sum.splits)
  done

lemma no_error:
  "fst (anvil_set_automine L b s) \<noteq> Err e" "fst (anvil_drop_transaction L h s) \<noteq> Err e"
  "fst (anvil_drop_all_transactions L s) \<noteq> Err e" "fst (anvil_remove_pool_transactions L a s) \<noteq> Err e"
  "fst (anvil_remove_block_timestamp_interval s) \<noteq> Err e" "fst (anvil_increase_time x s) \<noteq> Err e"
  "fst (anvil_set_time c1 c2 t s) \<noteq> Err e" "fst (anvil_set_code L a code s) \<noteq> Err e"
  by (simp_all add: anvil_set_automine_def anvil_drop_transaction_def anvil_drop_all_transactions_def
      anvil_remove_pool_transactions_def anvil_remove_block_timestamp_interval_def
      anvil_increase_time_def anvil_set_time_def anvil_set_code_def Let_def
      split: prod.split option.split)

section \<open>Properties\<close>

lemmas plain_handlers =
  anvil_impersonate_account_def anvil_stop_impersonating_account_def
  anvil_auto_impersonate_account_def anvil_get_automine_def anvil_get_interval_mining_def
  anvil_set_interval_mining_def anvil_set_logging_enabled_def
  anvil_set_block_timestamp_interval_def anvil_set_balance_def anvil_set_storage_at_def
  anvil_set_coinbase_def

lemma request_same:
  assumes "c \<notin> footprint r" and "\<forall>i t. same c t (during i t)"
  shows "same c s (snd (handle L during clock r s))"
  using assms(1)
  by (cases r)
    (auto simp: plain_handlers answer_def anvil_load_state_def anvil_dump_state_def when_some_def
      intro!: handlers_same load_state_same anvil_mine_same [OF assms(2)] mine_detailed_same [OF assms(2)]
      split: if_splits)

text \<open>
  C30: A request leaves alone every component that is not in the footprint of its method: a
  query changes nothing, an account method only the local accounts, a block-environment
  method only the overrides, a time method only the clock, and the mining methods only the
  mining control and, when they are given a timestamp or an interval, the clock. For the
  handlers that wait this is what they do themselves: the component has to be left alone by
  what happens during their sleeps. No method changes the node's configuration.
\<close>

theorem requests_respect_footprint:
  assumes "c \<notin> footprint r" and "\<forall>i t. same c t (during i t)"
  shows "same c s (snd (handle L during clock r s))"
  by (rule request_same [OF assms])

theorem requests_respect_footprint_witness:
  "same CTime (demo_rpc []) (snd (handle (demo_lib JNull) demo_during (0, 0)
     (RpcMine (Some 2) None) (demo_rpc [])))"
  by (rule requests_respect_footprint) (simp_all add: when_some_def)

text \<open>
  C31: Every error answer carries one of the two codes of the file (internal error, invalid
  params) or a code the ETH API itself answers with.
\<close>

theorem error_codes_of_requests:
  assumes "eth_error_codes L C" and "handle L during clock r s = (Err e, s')"
  shows "err_code e \<in> {- 32602, - 32603} \<union> C"
proof -
  have "fst (handle L during clock r s) = Err e" using assms(2) by simp
  then have "err_code e \<in> own_error_codes \<union> C"
    by (cases r)
      (simp_all del: Un_iff add: fst_answer plain_handlers no_error, (erule handlers_error [OF assms(1)] mine_detailed_error [OF assms(1)] mine_error [THEN UnI1])+)
  then show ?thesis by (simp add: own_error_codes_def)
qed

theorem error_codes_of_requests_witness:
  "err_code (invalid_params (timestamp_error 5)) \<in> {- 32602, - 32603} \<union> {3} \<and>
   eth_error_codes (demo_lib JNull) {3}"
proof -
  have eth: "eth_error_codes (demo_lib JNull) {3}"
    by (auto simp: eth_error_codes_def demo_eth_def split: block_number_or_tag.splits)
  have "handle (demo_lib JNull) demo_during (0, 0) (RpcSetNextBlockTimestamp 5) (demo_rpc []) =
      (Err (invalid_params (timestamp_error 5)), demo_rpc [])"
    by (simp add: answer_def anvil_set_next_block_timestamp_def set_next_block_timestamp_def
        new_time_manager_def reset_def)
  from error_codes_of_requests [OF eth this] eth show ?thesis by (rule conjI)
qed

end
