(* ===== verification/Balance_Race.thy ===== *)
theory Balance_Race
  imports Rpc_Accounts "HOL-Library.Sublist"
begin

text \<open>
  Concurrent balance requests (src/src/anvil_api.rs). \<open>anvil_addBalance\<close> reads the balance and
  writes the sum under two different guards of the account state, and the handlers run on a
  multi-threaded runtime. Here each access is one step; the threads all add to one account
  \<open>a\<close>, on a chain that does not move.
\<close>

section \<open>Threads and steps\<close>

datatype add_pc = AddIdle | AddRead u256 u256 | AddDone u256 | AddFailed rpc_error

record ('w, 'n, 'bc, 'x) balance_race =
  br_node :: "('w, 'n, 'bc, 'x) anvil_rpc"
  br_threads :: "nat \<Rightarrow> add_pc"
  br_log :: "u256 list"

text \<open>The amounts of the completed calls are logged, latest first.\<close>

fun may_start :: "add_pc \<Rightarrow> bool" where
  "may_start (AddRead _ _) = False"
| "may_start _ = True"

inductive br_step ::
  "('w, 'rx, 'n, 'f, 'bc, 'x, 'b) rpc_lib \<Rightarrow> address
     \<Rightarrow> ('w, 'n, 'bc, 'x) balance_race \<Rightarrow> ('w, 'n, 'bc, 'x) balance_race \<Rightarrow> bool" for L a where
  add_read:
    "may_start (br_threads s i) \<Longrightarrow> account_balance L (br_node s) a = Inr current \<Longrightarrow>
     br_step L a s (s\<lparr>br_threads := (br_threads s)(i := AddRead amount current)\<rparr>)"
| add_read_error:
    "may_start (br_threads s i) \<Longrightarrow> account_balance L (br_node s) a = Inl e \<Longrightarrow>
     br_step L a s (s\<lparr>br_threads := (br_threads s)(i := AddFailed e)\<rparr>)"
| add_write:
    "br_threads s i = AddRead amount current \<Longrightarrow>
     br_step L a s (s\<lparr>br_threads := (br_threads s)(i := AddDone amount),
                     br_node := upd_anvil_state (set_balance a (sat_add current amount)) (br_node s),
                     br_log := amount # br_log s\<rparr>)"

definition br_init :: "('w, 'n, 'bc, 'x) anvil_rpc \<Rightarrow> ('w, 'n, 'bc, 'x) balance_race" where
  "br_init s = \<lparr>br_node = s, br_threads = (\<lambda>_. AddIdle), br_log = []\<rparr>"

inductive br_reach ::
  "('w, 'rx, 'n, 'f, 'bc, 'x, 'b) rpc_lib \<Rightarrow> address \<Rightarrow> ('w, 'n, 'bc, 'x) anvil_rpc
     \<Rightarrow> ('w, 'n, 'bc, 'x) balance_race \<Rightarrow> bool" for L a s0 where
  br_start: "br_reach L a s0 (br_init s0)"
| br_next: "br_reach L a s0 s \<Longrightarrow> br_step L a s s' \<Longrightarrow> br_reach L a s0 s'"

section \<open>Invariant\<close>

text \<open>
  The balance, and every balance a thread has read, is the initial one with some of the
  completed amounts added, in the order of their completion.
\<close>

definition explained :: "u256 \<Rightarrow> u256 list \<Rightarrow> u256 \<Rightarrow> bool" where
  "explained b0 log b \<longleftrightarrow> (\<exists>ds. subseq ds log \<and> b = foldr (\<lambda>d b. sat_add b d) ds b0)"

definition br_inv ::
  "('w, 'rx, 'n, 'f, 'bc, 'x, 'b) rpc_lib \<Rightarrow> address \<Rightarrow> u256
     \<Rightarrow> ('w, 'n, 'bc, 'x) balance_race \<Rightarrow> bool" where
  "br_inv L a b0 s \<longleftrightarrow>
     (\<exists>b. account_balance L (br_node s) a = Inr b \<and> explained b0 (br_log s) b) \<and>
     (\<forall>i amount current. br_threads s i = AddRead amount current \<longrightarrow> explained b0 (br_log s) current)"

lemma explained_start: "explained b0 [] b0"
  unfolding explained_def by (intro exI [of _ "[]"]) simp

lemma explained_later: "explained b0 log b \<Longrightarrow> explained b0 (d # log) b"
  by (auto simp: explained_def intro: exI list_emb_Cons)

lemma explained_add: "explained b0 log b \<Longrightarrow> explained b0 (d # log) (sat_add b d)"
proof -
  assume "explained b0 log b"
  then obtain ds where "subseq ds log" "b = foldr (\<lambda>d b. sat_add b d) ds b0"
    by (auto simp: explained_def)
  then show ?thesis
    unfolding explained_def by (intro exI [of _ "d # ds"]) simp
qed

lemma br_inv_init:
  "account_balance L s a = Inr b \<Longrightarrow> br_inv L a b (br_init s)"
  by (simp add: br_inv_def br_init_def explained_start)

lemma br_inv_step:
  assumes "br_step L a s s'" and "br_inv L a b0 s"
  shows "br_inv L a b0 s'"
  using assms
proof (induction rule: br_step.induct)
  case (add_write s i amount current)
  then have "explained b0 (br_log s) current" by (auto simp: br_inv_def)
  then have "explained b0 (amount # br_log s) (sat_add current amount)" by (rule explained_add)
  with add_write(2) show ?case
    by (auto simp: br_inv_def balance_after_set intro: explained_later)
qed (auto simp: br_inv_def)

lemma br_reach_inv:
  assumes "account_balance L s0 a = Inr b" and "br_reach L a s0 s"
  shows "br_inv L a b s"
  using assms(2)
  by (induction rule: br_reach.induct) (auto intro: br_inv_init [OF assms(1)] br_inv_step)

lemma br_then: "br_reach L a s0 s \<Longrightarrow> br_step L a s t \<Longrightarrow> t = s' \<Longrightarrow> br_reach L a s0 s'"
  by (auto intro: br_next)

lemma foldr_sat_add_max:
  "unat (foldr (\<lambda>d b. sat_add b d) ds (b :: u256)) = min (unat b + sum_list (map unat ds)) (2 ^ 256 - 1)"
proof (induction ds)
  case Nil
  have "unat b \<le> 2 ^ 256 - 1" using unat_bound [of b] by simp
  then show ?case by (simp add: min_absorb1)
next
  case (Cons d ds)
  then show ?case by (simp add: unat_sat_add)
qed

lemma subseq_sum: "subseq ds log \<Longrightarrow> sum_list (map unat ds) \<le> sum_list (map unat (log :: u256 list))"
  by (induction ds log rule: list_emb.induct) auto

section \<open>Properties\<close>

text \<open>
  C34: Whatever the interleaving of any number of \<open>anvil_addBalance\<close> calls for an account, its
  balance is the initial one with some of the completed amounts added (saturating), so
  nothing is invented and nothing counted twice: it lies between the initial balance and
  the initial balance plus the sum of the completed amounts.
\<close>

theorem concurrent_additions_bounded:
  assumes "account_balance L s0 a = Inr b0" and "br_reach L a s0 s"
  shows "\<exists>b ds. account_balance L (br_node s) a = Inr b \<and> subseq ds (br_log s) \<and>
    unat b = min (unat b0 + sum_list (map unat ds)) (2 ^ 256 - 1) \<and>
    b0 \<le> b \<and> unat b \<le> unat b0 + sum_list (map unat (br_log s))"
proof -
  obtain b ds where b: "account_balance L (br_node s) a = Inr b"
    and ds: "subseq ds (br_log s)" "b = foldr (\<lambda>d b. sat_add b d) ds b0"
    using br_reach_inv [OF assms] by (auto simp: br_inv_def explained_def)
  have unat_b: "unat b = min (unat b0 + sum_list (map unat ds)) (2 ^ 256 - 1)"
    unfolding ds(2) by (rule foldr_sat_add_max)
  moreover have "unat b0 \<le> 2 ^ 256 - 1" using unat_bound [of b0] by simp
  then have "b0 \<le> b" unfolding word_le_nat_alt unat_b by simp
  moreover have "unat b \<le> unat b0 + sum_list (map unat (br_log s))"
    using unat_b subseq_sum [OF ds(1)] by simp
  ultimately show ?thesis using b ds(1) by blast
qed

text \<open>
  C35: An addition can be lost: two overlapping calls that both end with success can leave
  the account with only the second amount added.
\<close>

theorem concurrent_addition_can_be_lost:
  assumes "account_balance L s0 a = Inr b"
  shows "\<exists>s. br_reach L a s0 s \<and> br_threads s 0 = AddDone x \<and> br_threads s 1 = AddDone y \<and>
    br_log s = [y, x] \<and> account_balance L (br_node s) a = Inr (sat_add b y)"
proof -
  have "br_reach L a s0 ((br_init s0)\<lparr>br_threads := (\<lambda>_. AddIdle)(0 := AddRead x b)\<rparr>)"
    by (rule br_then [OF br_start add_read [of _ 0 _ _ b x]]) (simp_all add: br_init_def assms)
  then have "br_reach L a s0 ((br_init s0)\<lparr>br_threads := (\<lambda>_. AddIdle)(0 := AddRead x b, 1 := AddRead y b)\<rparr>)"
    by (rule br_then [OF _ add_read [of _ 1 _ _ b y]]) (simp_all add: br_init_def assms)
  then have "br_reach L a s0 \<lparr>br_node = upd_anvil_state (set_balance a (sat_add b x)) s0,
      br_threads = (\<lambda>_. AddIdle)(0 := AddDone x, 1 := AddRead y b), br_log = [x]\<rparr>"
    by (rule br_then [OF _ add_write [of _ 0 x b]]) (simp_all add: br_init_def fun_upd_twist)
  then have "br_reach L a s0 \<lparr>br_node = upd_anvil_state (set_balance a (sat_add b y))
        (upd_anvil_state (set_balance a (sat_add b x)) s0),
      br_threads = (\<lambda>_. AddIdle)(0 := AddDone x, 1 := AddDone y), br_log = [y, x]\<rparr>"
    by (rule br_then [OF _ add_write [of _ 1 y b]]) simp_all
  then show ?thesis
    by (intro exI conjI) (assumption | simp add: balance_after_set)+
qed

lemma demo_balance: "account_balance (demo_lib JNull) (demo_rpc []) 5 = Inr 100"
  by (simp add: account_balance_local demo_provider_def local_balance_def anvil_state_shared_def account_def)

theorem concurrent_addition_can_be_lost_witness:
  "\<exists>s. br_reach (demo_lib JNull) 5 (demo_rpc []) s \<and> br_log s = [9, 7] \<and>
     account_balance (demo_lib JNull) (br_node s) 5 = Inr 109"
  using concurrent_addition_can_be_lost [OF demo_balance, of 7 9] by (auto simp: sat_add_def)

theorem concurrent_additions_bounded_witness:
  "\<exists>s b. br_reach (demo_lib JNull) 5 (demo_rpc []) s \<and>
     account_balance (demo_lib JNull) (br_node s) 5 = Inr b \<and> 100 \<le> b"
  using concurrent_additions_bounded [OF demo_balance br_start]
  by (intro exI [of _ "br_init (demo_rpc [])"]) (auto intro: br_start)

end
