(* ===== verification/Node.thy ===== *)
theory Node
  imports Rpc_Api Rpc_Mining Rpc_Dump Evm_Config
begin

text \<open>
  The node (src/src/main.rs): the shared state it starts from, how the handlers, the block
  production hooks, the pool validator and the mining tasks act on it, and the invariants
  that hold however they interleave. The launcher, the chain and the network are the
  node's library code: they appear as steps on the world.
\<close>

section \<open>Start\<close>

text \<open>
  \<open>main\<close> creates one of each component and hands clones of the handles (the same shared
  state) to the pool, the executor, the RPC module, the payload hook and the two tasks.
  \<open>now\<close> is the wall clock when the time manager is created, \<open>instance_id\<close> the random id.
\<close>

definition node_init ::
  "('w, 'rx, 'n, 'f, 'bc, 'x, 'b) rpc_lib \<Rightarrow> u64 \<Rightarrow> u64 \<Rightarrow> chain_spec \<Rightarrow> b256 \<Rightarrow> 'x
     \<Rightarrow> ('w, 'n, 'bc, 'x) anvil_rpc" where
  "node_init L now genesis_timestamp dev instance_id world =
     (let impersonation = impersonation_default;
          mining = mining_controller_default (l_watch L) (l_notify L);
          time = new_time_manager now genesis_timestamp;
          block_env = block_env_default;
          anvil_state = anvil_state_shared;
          anvil_cx = anvil_context_new anvil_state block_env (anvil_node_config_new dev instance_id)
      in anvil_rpc_new impersonation mining time anvil_cx world)"

text \<open>\<open>extend_rpc_modules\<close>: the impersonated signer goes behind the signers of the ETH API.\<close>

definition extend_signers :: "'sg list \<Rightarrow> 'sg \<Rightarrow> 'sg list" where
  "extend_signers signers impersonated = signers @ [impersonated]"

section \<open>Runs\<close>

text \<open>
  What can happen to the shared state. A request is handled (during its sleeps the node runs
  on), the pool validates a transaction, a new head arrives. Handlers run on several threads
  and may interleave: every single write they make under a lock of the impersonation or of
  the local state is a step of its own, whatever address and value it writes (\<open>run_sender\<close>,
  \<open>run_override\<close>, \<open>run_code\<close>). The parts the invariants below say nothing of (time manager,
  mining controller, block environment overrides, chain and pool) may change in any way
  between two steps (\<open>run_elsewhere\<close>); this covers every interleaving of the separate locks
  of the time manager with the payload hook, of the executor and of the mining tasks, which
  \<open>Time_Race\<close>, \<open>Reset_Race\<close>, \<open>Mode_Race\<close>, \<open>Mining_Race\<close> and \<open>Interval_Task\<close> model in detail.
\<close>

inductive node_run ::
  "('w, 'rx, 'n, 'f, 'bc, 'x, 'b) rpc_lib \<Rightarrow> ('w, 'n, 'bc, 'x) anvil_rpc
     \<Rightarrow> ('w, 'n, 'bc, 'x) anvil_rpc \<Rightarrow> bool" for L where
  run_start: "node_run L s s"
| run_request:
    "node_run L s s1 \<Longrightarrow> (\<And>i t. node_run L t (during i t)) \<Longrightarrow>
     handle L during clock r s1 = (Ok v, s2) \<Longrightarrow> node_run L s s2"
| run_request_error:
    "node_run L s s1 \<Longrightarrow> (\<And>i t. node_run L t (during i t)) \<Longrightarrow>
     handle L during clock r s1 = (Err e, s2) \<Longrightarrow> node_run L s s2"
| run_validate:
    "node_run L s s1 \<Longrightarrow>
     node_run L s (s1\<lparr>rpc_state := snd (validate_transaction (T :: b256 pool_transaction)
       (inner_validate :: unit \<Rightarrow> b256 \<Rightarrow> (b256, unit) validation_outcome) origin tx (rpc_state s1))\<rparr>)"
| run_new_head:
    "node_run L s s1 \<Longrightarrow>
     node_run L s (s1\<lparr>rpc_state := snd (on_new_head_block (tx_hashes :: unit \<Rightarrow> b256 list)
       (on_head :: unit \<Rightarrow> unit \<Rightarrow> unit) blk (v, rpc_state s1))\<rparr>)"
| run_sender:
    "node_run L s s1 \<Longrightarrow> node_run L s (s1\<lparr>rpc_state := imp_exec c (rpc_state s1)\<rparr>)"
| run_override:
    "node_run L s s1 \<Longrightarrow> w \<in> {set_balance a v, set_nonce a n, set_storage_at a k v} \<Longrightarrow>
     node_run L s (upd_anvil_state w s1)"
| run_code:
    "node_run L s s1 \<Longrightarrow> set_code (l_code L) a code (anvil_state_of s1) = Some st \<Longrightarrow>
     node_run L s (upd_anvil_state (\<lambda>_. st) s1)"
| run_elsewhere:
    "node_run L s s1 \<Longrightarrow>
     node_run L s (upd_block_env g (s1\<lparr>rpc_time := tm, rpc_mining := m, rpc_world := x\<rparr>))"

inductive_cases node_runE: "node_run L s s'"

section \<open>Invariant\<close>

text \<open>The invariants of the components, together, and the configuration, which is constant.\<close>

definition node_inv ::
  "('w, 'rx, 'n, 'f, 'bc, 'x, 'b) rpc_lib \<Rightarrow> anvil_node_config \<Rightarrow> ('w, 'n, 'bc, 'x) anvil_rpc \<Rightarrow> bool" where
  "node_inv L cfg s \<longleftrightarrow>
     imp_wf (rpc_state s) \<and> as_wf (l_code L) (anvil_state_of s) \<and> cx_node (rpc_context s) = cfg"

lemma node_inv_updates:
  "node_inv L cfg s \<Longrightarrow> node_inv L cfg (s\<lparr>rpc_mining := m\<rparr>)"
  "node_inv L cfg s \<Longrightarrow> node_inv L cfg (s\<lparr>rpc_world := x\<rparr>)"
  "node_inv L cfg s \<Longrightarrow> imp_wf i \<Longrightarrow> node_inv L cfg (s\<lparr>rpc_state := i\<rparr>)"
  "node_inv L cfg s \<Longrightarrow> imp_wf i \<Longrightarrow> node_inv L cfg (s\<lparr>rpc_world := x, rpc_state := i\<rparr>)"
  "node_inv L cfg s \<Longrightarrow> node_inv L cfg (s\<lparr>rpc_time := tm\<rparr>)"
  "node_inv L cfg s \<Longrightarrow> node_inv L cfg (upd_block_env g s)"
  "node_inv L cfg s \<Longrightarrow> as_wf (l_code L) (f (anvil_state_of s)) \<Longrightarrow> node_inv L cfg (upd_anvil_state f s)"
  by (simp_all add: node_inv_def)

lemma node_invD:
  assumes "node_inv L cfg s"
  shows "imp_wf (rpc_state s)" "as_wf (l_code L) (anvil_state_of s)"
  using assms by (simp_all add: node_inv_def)

lemma snd_answer [simp]: "snd (answer f p) = snd p" "fst (answer f p) = map_outcome f (fst p)"
  by (simp_all add: answer_def)

lemma imp_wf_calls [wf_intros]:
  assumes "imp_wf i"
  shows "imp_wf (impersonate a i)" "imp_wf (stop_impersonating a i)"
    "imp_wf (set_auto_impersonate b i)" "imp_wf (forget_tx_sender h i)" "imp_wf (forget_tx_senders hs i)"
  using imp_wf_exec [OF assms, of "Impersonate a"] imp_wf_exec [OF assms, of "StopImpersonating a"]
    imp_wf_exec [OF assms, of "SetAuto b"] imp_wf_exec [OF assms, of "Forget h"]
    imp_wf_exec [OF assms, of "ForgetAll hs"]
  by simp_all

lemma mine_blocks_inv:
  assumes "\<forall>i t. node_inv L cfg t \<longrightarrow> node_inv L cfg (during i t)" and "node_inv L cfg s"
  shows "node_inv L cfg (snd (mine_blocks L during blocks s))"
proof -
  have fold: "node_inv L cfg (fold during ks t)" if "node_inv L cfg t" for ks t
    using that assms(1) by (induction ks arbitrary: t) auto
  have "node_inv L cfg (snd (wait_for_block_number L during e t))" if "node_inv L cfg t" for e t
    using that
    by (auto simp: wait_for_block_number_def wait_rounds_find after_sleeps_def fold split: option.split)
  then show ?thesis
    using assms(2)
    by (auto simp: mine_blocks_def Let_def case_prod_beta node_inv_updates split: sum.split prod.split)
qed

lemma anvil_mine_inv:
  assumes during: "\<forall>i t. node_inv L cfg t \<longrightarrow> node_inv L cfg (during i t)" and inv: "node_inv L cfg s"
  shows "node_inv L cfg (snd (anvil_mine L during n i s))"
proof (cases rule: anvil_mine_state [of L during n i s])
  case 1
  with inv show ?thesis by simp
next
  case (2 blocks)
  with mine_blocks_inv [OF during inv] show ?thesis by simp
next
  case (3 blocks secs s2)
  have "node_inv L cfg (s\<lparr>rpc_time := (rpc_time s)\<lparr>tm_interval := Some secs\<rparr>\<rparr>)"
    by (rule node_inv_updates [OF inv])
  then have s2: "node_inv L cfg s2"
    unfolding 3(1) by (rule mine_blocks_inv [OF during])
  show ?thesis
    unfolding 3(2) by (rule node_inv_updates [OF s2])
qed

lemma mine_detailed_inv:
  assumes during: "\<forall>i t. node_inv L cfg t \<longrightarrow> node_inv L cfg (during i t)" and inv: "node_inv L cfg s"
  shows "node_inv L cfg (snd (anvil_mine_detailed L during opts s))"
proof -
  obtain t b where opts: "(case (case opts of Some x \<Rightarrow> x | None \<Rightarrow> Options None None) of
      Options t b \<Rightarrow> (t, case b of Some n \<Rightarrow> n | None \<Rightarrow> 1) | Timestamp t \<Rightarrow> (t, 1)) = (t, b)"
    by (rule prod.exhaust)
  let ?tm = "case t of None \<Rightarrow> Inr (rpc_time s) | Some t \<Rightarrow> set_next_block_timestamp t (rpc_time s)"
  show ?thesis
  proof (cases ?tm)
    case (Inl e)
    with inv show ?thesis by (simp add: anvil_mine_detailed_def opts)
  next
    case (Inr tm)
    have "node_inv L cfg (s\<lparr>rpc_time := tm\<rparr>)" by (rule node_inv_updates [OF inv])
    from mine_blocks_inv [OF during this, where blocks = b] Inr show ?thesis
      by (cases "mine_blocks L during b (s\<lparr>rpc_time := tm\<rparr>)")
        (simp add: anvil_mine_detailed_def opts split: sum.split)
  qed
qed

lemma other_handlers_inv:
  assumes laws: "code_laws (l_code L)" and inv: "node_inv L cfg s"
  shows "node_inv L cfg (snd (anvil_set_automine L e s))"
    "node_inv L cfg (snd (anvil_drop_transaction L h s))"
    "node_inv L cfg (snd (anvil_drop_all_transactions L s))"
    "node_inv L cfg (snd (anvil_remove_pool_transactions L a s))"
    "node_inv L cfg (snd (anvil_get_genesis_time L s))"
    "node_inv L cfg (snd (anvil_node_info L s))"
    "node_inv L cfg (snd (anvil_metadata L s))"
    "node_inv L cfg (snd (anvil_remove_block_timestamp_interval s))"
    "node_inv L cfg (snd (anvil_increase_time x s))"
    "node_inv L cfg (snd (anvil_set_time c1 c2 t s))"
    "node_inv L cfg (snd (anvil_set_next_block_timestamp t s))"
    "node_inv L cfg (snd (anvil_add_balance L a x s))"
    "node_inv L cfg (snd (anvil_set_nonce a x s))"
    "node_inv L cfg (snd (anvil_set_code L a code s))"
    "node_inv L cfg (snd (anvil_load_state L z s))"
    "node_inv L cfg (snd (anvil_deal_erc20 L a b x s))"
    "node_inv L cfg (snd (anvil_set_erc20_allowance L a b' b x s))"
    "node_inv L cfg (snd (anvil_set_block_gas_limit x s))"
    "node_inv L cfg (snd (anvil_set_next_block_base_fee_per_gas x s))"
proof -
  note wf = node_invD [OF inv] and upd = node_inv_updates [OF inv]
  note imp = imp_wf_calls [OF wf(1)]
  have sets: "node_inv L cfg (upd_anvil_state (set_balance a' v) s)"
    "node_inv L cfg (upd_anvil_state (set_nonce a' n) s)"
    "node_inv L cfg (upd_anvil_state (set_storage_at a' k v) s)" for a' v n k
    by (rule upd(7), (rule as_wf_set_balance as_wf_set_nonce as_wf_set_storage_at), rule wf(2))+
  show "node_inv L cfg (snd (anvil_set_automine L e s))"
    using upd(1) by (simp add: anvil_set_automine_def Let_def)
  show "node_inv L cfg (snd (anvil_drop_transaction L h s))"
    using upd(2) upd(4) imp by (simp add: anvil_drop_transaction_def split: prod.split option.split)
  show "node_inv L cfg (snd (anvil_drop_all_transactions L s))"
    using upd(4) imp inv by (simp add: anvil_drop_all_transactions_def Let_def)
  show "node_inv L cfg (snd (anvil_remove_pool_transactions L a s))"
    using upd(4) imp by (simp add: anvil_remove_pool_transactions_def case_prod_beta)
  show "node_inv L cfg (snd (anvil_get_genesis_time L s))"
    using inv by (simp add: anvil_get_genesis_time_def split: sum.split option.split)
  show "node_inv L cfg (snd (anvil_node_info L s))"
    using inv by (simp add: anvil_node_info_def Let_def split: sum.split option.split)
  show "node_inv L cfg (snd (anvil_metadata L s))"
    using inv by (simp add: anvil_metadata_def Let_def split: sum.split)
  show "node_inv L cfg (snd (anvil_remove_block_timestamp_interval s))"
    using upd(5)
    by (simp add: anvil_remove_block_timestamp_interval_def case_prod_beta)
  show "node_inv L cfg (snd (anvil_increase_time x s))"
    using upd(5) inv
    by (simp add: anvil_increase_time_def case_prod_beta split: option.split)
  show "node_inv L cfg (snd (anvil_set_time c1 c2 t s))"
    using upd(5) by (simp add: anvil_set_time_def Let_def)
  show "node_inv L cfg (snd (anvil_set_next_block_timestamp t s))"
    using upd(5) inv
    by (auto simp: anvil_set_next_block_timestamp_def set_next_block_timestamp_def)
  show "node_inv L cfg (snd (anvil_add_balance L a x s))"
    using sets inv by (simp add: anvil_add_balance_def split: sum.split)
  show "node_inv L cfg (snd (anvil_set_nonce a x s))"
    using sets inv by (simp add: anvil_set_nonce_def split: option.split)
  show "node_inv L cfg (snd (anvil_set_code L a code s))"
    using upd(7) as_wf_set_code [OF laws wf(2)] inv by (simp add: anvil_set_code_def split: option.split)
  show "node_inv L cfg (snd (anvil_load_state L z s))"
  proof -
    have "node_inv L cfg (snd (load_accounts L accs s))" for accs
      by (subst load_accounts_frame) (rule upd(7), rule as_wf_load_accounts [OF laws wf(2)])
    with inv show ?thesis by (simp add: anvil_load_state_def load_state_def split: sum.split)
  qed
  show "node_inv L cfg (snd (anvil_deal_erc20 L a b x s))"
    using sets inv
    by (simp add: anvil_deal_erc20_def Let_def split: outcome.split)
  show "node_inv L cfg (snd (anvil_set_erc20_allowance L a b' b x s))"
    using sets inv
    by (simp add: anvil_set_erc20_allowance_def Let_def split: outcome.split)
  show "node_inv L cfg (snd (anvil_set_block_gas_limit x s))"
    using upd(6) inv
    by (simp add: anvil_set_block_gas_limit_def rpc_set_block_gas_limit_def split: option.split)
  show "node_inv L cfg (snd (anvil_set_next_block_base_fee_per_gas x s))"
    using upd(6) inv by (simp add: anvil_set_next_block_base_fee_per_gas_def split: option.split)
qed

text \<open>Every handler preserves the invariant.\<close>

lemma handle_inv:
  assumes laws: "code_laws (l_code L)"
    and during: "\<forall>i t. node_inv L cfg t \<longrightarrow> node_inv L cfg (during i t)"
    and inv: "node_inv L cfg s"
  shows "node_inv L cfg (snd (handle L during clock r s))"
proof -
  note wf = node_invD [OF inv] and upd = node_inv_updates [OF inv]
  have sets: "node_inv L cfg (upd_anvil_state (set_balance a v) s)"
    "node_inv L cfg (upd_anvil_state (set_storage_at a k v) s)" for a v k
    by (rule upd(7), (rule as_wf_set_balance as_wf_set_storage_at), rule wf(2))+
  show ?thesis
    using anvil_mine_inv [OF during inv] mine_detailed_inv [OF during inv]
      other_handlers_inv [OF laws inv] inv
      upd(3) [OF imp_wf_calls(1) [OF wf(1)]] upd(3) [OF imp_wf_calls(2) [OF wf(1)]]
      upd(3) [OF imp_wf_calls(3) [OF wf(1)]] upd(1) upd(6)
      upd(5)
      sets
    by (cases r)
      (simp_all add: anvil_impersonate_account_def anvil_stop_impersonating_account_def
        anvil_auto_impersonate_account_def anvil_get_automine_def anvil_get_interval_mining_def
        anvil_set_interval_mining_def anvil_set_logging_enabled_def
        anvil_set_block_timestamp_interval_def anvil_set_balance_def anvil_set_storage_at_def
        anvil_dump_state_def anvil_set_coinbase_def)
qed

lemma node_inv_init: "node_inv L (anvil_node_config_new dev i) (node_init L now g dev i x)"
  by (simp add: node_inv_def node_init_def anvil_rpc_new_def anvil_context_new_def Let_def
      imp_wf_default as_wf_shared)

lemma node_run_inv:
  assumes laws: "code_laws (l_code L)"
  shows "node_run L s s' \<Longrightarrow> node_inv L cfg s \<Longrightarrow> node_inv L cfg s'"
proof (induction rule: node_run.induct)
  case (run_request s s1 during clock r v s2)
  from handle_inv [OF laws, of cfg during s1 clock r] run_request show ?case by simp
next
  case (run_request_error s s1 during clock r e s2)
  from handle_inv [OF laws, of cfg during s1 clock r] run_request_error show ?case by simp
next
  case (run_validate s s1 T inner_validate origin tx)
  then have inv: "node_inv L cfg s1" by simp
  show ?case by (rule node_inv_updates(3) [OF inv]) (rule imp_wf_validate [OF node_invD(1) [OF inv]])
next
  case (run_new_head s s1 tx_hashes on_head blk v)
  then have inv: "node_inv L cfg s1" by simp
  show ?case
    by (rule node_inv_updates(3) [OF inv], rule imp_wf_new_head) (simp add: node_invD(1) [OF inv])
next
  case (run_sender s s1 c)
  then have inv: "node_inv L cfg s1" by simp
  show ?case by (rule node_inv_updates(3) [OF inv]) (rule imp_wf_exec [OF node_invD(1) [OF inv]])
next
  case (run_override s s1 w a v n k)
  then have inv: "node_inv L cfg s1" by simp
  show ?case
    using run_override.hyps(2) node_invD(2) [OF inv]
    by (intro node_inv_updates(7) [OF inv]) (auto intro: wf_intros)
next
  case (run_code s s1 a code st)
  then have inv: "node_inv L cfg s1" by simp
  show ?case
    by (rule node_inv_updates(7) [OF inv])
      (rule as_wf_set_code [OF laws node_invD(2) [OF inv] run_code.hyps(2)])
qed (simp_all add: node_inv_updates)

section \<open>Properties\<close>

text \<open>
  C3: Whatever requests are handled, transactions validated and heads announced, in any
  order, also during the sleeps of waiting handlers and with the single writes of concurrent
  handlers in between: from its start on the node keeps the impersonation containers free of
  duplicates, every overridden code hash resolvable, every local bytecode filed under the
  hash of its bytes, no key twice in the local state, and its configuration.
\<close>

theorem node_invariant:
  assumes "code_laws (l_code L)" and "node_run L (node_init L now genesis dev instance_id x) s"
  shows "imp_wf (rpc_state s) \<and> as_wf (l_code L) (anvil_state_of s) \<and>
    cx_node (rpc_context s) = anvil_node_config_new dev instance_id"
  using node_run_inv [OF assms(1,2) node_inv_init] by (simp add: node_inv_def)

text \<open>
  A run for the witness: a code is set by a request, a transaction of an impersonated sender
  is recorded, a concurrent handler writes a balance, and a block moves the clock.
\<close>

lemma demo_node_run:
  "\<exists>s. node_run (demo_lib JNull) (node_init (demo_lib JNull) 1000 1000 demo_spec 42 (10, [])) s \<and>
     tx_sender (rpc_state s) 7 = Some 5 \<and> local_balance (anvil_state_of s) 5 = Some 9 \<and>
     local_code_hash (anvil_state_of s) 5 = Some 1 \<and>
     last_timestamp (rpc_time s) = 2000"
proof -
  let ?L = "demo_lib JNull"
  let ?s0 = "node_init ?L 1000 1000 demo_spec 42 (10, [])"
  have start: "anvil_state_of ?s0 = anvil_state_shared"
    by (simp_all add: node_init_def anvil_rpc_new_def anvil_context_new_def Let_def)
  have idle: "node_run ?L t ((\<lambda>_. id) i t)" for i :: nat and t
    by (simp add: run_start)
  obtain st where st: "set_code demo_code 5 [1, 2] anvil_state_shared = Some st"
    by (cases "set_code demo_code 5 [1, 2] anvil_state_shared") (auto simp: set_code_panics demo_code_def)
  obtain s1 where h: "handle ?L (\<lambda>_. id) (0, 0) (RpcSetCode 5 [1, 2]) ?s0 = (Ok VUnit, s1)"
    and s1: "anvil_state_of s1 = st"
    by (simp add: anvil_set_code_def start st answer_def)
  let ?s2 = "s1\<lparr>rpc_state := imp_exec (Remember 7 5) (rpc_state s1)\<rparr>"
  let ?s3 = "upd_anvil_state (set_balance 5 9) ?s2"
  let ?s4 = "upd_block_env id (?s3\<lparr>rpc_time := snd (next_timestamp 2000 (new_time_manager 1000 1000)),
      rpc_mining := rpc_mining ?s3, rpc_world := rpc_world ?s3\<rparr>)"
  have "node_run ?L ?s0 s1" by (rule run_request [OF run_start idle h])
  then have "node_run ?L ?s0 ?s2" by (rule run_sender)
  then have "node_run ?L ?s0 ?s3"
    by (rule run_override [where a = 5 and v = 9 and n = 0 and k = 0]) simp
  then have "node_run ?L ?s0 ?s4" by (rule run_elsewhere)
  moreover have "last_timestamp (snd (next_timestamp 2000 (new_time_manager 1000 1000))) = 2000"
    by code_simp
  moreover have "local_code_hash st 5 = Some 1"
    using set_code_reads(1) [OF st, of 5] by (simp add: code_hash_of_def demo_code_def)
  ultimately show ?thesis
    using s1 by (intro exI [of _ ?s4]) (simp add: reg.sender_remember store.bal_set_bal)
qed

theorem node_invariant_witness:
  "\<exists>s. node_run (demo_lib JNull) (node_init (demo_lib JNull) 1000 1000 demo_spec 42 (10, [])) s \<and>
     tx_sender (rpc_state s) 7 = Some 5 \<and> local_balance (anvil_state_of s) 5 = Some 9 \<and>
     local_code_hash (anvil_state_of s) 5 = Some 1 \<and> last_timestamp (rpc_time s) = 2000 \<and>
     imp_wf (rpc_state s) \<and> as_wf demo_code (anvil_state_of s)"
proof -
  obtain s where run: "node_run (demo_lib JNull) (node_init (demo_lib JNull) 1000 1000 demo_spec 42 (10, [])) s"
    and s: "tx_sender (rpc_state s) 7 = Some 5" "local_balance (anvil_state_of s) 5 = Some 9"
      "local_code_hash (anvil_state_of s) 5 = Some 1" "last_timestamp (rpc_time s) = 2000"
    using demo_node_run by blast
  have "code_laws (l_code (demo_lib JNull))" by (simp add: demo_code_laws)
  from node_invariant [OF this run] run s show ?thesis by auto
qed

end
