(* ===== verification/Pool_Builder.thy ===== *)
theory Pool_Builder
  imports Pool_Validator
begin

text \<open>
  \<open>AnvilPoolBuilder\<close> (src/src/pool.rs): it configures the stock validation task, wraps its
  validator in an \<open>AnvilValidator\<close> that holds the shared impersonation handle, and starts
  the pool on it. The node's context, the stock builders and the pool are parameters: a
  record of the context's values, and a record of the library calls in the order the code
  makes them.
\<close>

section \<open>The parts\<close>

record ('v, 'h) anvil_validator =
  av_inner :: 'v
  av_state :: 'h

record 'h anvil_pool_builder =
  pb_state :: 'h

text \<open>What the code reads from the \<open>BuilderContext\<close>.\<close>

record ('prov, 'kzg, 'pc, 'te, 'err) builder_context =
  bc_pool_config :: 'pc
  bc_provider :: 'prov
  bc_kzg_settings :: "'err + 'kzg"
  bc_max_tx_input_bytes :: nat
  bc_rpc_tx_fee_cap :: "128 word"
  bc_max_tx_gas_limit :: "u64 option"
  bc_minimum_priority_fee :: "128 word option"
  bc_additional_validation_tasks :: nat
  bc_task_executor :: 'te

text \<open>
  The library: the blob store, the validator builder (\<open>'vb\<close>) with its setters, the executor
  (\<open>'ex\<close> before and \<open>'wx\<close> after its validator is wrapped) and the pool. \<open>map\<close> of an executor
  gets the closure with its captured variable (\<open>'c\<close>); \<open>None\<close> is a panic inside of it.
\<close>

record ('ctx, 'prov, 'kzg, 'pc, 'lt, 'te, 'err, 'evm, 'bs, 'vb, 'v, 'h, 'ex, 'wx, 'pool) pool_lib =
  pl_create_blob_store_with_cache :: "'ctx \<Rightarrow> nat option \<Rightarrow> 'err + 'bs"
  pl_eth_builder :: "'prov \<Rightarrow> 'evm \<Rightarrow> 'vb"
  pl_kzg_settings :: "'kzg \<Rightarrow> 'vb \<Rightarrow> 'vb"
  pl_with_max_tx_input_bytes :: "nat \<Rightarrow> 'vb \<Rightarrow> 'vb"
  pl_local_transactions_config :: "'pc \<Rightarrow> 'lt"
  pl_with_local_transactions_config :: "'lt \<Rightarrow> 'vb \<Rightarrow> 'vb"
  pl_set_tx_fee_cap :: "128 word \<Rightarrow> 'vb \<Rightarrow> 'vb"
  pl_with_max_tx_gas_limit :: "u64 option \<Rightarrow> 'vb \<Rightarrow> 'vb"
  pl_with_minimum_priority_fee :: "128 word option \<Rightarrow> 'vb \<Rightarrow> 'vb"
  pl_with_additional_tasks :: "nat \<Rightarrow> 'vb \<Rightarrow> 'vb"
  pl_build_with_tasks :: "'te \<Rightarrow> 'bs \<Rightarrow> 'vb \<Rightarrow> 'ex"
  pl_map :: "('v \<Rightarrow> 'h option \<Rightarrow> ('v, 'h) anvil_validator option \<times> 'h option)
     \<Rightarrow> 'h option \<Rightarrow> 'ex \<Rightarrow> 'wx option"
  pl_build_and_spawn_maintenance_task :: "'ctx \<Rightarrow> 'wx \<Rightarrow> 'bs \<Rightarrow> 'pc \<Rightarrow> 'err + 'pool"

section \<open>The builder\<close>

text \<open>
  The closure: it takes the handle out of the captured \<open>Option\<close>, so that it wraps the first
  validator it is called with and panics (\<open>unwrap\<close> of \<open>None\<close>) on a second call.
\<close>

definition wrap_validator ::
  "'v \<Rightarrow> 'h option \<Rightarrow> ('v, 'h) anvil_validator option \<times> 'h option" where
  "wrap_validator inner captured =
     (case captured of
        Some state \<Rightarrow> (Some \<lparr>av_inner = inner, av_state = state\<rparr>, None)
      | None \<Rightarrow> (None, None))"

text \<open>The stock validator's builder, with the settings of the node applied to it.\<close>

definition configured_builder ::
  "('ctx, 'prov, 'kzg, 'pc, 'lt, 'te, 'err, 'evm, 'bs, 'vb, 'v, 'h, 'ex, 'wx, 'pool) pool_lib
     \<Rightarrow> ('prov, 'kzg, 'pc, 'te, 'err) builder_context \<Rightarrow> 'kzg \<Rightarrow> 'evm \<Rightarrow> 'vb" where
  "configured_builder P c kzg evm_config =
     pl_with_additional_tasks P (bc_additional_validation_tasks c)
       (pl_with_minimum_priority_fee P (bc_minimum_priority_fee c)
         (pl_with_max_tx_gas_limit P (bc_max_tx_gas_limit c)
           (pl_set_tx_fee_cap P (bc_rpc_tx_fee_cap c)
             (pl_with_local_transactions_config P (pl_local_transactions_config P (bc_pool_config c))
               (pl_with_max_tx_input_bytes P (bc_max_tx_input_bytes c)
                 (pl_kzg_settings P kzg
                   (pl_eth_builder P (bc_provider c) evm_config)))))))"

text \<open>\<open>build_pool\<close>: an error (\<open>Some (Inl e)\<close>), a pool (\<open>Some (Inr pool)\<close>), or a panic (\<open>None\<close>).\<close>

definition build_pool ::
  "('ctx, 'prov, 'kzg, 'pc, 'lt, 'te, 'err, 'evm, 'bs, 'vb, 'v, 'h, 'ex, 'wx, 'pool) pool_lib
     \<Rightarrow> ('ctx \<Rightarrow> ('prov, 'kzg, 'pc, 'te, 'err) builder_context)
     \<Rightarrow> 'h anvil_pool_builder \<Rightarrow> 'ctx \<Rightarrow> 'evm \<Rightarrow> ('err + 'pool) option" where
  "build_pool P view self ctx evm_config =
     (let c = view ctx in
      case pl_create_blob_store_with_cache P ctx None of
        Inl e \<Rightarrow> Some (Inl e)
      | Inr blob_store \<Rightarrow>
          (case bc_kzg_settings c of
             Inl e \<Rightarrow> Some (Inl e)
           | Inr kzg \<Rightarrow>
               (let executor = pl_build_with_tasks P (bc_task_executor c) blob_store
                      (configured_builder P c kzg evm_config)
                in (case pl_map P wrap_validator (Some (pb_state self)) executor of
                      None \<Rightarrow> None
                    | Some executor' \<Rightarrow>
                        Some (pl_build_and_spawn_maintenance_task P ctx executor' blob_store (bc_pool_config c))))))"

section \<open>Properties\<close>

text \<open>
  What the library documents of \<open>map\<close>: it replaces the executor's validator (\<open>validator_of\<close>)
  by what the closure makes of it, called once; \<open>with_validator\<close> is the executor with
  another validator.
\<close>

definition maps_once ::
  "('ctx, 'prov, 'kzg, 'pc, 'lt, 'te, 'err, 'evm, 'bs, 'vb, 'v, 'h, 'ex, 'wx, 'pool) pool_lib
     \<Rightarrow> ('ex \<Rightarrow> 'v) \<Rightarrow> ('ex \<Rightarrow> ('v, 'h) anvil_validator \<Rightarrow> 'wx) \<Rightarrow> bool" where
  "maps_once P validator_of with_validator \<longleftrightarrow>
     (\<forall>f c ex. pl_map P f c ex = map_option (with_validator ex) (fst (f (validator_of ex) c)))"

text \<open>
  Building the pool never panics: if the blob store and the KZG settings are available
  the pool is started on the stock executor whose validator is wrapped with exactly the
  builder's impersonation handle, and otherwise the first of the two errors is returned,
  the blob store's first, and no pool is started.
\<close>

theorem build_pool_wraps_validator:
  assumes "maps_once P validator_of with_validator"
  shows "build_pool P view self ctx evm_config \<noteq> None \<and>
    (\<forall>e. pl_create_blob_store_with_cache P ctx None = Inl e \<longrightarrow>
       build_pool P view self ctx evm_config = Some (Inl e)) \<and>
    (\<forall>blob_store e. pl_create_blob_store_with_cache P ctx None = Inr blob_store \<longrightarrow>
       bc_kzg_settings (view ctx) = Inl e \<longrightarrow> build_pool P view self ctx evm_config = Some (Inl e)) \<and>
    (\<forall>blob_store kzg. pl_create_blob_store_with_cache P ctx None = Inr blob_store \<longrightarrow>
       bc_kzg_settings (view ctx) = Inr kzg \<longrightarrow>
       (let ex = pl_build_with_tasks P (bc_task_executor (view ctx)) blob_store
            (configured_builder P (view ctx) kzg evm_config)
        in build_pool P view self ctx evm_config =
             Some (pl_build_and_spawn_maintenance_task P ctx
               (with_validator ex \<lparr>av_inner = validator_of ex, av_state = pb_state self\<rparr>) blob_store (bc_pool_config (view ctx)))))"
  using assms
  by (auto simp: build_pool_def maps_once_def wrap_validator_def Let_def split: sum.split)

text \<open>
  An instance: the executor is the pair of the settings its builder collected and the stock
  validator (a unit value); the pool is the wrapped executor.
\<close>

definition demo_pool_lib ::
  "(unit, unit, unit, unit, unit, unit, string, unit, unit, string list, unit, nat,
    string list \<times> unit, string list \<times> (unit, nat) anvil_validator,
    string list \<times> (unit, nat) anvil_validator) pool_lib" where
  "demo_pool_lib =
     \<lparr>pl_create_blob_store_with_cache = (\<lambda>_ _. Inr ()),
      pl_eth_builder = (\<lambda>_ _. []),
      pl_kzg_settings = (\<lambda>_ b. ''kzg'' # b),
      pl_with_max_tx_input_bytes = (\<lambda>_ b. ''input_bytes'' # b),
      pl_local_transactions_config = id,
      pl_with_local_transactions_config = (\<lambda>_ b. ''local'' # b),
      pl_set_tx_fee_cap = (\<lambda>_ b. ''fee_cap'' # b),
      pl_with_max_tx_gas_limit = (\<lambda>_ b. ''gas_limit'' # b),
      pl_with_minimum_priority_fee = (\<lambda>_ b. ''priority_fee'' # b),
      pl_with_additional_tasks = (\<lambda>_ b. ''tasks'' # b),
      pl_build_with_tasks = (\<lambda>_ _ b. (b, ())),
      pl_map = (\<lambda>f c ex. map_option (Pair (fst ex)) (fst (f (snd ex) c))),
      pl_build_and_spawn_maintenance_task = (\<lambda>_ ex _ _. Inr ex)\<rparr>"

definition demo_builder_context :: "(unit, unit, unit, unit, string) builder_context" where
  "demo_builder_context =
     \<lparr>bc_pool_config = (), bc_provider = (), bc_kzg_settings = Inr (),
      bc_max_tx_input_bytes = 131072, bc_rpc_tx_fee_cap = 0, bc_max_tx_gas_limit = None,
      bc_minimum_priority_fee = None, bc_additional_validation_tasks = 1, bc_task_executor = ()\<rparr>"

theorem build_pool_wraps_validator_witness:
  "build_pool demo_pool_lib (\<lambda>_. demo_builder_context) \<lparr>pb_state = 7\<rparr> () () =
     Some (Inr ([''tasks'', ''priority_fee'', ''gas_limit'', ''fee_cap'', ''local'', ''input_bytes'', ''kzg''],
       \<lparr>av_inner = (), av_state = 7\<rparr>))"
proof -
  have "maps_once demo_pool_lib snd (\<lambda>ex v. (fst ex, v))"
    by (auto simp: maps_once_def demo_pool_lib_def)
  from build_pool_wraps_validator [OF this, of "\<lambda>_. demo_builder_context" "\<lparr>pb_state = 7\<rparr>" "()" "()"]
  show ?thesis
    by (auto simp: demo_pool_lib_def demo_builder_context_def configured_builder_def Let_def)
qed

end
