(* ===== verification/Node_Wiring.thy ===== *)
theory Node_Wiring
  imports Node Rpc_Contracts Pool_Builder State_Provider
begin

text \<open>
  How \<open>main\<close> (src/src/main.rs) puts the node together. Every component the parts share is
  an \<open>Arc\<close>: a value on a heap, reached through a handle, and \<open>clone\<close> copies the handle. Here
  the heap is explicit; \<open>main_wiring\<close> creates the components and hands their handles to the
  pool, the executor, the ETH API builder, the signer, the RPC module, the payload hook,
  the trigger stream and the two tasks, and \<open>part_step\<close> is what each part does, through the
  handles it was given. The theorem is that this is the same node as the one the other
  theories speak of, with one shared state.
\<close>

section \<open>The heap\<close>

type_synonym handle_id = nat

record ('w, 'n, 'bc) shared_heap =
  hp_impersonation :: "handle_id \<Rightarrow> impersonation"
  hp_mining :: "handle_id \<Rightarrow> ('w, 'n) mining_controller"
  hp_time :: "handle_id \<Rightarrow> time_manager"
  hp_block_env :: "handle_id \<Rightarrow> block_env_overrides"
  hp_accounts :: "handle_id \<Rightarrow> 'bc anvil_state"
  hp_free :: handle_id

definition new_impersonation ::
  "('w, 'n, 'bc) shared_heap \<Rightarrow> handle_id \<times> ('w, 'n, 'bc) shared_heap" where
  "new_impersonation h = (hp_free h,
     h\<lparr>hp_impersonation := (hp_impersonation h)(hp_free h := impersonation_default),
       hp_free := Suc (hp_free h)\<rparr>)"

definition new_mining ::
  "('w, 'rx) mode_watch \<Rightarrow> ('n, 'f) notify_ops \<Rightarrow> ('w, 'n, 'bc) shared_heap
     \<Rightarrow> handle_id \<times> ('w, 'n, 'bc) shared_heap" where
  "new_mining W N h = (hp_free h,
     h\<lparr>hp_mining := (hp_mining h)(hp_free h := mining_controller_default W N),
       hp_free := Suc (hp_free h)\<rparr>)"

definition new_time ::
  "u64 \<Rightarrow> u64 \<Rightarrow> ('w, 'n, 'bc) shared_heap \<Rightarrow> handle_id \<times> ('w, 'n, 'bc) shared_heap" where
  "new_time now genesis_timestamp h = (hp_free h,
     h\<lparr>hp_time := (hp_time h)(hp_free h := new_time_manager now genesis_timestamp),
       hp_free := Suc (hp_free h)\<rparr>)"

definition new_block_env ::
  "('w, 'n, 'bc) shared_heap \<Rightarrow> handle_id \<times> ('w, 'n, 'bc) shared_heap" where
  "new_block_env h = (hp_free h,
     h\<lparr>hp_block_env := (hp_block_env h)(hp_free h := block_env_default),
       hp_free := Suc (hp_free h)\<rparr>)"

definition new_accounts ::
  "('w, 'n, 'bc) shared_heap \<Rightarrow> handle_id \<times> ('w, 'n, 'bc) shared_heap" where
  "new_accounts h = (hp_free h,
     h\<lparr>hp_accounts := (hp_accounts h)(hp_free h := anvil_state_shared),
       hp_free := Suc (hp_free h)\<rparr>)"

text \<open>A builder of its own state, which \<open>main\<close> does not use.\<close>

definition anvil_eth_api_builder_default ::
  "('w, 'n, 'bc) shared_heap \<Rightarrow> handle_id anvil_eth_api_builder \<times> ('w, 'n, 'bc) shared_heap" where
  "anvil_eth_api_builder_default h =
     (let (state, h') = new_accounts h in (anvil_eth_api_builder_new state, h'))"

section \<open>The wiring\<close>

definition clone_handle :: "handle_id \<Rightarrow> handle_id" where
  "clone_handle r = r"

record context_handles =
  ch_anvil_state :: handle_id
  ch_block_env :: handle_id
  ch_node :: anvil_node_config

record rpc_handles =
  rh_state :: handle_id
  rh_mining :: handle_id
  rh_time :: handle_id
  rh_context :: context_handles

record node_wiring =
  nw_pool :: "handle_id anvil_pool_builder"
  nw_executor :: "(handle_id, handle_id) anvil_executor_builder"
  nw_eth :: "handle_id anvil_eth_api_builder"
  nw_signers :: "handle_id impersonated_signer list"
  nw_rpc :: rpc_handles
  nw_payload_hook :: "handle_id \<times> handle_id"
  nw_trigger_stream :: handle_id
  nw_automine_task :: handle_id
  nw_interval_task :: handle_id

definition main_wiring ::
  "('w, 'rx) mode_watch \<Rightarrow> ('n, 'f) notify_ops \<Rightarrow> u64 \<Rightarrow> u64 \<Rightarrow> chain_spec \<Rightarrow> b256
     \<Rightarrow> ('w, 'n, 'bc) shared_heap \<Rightarrow> node_wiring \<times> ('w, 'n, 'bc) shared_heap" where
  "main_wiring W N now genesis_timestamp dev instance_id h0 =
     (let (impersonation, h1) = new_impersonation h0;
          (mining, h2) = new_mining W N h1;
          (time, h3) = new_time now genesis_timestamp h2;
          (block_env, h4) = new_block_env h3;
          (anvil_state, h5) = new_accounts h4;
          anvil_context =
            \<lparr>ch_anvil_state = clone_handle anvil_state, ch_block_env = clone_handle block_env,
             ch_node = anvil_node_config_new dev instance_id\<rparr>
      in (\<lparr>nw_pool = \<lparr>pb_state = clone_handle impersonation\<rparr>,
           nw_executor = \<lparr>xb_state = clone_handle impersonation, xb_block_env = clone_handle block_env\<rparr>,
           nw_eth = anvil_add_ons id (clone_handle anvil_state),
           nw_signers = extend_signers [] (impersonated_signer_new (clone_handle impersonation)),
           nw_rpc = \<lparr>rh_state = clone_handle impersonation, rh_mining = clone_handle mining,
                     rh_time = clone_handle time, rh_context = anvil_context\<rparr>,
           nw_payload_hook = (time, block_env),
           nw_trigger_stream = mining,
           nw_automine_task = clone_handle mining,
           nw_interval_task = clone_handle mining\<rparr>, h5))"

text \<open>The shared state, read through the handles of the RPC module.\<close>

definition node_of ::
  "node_wiring \<Rightarrow> ('w, 'n, 'bc) shared_heap \<Rightarrow> 'x \<Rightarrow> ('w, 'n, 'bc, 'x) anvil_rpc" where
  "node_of w h x =
     (let r = nw_rpc w; c = rh_context r
      in anvil_rpc_new (hp_impersonation h (rh_state r)) (hp_mining h (rh_mining r))
           (hp_time h (rh_time r))
           (anvil_context_new (hp_accounts h (ch_anvil_state c)) (hp_block_env h (ch_block_env c))
             (ch_node c)) x)"

definition store_node ::
  "node_wiring \<Rightarrow> ('w, 'n, 'bc, 'x) anvil_rpc \<Rightarrow> ('w, 'n, 'bc) shared_heap
     \<Rightarrow> ('w, 'n, 'bc) shared_heap \<times> 'x" where
  "store_node w s h =
     (let r = nw_rpc w; c = rh_context r
      in (h\<lparr>hp_impersonation := (hp_impersonation h)(rh_state r := rpc_state s),
            hp_mining := (hp_mining h)(rh_mining r := rpc_mining s),
            hp_time := (hp_time h)(rh_time r := rpc_time s),
            hp_block_env := (hp_block_env h)(ch_block_env c := block_env_of s),
            hp_accounts := (hp_accounts h)(ch_anvil_state c := anvil_state_of s)\<rparr>, rpc_world s))"

section \<open>What the parts do\<close>

text \<open>The stock parts of the node the wrappers of this program call.\<close>

record ('origin, 'tx, 'o, 'blk, 'e, 'hdr, 'env, 'ctx, 'pl, 'btx, 'pe, 'bc, 'v) stock_parts =
  sk_tx :: "'tx pool_transaction"
  sk_validate :: "'origin \<Rightarrow> 'tx \<Rightarrow> ('tx, 'o) validation_outcome"
  sk_tx_hashes :: "'blk \<Rightarrow> b256 list"
  sk_evm :: "('e, 'hdr, 'env, 'ctx, 'pl, next_block_attributes) evm_config"
  sk_set_base_fee_opt :: "'env \<Rightarrow> u64 option \<Rightarrow> 'env"
  sk_codec :: "'btx tx_codec"
  sk_provider :: "('pe, 'bc, 'v) state_provider"

text \<open>
  The events: the pool validates a transaction or sees a new head, the executor builds a
  block environment or converts a transaction, an \<open>eth_*\<close> handler reads an account or
  looks for a signer, the miner asks for payload attributes, a request is handled, the two
  tasks do a round, or the chain and the pool move on their own.
\<close>

datatype ('origin, 'tx, 'blk, 'hdr, 'x) part_event =
    EvValidate 'origin 'tx
  | EvNewHead 'blk
  | EvBuildEnv 'hdr next_block_attributes
  | EvConvert bytes
  | EvEthAccount address
  | EvEthSigner address
  | EvPayload u64 payload_attributes
  | EvRequest rpc_request "u64 \<times> u64"
  | EvAutomine
  | EvInterval
  | EvWorld 'x

datatype ('tx, 'o, 'e, 'env, 'btx, 'pe, 'b) part_output =
    OValidated "('tx, 'o) validation_outcome"
  | OEnv "'e + 'env"
  | OConverted "tx_convert_error + ('btx \<times> address)"
  | OAccount "'pe + acct option"
  | OSigner bool
  | OPayload payload_attributes
  | OAnswer "'b rpc_value outcome"
  | ODone

text \<open>
  A part acts through its own handles. A request runs on the state behind the handles of
  the RPC module.
\<close>

fun part_step where
  "part_step L K during w (EvValidate origin tx) (h, x) =
     (let r = pb_state (nw_pool w);
          (out, i) = validate_transaction (sk_tx K) (sk_validate K) origin tx (hp_impersonation h r)
      in (OValidated out, h\<lparr>hp_impersonation := (hp_impersonation h)(r := i)\<rparr>, x))"
| "part_step L K during w (EvNewHead block) (h, x) =
     (let r = pb_state (nw_pool w);
          i = snd (on_new_head_block (sk_tx_hashes K) (\<lambda>_. id) block ((), hp_impersonation h r))
      in (ODone, h\<lparr>hp_impersonation := (hp_impersonation h)(r := i)\<rparr>, x))"
| "part_step L K during w (EvBuildEnv parent attributes) (h, x) =
     (let r = xb_block_env (nw_executor w);
          (env, b) = next_evm_env (sk_set_base_fee_opt K) (sk_evm K) parent attributes (hp_block_env h r)
      in (OEnv env, h\<lparr>hp_block_env := (hp_block_env h)(r := b)\<rparr>, x))"
| "part_step L K during w (EvConvert raw) (h, x) =
     (OConverted (convert_tx (sk_codec K) (hp_impersonation h (xb_state (nw_executor w))) raw), h, x)"
| "part_step L K during w (EvEthAccount a) (h, x) =
     (OAccount (sp_basic_account
        (build_eth_api id (nw_eth w) (hp_accounts h) (sk_provider K)) a), h, x)"
| "part_step L K during w (EvEthSigner a) (h, x) =
     (OSigner (list_ex (\<lambda>signer. is_signer_for (hp_impersonation h (is_state signer)) a)
        (nw_signers w)), h, x)"
| "part_step L K during w (EvPayload now attributes) (h, x) =
     (let (time, block_env) = nw_payload_hook w;
          (attributes', tm) =
            payload_attributes_hook now (hp_block_env h block_env) attributes (hp_time h time)
      in (OPayload attributes', h\<lparr>hp_time := (hp_time h)(time := tm)\<rparr>, x))"
| "part_step L K during w (EvRequest r clock) (h, x) =
     (let (v, s) = handle L during clock r (node_of w h x) in (OAnswer v, store_node w s h))"
| "part_step L K during w EvAutomine (h, x) =
     (let r = nw_automine_task w;
          m = automine_round (l_watch L) (l_notify L) (fst (l_pending_and_queued_txn_count L x))
            (hp_mining h r)
      in (ODone, h\<lparr>hp_mining := (hp_mining h)(r := m)\<rparr>, x))"
| "part_step L K during w EvInterval (h, x) =
     (let r = nw_interval_task w
      in if interval_mining (l_watch L) (hp_mining h r) = None then (ODone, h, x)
         else (ODone, h\<lparr>hp_mining := (hp_mining h)(r := trigger (l_notify L) (hp_mining h r))\<rparr>, x))"
| "part_step L K during w (EvWorld x') (h, x) = (ODone, h, x')"

text \<open>The same events on one shared state, as the runs of \<open>Node\<close> have them.\<close>

fun shared_step where
  "shared_step L K during (EvValidate origin tx) s =
     (let (out, i) = validate_transaction (sk_tx K) (sk_validate K) origin tx (rpc_state s)
      in (OValidated out, s\<lparr>rpc_state := i\<rparr>))"
| "shared_step L K during (EvNewHead block) s =
     (ODone, s\<lparr>rpc_state := forget_tx_senders (sk_tx_hashes K block) (rpc_state s)\<rparr>)"
| "shared_step L K during (EvBuildEnv parent attributes) s =
     (let (env, b) = next_evm_env (sk_set_base_fee_opt K) (sk_evm K) parent attributes (block_env_of s)
      in (OEnv env, upd_block_env (\<lambda>_. b) s))"
| "shared_step L K during (EvConvert raw) s =
     (OConverted (convert_tx (sk_codec K) (rpc_state s) raw), s)"
| "shared_step L K during (EvEthAccount a) s =
     (OAccount (basic_account (anvil_state_of s) (sk_provider K) a), s)"
| "shared_step L K during (EvEthSigner a) s = (OSigner (is_impersonated (rpc_state s) a), s)"
| "shared_step L K during (EvPayload now attributes) s =
     (let (attributes', tm) = payload_attributes_hook now (block_env_of s) attributes (rpc_time s)
      in (OPayload attributes', s\<lparr>rpc_time := tm\<rparr>))"
| "shared_step L K during (EvRequest r clock) s =
     (let (v, s') = handle L during clock r s in (OAnswer v, s'))"
| "shared_step L K during EvAutomine s =
     (ODone, s\<lparr>rpc_mining := automine_round (l_watch L) (l_notify L)
        (fst (l_pending_and_queued_txn_count L (rpc_world s))) (rpc_mining s)\<rparr>)"
| "shared_step L K during EvInterval s =
     (if interval_mining (l_watch L) (rpc_mining s) = None then (ODone, s)
      else (ODone, s\<lparr>rpc_mining := trigger (l_notify L) (rpc_mining s)\<rparr>))"
| "shared_step L K during (EvWorld x') s = (ODone, s\<lparr>rpc_world := x'\<rparr>)"

section \<open>Properties\<close>

text \<open>All handles of a component are the same handle.\<close>

definition well_wired :: "node_wiring \<Rightarrow> bool" where
  "well_wired w \<longleftrightarrow>
     pb_state (nw_pool w) = rh_state (nw_rpc w) \<and> xb_state (nw_executor w) = rh_state (nw_rpc w) \<and>
     nw_signers w = [impersonated_signer_new (rh_state (nw_rpc w))] \<and>
     xb_block_env (nw_executor w) = ch_block_env (rh_context (nw_rpc w)) \<and>
     eb_state (nw_eth w) = ch_anvil_state (rh_context (nw_rpc w)) \<and>
     nw_payload_hook w = (rh_time (nw_rpc w), ch_block_env (rh_context (nw_rpc w))) \<and>
     nw_trigger_stream w = rh_mining (nw_rpc w) \<and> nw_automine_task w = rh_mining (nw_rpc w) \<and>
     nw_interval_task w = rh_mining (nw_rpc w)"

lemmas new_defs = new_impersonation_def new_mining_def new_time_def new_block_env_def new_accounts_def

lemma main_wiring_wired: "well_wired (fst (main_wiring W N now genesis dev iid h))"
  by (simp add: main_wiring_def new_defs Let_def well_wired_def clone_handle_def anvil_add_ons_def
      anvil_eth_api_builder_new_def extend_signers_def)

lemma main_wiring_start:
  assumes "main_wiring (l_watch L) (l_notify L) now genesis dev iid h = (w, h')"
  shows "node_of w h' x = node_init L now genesis dev iid x"
  using assms
  by (auto simp: main_wiring_def new_defs Let_def clone_handle_def node_of_def node_init_def)

lemma node_of_simps [simp]:
  "rpc_state (node_of w h x) = hp_impersonation h (rh_state (nw_rpc w))"
  "rpc_mining (node_of w h x) = hp_mining h (rh_mining (nw_rpc w))"
  "rpc_time (node_of w h x) = hp_time h (rh_time (nw_rpc w))"
  "anvil_state_of (node_of w h x) = hp_accounts h (ch_anvil_state (rh_context (nw_rpc w)))"
  "block_env_of (node_of w h x) = hp_block_env h (ch_block_env (rh_context (nw_rpc w)))"
  "cx_node (rpc_context (node_of w h x)) = ch_node (rh_context (nw_rpc w))"
  "rpc_world (node_of w h x) = x"
  by (simp_all add: node_of_def Let_def anvil_rpc_new_def anvil_context_new_def)

lemma anvil_rpc_eqI:
  assumes "rpc_state s = rpc_state t" "rpc_mining s = rpc_mining t" "rpc_time s = rpc_time t"
    "anvil_state_of s = anvil_state_of t" "block_env_of s = block_env_of t"
    "cx_node (rpc_context s) = cx_node (rpc_context t)" "rpc_world s = rpc_world t"
  shows "s = t"
  using assms by (intro anvil_rpc.equality anvil_context.equality) simp_all

lemma node_of_store:
  assumes "cx_node (rpc_context s) = ch_node (rh_context (nw_rpc w))"
  shows "(\<lambda>(h', x'). node_of w h' x') (store_node w s h) = s"
  by (rule anvil_rpc_eqI) (simp_all add: store_node_def Let_def assms)

text \<open>One event: the outputs agree, and so do the states the RPC module sees afterwards.\<close>

lemma part_step_simulates:
  assumes "well_wired w" and "\<forall>i t. same CConfig t (during i t)"
  shows "fst (part_step L K during w ev (h, x)) = fst (shared_step L K during ev (node_of w h x)) \<and>
    (\<lambda>(h', x'). node_of w h' x') (snd (part_step L K during w ev (h, x))) =
      snd (shared_step L K during ev (node_of w h x))"
proof (cases ev)
  case (EvRequest r clock)
  have "CConfig \<notin> footprint r"
    by (cases r rule: footprint.cases) (simp_all add: when_some_def)
  from request_same [OF this assms(2), of "node_of w h x" L clock]
  have "cx_node (rpc_context (snd (handle L during clock r (node_of w h x)))) =
      ch_node (rh_context (nw_rpc w))" by simp
  from node_of_store [OF this, of h] show ?thesis
    by (simp add: EvRequest case_prod_beta)
qed (use assms(1) in \<open>auto simp: well_wired_def case_prod_beta Let_def on_new_head_block_def
    impersonated_signer_new_def is_signer_for_def build_eth_api_def anvil_state_provider_def
    intro!: anvil_rpc_eqI\<close>)

text \<open>
  C28: The parts of the node act on one shared state: whatever heap the program starts on,
  any sequence of events, each part acting through the handles \<open>main\<close> gave it, has exactly
  the outputs of the same events on a single shared state that starts as \<open>node_init\<close>, and
  leaves that state behind the handles of the RPC module. (So a sender the RPC module
  impersonates is accepted by the pool and offered by the signer, a sender the pool records
  is used by the executor, an override is seen by the \<open>eth_*\<close> handlers, and the payload
  hook uses the time and coinbase set by requests.)
\<close>

theorem parts_share_state:
  assumes "main_wiring (l_watch L) (l_notify L) now genesis dev iid h0 = (w, h)"
    and "\<forall>i t. same CConfig t (during i t)"
  shows "fst (runs (part_step L K during w) evs (h, x)) =
      fst (runs (shared_step L K during) evs (node_init L now genesis dev iid x)) \<and>
    (\<lambda>(h', x'). node_of w h' x') (snd (runs (part_step L K during w) evs (h, x))) =
      snd (runs (shared_step L K during) evs (node_init L now genesis dev iid x))"
proof -
  have wired: "well_wired w"
    using main_wiring_wired [of "l_watch L" "l_notify L" now genesis dev iid h0] assms(1) by simp
  have "fst (runs (part_step L K during w) evs (h, x)) =
      fst (runs (shared_step L K during) evs (node_of w h x)) \<and>
    (\<lambda>(h', x'). node_of w h' x') (snd (runs (part_step L K during w) evs (h, x))) =
      snd (runs (shared_step L K during) evs (node_of w h x))" for h x
  proof (induction evs arbitrary: h x)
    case (Cons ev evs)
    obtain h' x' where st: "snd (part_step L K during w ev (h, x)) = (h', x')"
      by (rule prod.exhaust)
    then show ?case
      using part_step_simulates [OF wired assms(2), of L K ev h x] Cons.IH [of h' x']
      by (simp add: runs_Cons)
  qed simp
  then show ?thesis by (simp add: main_wiring_start [OF assms(1)])
qed

text \<open>
  An instance: an account is impersonated by a request, a transaction of it validated by the
  pool and converted by the executor.
\<close>

definition demo_stock ::
  "(unit, b256 \<times> address \<times> u64, unit, unit, unit, unit, unit, unit, unit, b256, string, bytes, unit)
     stock_parts" where
  "demo_stock =
     \<lparr>sk_tx = demo_tx, sk_validate = (\<lambda>_ _. OtherOutcome ()), sk_tx_hashes = (\<lambda>_. []),
      sk_evm = \<lparr>ev_block_executor_factory = (), ev_block_assembler = (),
        ev_evm_env = (\<lambda>_. Inr ()), ev_next_evm_env = (\<lambda>_ _. Inr ()),
        ev_context_for_block = (\<lambda>_. Inr ()), ev_context_for_next_block = (\<lambda>_ _. Inr ()),
        ev_evm_env_for_payload = (\<lambda>_. Inr ()), ev_context_for_payload = (\<lambda>_. Inr ())\<rparr>,
      sk_set_base_fee_opt = (\<lambda>e _. e), sk_codec = demo_codec, sk_provider = demo_provider\<rparr>"

definition demo_heap :: "(mining_mode \<times> nat, bool, bytes) shared_heap" where
  "demo_heap =
     \<lparr>hp_impersonation = (\<lambda>_. impersonation_default),
      hp_mining = (\<lambda>_. mining_controller_default demo_watch demo_notify),
      hp_time = (\<lambda>_. new_time_manager 0 0), hp_block_env = (\<lambda>_. block_env_default),
      hp_accounts = (\<lambda>_. anvil_state_shared), hp_free = 3\<rparr>"

theorem parts_share_state_witness:
  "fst (runs (part_step (demo_lib JNull) demo_stock demo_during
      (fst (main_wiring demo_watch demo_notify 1000 1000 demo_spec 42 demo_heap)))
      [EvRequest (RpcImpersonateAccount 9) (0, 0), EvValidate () (7, 9, 0), EvConvert [7], EvEthSigner 9]
      (snd (main_wiring demo_watch demo_notify 1000 1000 demo_spec 42 demo_heap), (10, []))) =
   [OAnswer (Ok VUnit), OValidated (ValidTx (- 1) 0 None (7, 9, 0) True None),
    OConverted (Inr (7, 9)), OSigner True]"
proof -
  let ?wh = "main_wiring demo_watch demo_notify 1000 1000 demo_spec 42 demo_heap"
  have "main_wiring (l_watch (demo_lib JNull)) (l_notify (demo_lib JNull)) 1000 1000 demo_spec 42 demo_heap =
      (fst ?wh, snd ?wh)" by simp
  moreover have "\<forall>i t. same CConfig t (demo_during i t)" by (simp add: demo_during_def)
  ultimately have "fst (runs (part_step (demo_lib JNull) demo_stock demo_during (fst ?wh)) evs (snd ?wh, (10, []))) =
      fst (runs (shared_step (demo_lib JNull) demo_stock demo_during) evs
        (node_init (demo_lib JNull) 1000 1000 demo_spec 42 (10, [])))" for evs
    using parts_share_state [of "demo_lib JNull" 1000 1000 demo_spec 42 demo_heap "fst ?wh" "snd ?wh"
        demo_during demo_stock evs "(10, [])"] by blast
  note eq = this
  have start: "rpc_state (node_init (demo_lib JNull) 1000 1000 demo_spec 42 (10, [])) = impersonation_default"
    by (simp add: node_init_def anvil_rpc_new_def Let_def)
  show ?thesis
    unfolding eq
    by (simp add: runs_Cons case_prod_beta anvil_impersonate_account_def answer_def demo_stock_def start
        validate_transaction_def is_impersonated_def impersonate_def demo_tx_def convert_tx_def
        demo_codec_def remember_tx_sender_def tx_sender_def impersonation_default_def)
qed

end
