(* ===== verification/Block_Production.thy ===== *)
theory Block_Production
  imports Rpc_Contracts Rpc_Accounts Evm_Config
begin

text \<open>
  One block of the local miner, end to end: the payload attributes pass the hook
  (src/src/time.rs), the environment of the block is built by \<open>AnvilEvmConfig\<close>
  (src/src/evm.rs), and the library seals the block and makes it the head. What the
  library does in between is a record of functions with the laws the program relies on.
  The properties follow a request from the RPC handler that stores it to the block that
  shows it.
\<close>

section \<open>The library's part\<close>

text \<open>
  On a world \<open>'x\<close> (the chain and the pool): the wall clock while the next block is made, the
  attributes the local miner proposes, the parent, what it hands to the EVM configuration,
  and sealing, which appends a block; \<open>bl_header\<close> looks a header up by its number.
\<close>

record ('x, 'e, 'hdr, 'env, 'ctx, 'pl) block_lib =
  bl_clock :: "'x \<Rightarrow> u64"
  bl_attributes :: "'x \<Rightarrow> payload_attributes"
  bl_parent :: "'x \<Rightarrow> 'hdr"
  bl_next_attributes :: "payload_attributes \<Rightarrow> 'x \<Rightarrow> next_block_attributes"
  bl_evm :: "('e, 'hdr, 'env, 'ctx, 'pl, next_block_attributes) evm_config"
  bl_set_base_fee_opt :: "'env \<Rightarrow> u64 option \<Rightarrow> 'env"
  bl_env_gas_limit :: "'env \<Rightarrow> u64"
  bl_env_base_fee :: "'env \<Rightarrow> u64"
  bl_append :: "payload_attributes \<Rightarrow> 'env \<Rightarrow> 'x \<Rightarrow> 'x"
  bl_best :: "'x \<Rightarrow> u64"
  bl_header :: "'x \<Rightarrow> u64 \<Rightarrow> block_header option"

text \<open>
  The environment the configuration builds has the gas limit of the attributes, a base-fee
  override sets the base fee and nothing else, and sealing appends one block whose header
  shows the attributes and the environment it was built with.
\<close>

definition block_lib_laws :: "('x, 'e, 'hdr, 'env, 'ctx, 'pl) block_lib \<Rightarrow> bool" where
  "block_lib_laws B \<longleftrightarrow>
     (\<forall>parent attributes. \<exists>env. ev_next_evm_env (bl_evm B) parent attributes = Inr env \<and>
        bl_env_gas_limit B env = nb_gas_limit attributes) \<and>
     (\<forall>env fee. bl_env_base_fee B (bl_set_base_fee_opt B env (Some fee)) = fee) \<and>
     (\<forall>env. bl_set_base_fee_opt B env None = env) \<and>
     (\<forall>env fee. bl_env_gas_limit B (bl_set_base_fee_opt B env fee) = bl_env_gas_limit B env) \<and>
     (\<forall>attributes env x. bl_best B (bl_append B attributes env x) = bl_best B x + 1 \<and>
        (\<exists>h. bl_header B (bl_append B attributes env x) (bl_best B x + 1) = Some h \<and>
           bh_number h = bl_best B x + 1 \<and> bh_timestamp h = pa_timestamp attributes \<and>
           bh_beneficiary h = pa_suggested_fee_recipient attributes \<and>
           bh_gas_limit h = bl_env_gas_limit B env \<and>
           bh_base_fee_per_gas h = Some (bl_env_base_fee B env)) \<and>
        (\<forall>n. n \<noteq> bl_best B x + 1 \<longrightarrow>
           bl_header B (bl_append B attributes env x) n = bl_header B x n))"

section \<open>One block\<close>

definition produce_block ::
  "('x, 'e, 'hdr, 'env, 'ctx, 'pl) block_lib \<Rightarrow> ('w, 'n, 'bc, 'x) anvil_rpc
     \<Rightarrow> ('w, 'n, 'bc, 'x) anvil_rpc" where
  "produce_block B s =
     (let x = rpc_world s;
          (attributes, tm) =
            payload_attributes_hook (bl_clock B x) (block_env_of s) (bl_attributes B x) (rpc_time s);
          (env, b) = next_evm_env (bl_set_base_fee_opt B) (bl_evm B) (bl_parent B x)
            (bl_next_attributes B attributes x) (block_env_of s);
          s1 = upd_block_env (\<lambda>_. b) (s\<lparr>rpc_time := tm\<rparr>)
      in (case env of
            Inl e \<Rightarrow> s1
          | Inr env' \<Rightarrow> s1\<lparr>rpc_world := bl_append B attributes env' x\<rparr>))"

text \<open>The block that is made in a state: its header, under the number after the head.\<close>

definition next_header ::
  "('x, 'e, 'hdr, 'env, 'ctx, 'pl) block_lib \<Rightarrow> ('w, 'n, 'bc, 'x) anvil_rpc \<Rightarrow> block_header option" where
  "next_header B s = bl_header B (rpc_world (produce_block B s)) (bl_best B (rpc_world s) + 1)"

lemma hook_fields:
  "snd (payload_attributes_hook now b attrs tm) = snd (next_timestamp now tm)"
  "pa_timestamp (fst (payload_attributes_hook now b attrs tm)) = fst (next_timestamp now tm)"
  "pa_suggested_fee_recipient (fst (payload_attributes_hook now b attrs tm)) =
     (case coinbase b of Some a \<Rightarrow> a | None \<Rightarrow> pa_suggested_fee_recipient attrs)"
  by (auto simp: payload_attributes_hook_def case_prod_beta Let_def split: option.splits)

lemma apply_gas_limit_value:
  "nb_gas_limit (apply_gas_limit b attrs) =
     (case gas_limit b of Some g \<Rightarrow> g | None \<Rightarrow> nb_gas_limit attrs)"
  by (simp add: apply_gas_limit_def split: option.split)

text \<open>What a block leaves behind, and what its header shows.\<close>

lemma produce_block_state:
  assumes "block_lib_laws B"
  shows "rpc_time (produce_block B s) = snd (next_timestamp (bl_clock B (rpc_world s)) (rpc_time s))"
    "block_env_of (produce_block B s) = (block_env_of s)\<lparr>ov_next_base_fee := None\<rparr>"
    "rpc_state (produce_block B s) = rpc_state s" "rpc_mining (produce_block B s) = rpc_mining s"
    "anvil_state_of (produce_block B s) = anvil_state_of s"
    "cx_node (rpc_context (produce_block B s)) = cx_node (rpc_context s)"
    "bl_best B (rpc_world (produce_block B s)) = bl_best B (rpc_world s) + 1"
    "n \<noteq> bl_best B (rpc_world s) + 1 \<Longrightarrow>
       bl_header B (rpc_world (produce_block B s)) n = bl_header B (rpc_world s) n"
proof -
  let ?x = "rpc_world s"
  let ?hook = "payload_attributes_hook (bl_clock B ?x) (block_env_of s) (bl_attributes B ?x) (rpc_time s)"
  let ?attrs = "apply_gas_limit (block_env_of s) (bl_next_attributes B (fst ?hook) ?x)"
  obtain env where env: "ev_next_evm_env (bl_evm B) (bl_parent B ?x) ?attrs = Inr env"
    using assms unfolding block_lib_laws_def by blast
  have eq: "produce_block B s = (upd_block_env (\<lambda>_. (block_env_of s)\<lparr>ov_next_base_fee := None\<rparr>)
      (s\<lparr>rpc_time := snd ?hook\<rparr>))\<lparr>rpc_world :=
        bl_append B (fst ?hook) (bl_set_base_fee_opt B env (ov_next_base_fee (block_env_of s))) ?x\<rparr>"
    by (simp add: produce_block_def Let_def case_prod_beta next_evm_env_def env take_next_base_fee_def)
  show "rpc_time (produce_block B s) = snd (next_timestamp (bl_clock B ?x) (rpc_time s))"
    "block_env_of (produce_block B s) = (block_env_of s)\<lparr>ov_next_base_fee := None\<rparr>"
    "rpc_state (produce_block B s) = rpc_state s" "rpc_mining (produce_block B s) = rpc_mining s"
    "anvil_state_of (produce_block B s) = anvil_state_of s"
    "cx_node (rpc_context (produce_block B s)) = cx_node (rpc_context s)"
    by (simp_all add: eq hook_fields)
  show "bl_best B (rpc_world (produce_block B s)) = bl_best B ?x + 1"
    "n \<noteq> bl_best B ?x + 1 \<Longrightarrow> bl_header B (rpc_world (produce_block B s)) n = bl_header B ?x n"
    using assms by (simp_all add: eq block_lib_laws_def)
qed

lemma next_header_shows:
  assumes "block_lib_laws B"
  obtains h env where "next_header B s = Some h"
    and "bh_number h = bl_best B (rpc_world s) + 1"
    and "bh_timestamp h = fst (next_timestamp (bl_clock B (rpc_world s)) (rpc_time s))"
    and "bh_beneficiary h = (case coinbase (block_env_of s) of
       Some a \<Rightarrow> a | None \<Rightarrow> pa_suggested_fee_recipient (bl_attributes B (rpc_world s)))"
    and "\<And>g. gas_limit (block_env_of s) = Some g \<Longrightarrow> bh_gas_limit h = g"
    and "bh_base_fee_per_gas h = Some (case ov_next_base_fee (block_env_of s) of
       Some fee \<Rightarrow> fee | None \<Rightarrow> bl_env_base_fee B env)"
    and "\<exists>attrs. ev_next_evm_env (bl_evm B) (bl_parent B (rpc_world s)) attrs = Inr env"
proof -
  let ?x = "rpc_world s"
  let ?hook = "payload_attributes_hook (bl_clock B ?x) (block_env_of s) (bl_attributes B ?x) (rpc_time s)"
  let ?attrs = "apply_gas_limit (block_env_of s) (bl_next_attributes B (fst ?hook) ?x)"
  obtain env where env: "ev_next_evm_env (bl_evm B) (bl_parent B ?x) ?attrs = Inr env"
    and gas: "bl_env_gas_limit B env = nb_gas_limit ?attrs"
    using assms unfolding block_lib_laws_def by blast
  let ?env = "bl_set_base_fee_opt B env (ov_next_base_fee (block_env_of s))"
  have "rpc_world (produce_block B s) = bl_append B (fst ?hook) ?env ?x"
    by (simp add: produce_block_def Let_def case_prod_beta next_evm_env_def env take_next_base_fee_def)
  moreover obtain h where "bl_header B (bl_append B (fst ?hook) ?env ?x) (bl_best B ?x + 1) = Some h"
    and h: "bh_number h = bl_best B ?x + 1" "bh_timestamp h = pa_timestamp (fst ?hook)"
      "bh_beneficiary h = pa_suggested_fee_recipient (fst ?hook)"
      "bh_gas_limit h = bl_env_gas_limit B ?env"
      "bh_base_fee_per_gas h = Some (bl_env_base_fee B ?env)"
    using assms unfolding block_lib_laws_def by blast
  ultimately have "next_header B s = Some h"
    by (simp add: next_header_def)
  then show ?thesis
  proof (rule that [of h env])
    show "\<And>g. gas_limit (block_env_of s) = Some g \<Longrightarrow> bh_gas_limit h = g"
      using assms by (simp add: h gas apply_gas_limit_value block_lib_laws_def)
    show "bh_base_fee_per_gas h = Some (case ov_next_base_fee (block_env_of s) of
       Some fee \<Rightarrow> fee | None \<Rightarrow> bl_env_base_fee B env)"
      using assms by (auto simp: h block_lib_laws_def split: option.split)
    show "\<exists>attrs. ev_next_evm_env (bl_evm B) (bl_parent B ?x) attrs = Inr env"
      using env by blast
  qed (simp_all add: h hook_fields)
qed

lemma produce_block_appends:
  assumes "block_lib_laws B"
  shows "\<exists>attrs env. rpc_world (produce_block B s) = bl_append B attrs env (rpc_world s) \<and>
    (\<forall>fee. ov_next_base_fee (block_env_of s) = Some fee \<longrightarrow> bl_env_base_fee B env = fee) \<and>
    (gas_limit (block_env_of s) = None \<longrightarrow>
       bl_env_gas_limit B env = nb_gas_limit (bl_next_attributes B attrs (rpc_world s)))"
proof -
  let ?x = "rpc_world s"
  let ?hook = "payload_attributes_hook (bl_clock B ?x) (block_env_of s) (bl_attributes B ?x) (rpc_time s)"
  let ?attrs = "apply_gas_limit (block_env_of s) (bl_next_attributes B (fst ?hook) ?x)"
  obtain env where env: "ev_next_evm_env (bl_evm B) (bl_parent B ?x) ?attrs = Inr env"
    and gas: "bl_env_gas_limit B env = nb_gas_limit ?attrs"
    using assms unfolding block_lib_laws_def by blast
  let ?env = "bl_set_base_fee_opt B env (ov_next_base_fee (block_env_of s))"
  have "rpc_world (produce_block B s) = bl_append B (fst ?hook) ?env ?x"
    by (simp add: produce_block_def Let_def case_prod_beta next_evm_env_def env take_next_base_fee_def)
  then show ?thesis
    using assms gas by (intro exI [of _ "fst ?hook"] exI [of _ ?env])
      (simp add: block_lib_laws_def apply_gas_limit_value)
qed

section \<open>From requests to blocks\<close>

lemma runs_requests_same:
  assumes "\<forall>r\<in>set rs. c \<notin> footprint r" and "\<forall>i t. same c t (during i t)"
  shows "same c s (snd (runs (handle L during clock) rs s))"
  using assms(1)
proof (induction rs arbitrary: s)
  case (Cons r rs)
  have "same c s (snd (handle L during clock r s))"
    by (rule request_same [OF _ assms(2)]) (use Cons.prems in simp)
  from same_trans [OF this Cons.IH] Cons.prems show ?case by (simp add: runs_Cons)
qed simp

text \<open>The four requests that set the parameters of the next block.\<close>

definition block_settings :: "u64 \<Rightarrow> address \<Rightarrow> u256 \<Rightarrow> u256 \<Rightarrow> rpc_request list" where
  "block_settings t a g fee =
     [RpcSetNextBlockTimestamp t, RpcSetCoinbase a, RpcSetBlockGasLimit g,
      RpcSetNextBlockBaseFeePerGas fee]"

lemma block_settings_state:
  assumes "last_timestamp (rpc_time s) \<le> t" and "unat g < 2 ^ 64" and "unat fee < 2 ^ 64"
    and "s' = snd (runs (handle L during clock) (block_settings t a g fee) s)"
  shows "rpc_time s' = (rpc_time s)\<lparr>next_exact_timestamp := Some t\<rparr>"
    "block_env_of s' = \<lparr>ov_gas_limit = Some (ucast g), ov_coinbase = Some a, ov_next_base_fee = Some (ucast fee)\<rparr>"
proof -
  have fits: "\<not> ucast (- 1 :: u64) < g" "\<not> ucast (- 1 :: u64) < fee"
    "to_u64 g = Some (ucast g)" "to_u64 fee = Some (ucast fee)"
    using assms(2,3) by (simp_all add: u64_max_less to_u64_fits)
  have "\<not> t < last_timestamp (rpc_time s)" using assms(1) by simp
  then show "rpc_time s' = (rpc_time s)\<lparr>next_exact_timestamp := Some t\<rparr>"
    "block_env_of s' = \<lparr>ov_gas_limit = Some (ucast g), ov_coinbase = Some a, ov_next_base_fee = Some (ucast fee)\<rparr>"
    by (simp_all add: assms(4) block_settings_def runs_Cons answer_def anvil_set_next_block_timestamp_def
        set_next_block_timestamp_def anvil_set_coinbase_def anvil_set_block_gas_limit_def
        rpc_set_block_gas_limit_def anvil_set_next_block_base_fee_per_gas_def fits block_env_defs)
qed

text \<open>
  C27: Block parameters requested over RPC reach the chain: after an exact timestamp that is
  not in the past, a coinbase, a gas limit and a base fee were requested, and any further
  requests that concern neither the clock nor the block parameters, the next block has
  exactly these four values. The block after it keeps the coinbase and the gas limit, has
  the base fee the EVM configuration itself computes, and a later timestamp. (For a block
  the library is taken to call the payload hook once and to build one block environment.)
\<close>

theorem requests_reach_blocks:
  assumes "block_lib_laws B"
    and "last_timestamp (rpc_time s) \<le> t" and "t \<noteq> - 1"
    and "unat g < 2 ^ 64" and "unat fee < 2 ^ 64"
    and "\<forall>r\<in>set rs. CTime \<notin> footprint r \<and> CBlockEnv \<notin> footprint r"
    and "\<forall>i u. same CTime u (during i u)" and "\<forall>i u. same CBlockEnv u (during i u)"
    and "s' = snd (runs (handle L during clock) (block_settings t a g fee @ rs) s)"
  shows "\<exists>h1 h2 attrs env. next_header B s' = Some h1 \<and>
      bh_timestamp h1 = t \<and> bh_beneficiary h1 = a \<and> bh_gas_limit h1 = ucast g \<and>
      bh_base_fee_per_gas h1 = Some (ucast fee) \<and>
    next_header B (produce_block B s') = Some h2 \<and>
      t < bh_timestamp h2 \<and> bh_beneficiary h2 = a \<and> bh_gas_limit h2 = ucast g \<and>
      ev_next_evm_env (bl_evm B) (bl_parent B (rpc_world (produce_block B s'))) attrs = Inr env \<and>
      bh_base_fee_per_gas h2 = Some (bl_env_base_fee B env)"
proof -
  let ?s4 = "snd (runs (handle L during clock) (block_settings t a g fee) s)"
  let ?tm = "(rpc_time s)\<lparr>next_exact_timestamp := Some t\<rparr>"
  have "s' = snd (runs (handle L during clock) rs ?s4)"
    unfolding assms(9) by (simp add: runs_append)
  then have "same CTime ?s4 s'" "same CBlockEnv ?s4 s'"
    using runs_requests_same [of rs CTime during ?s4 L clock]
      runs_requests_same [of rs CBlockEnv during ?s4 L clock] assms(6-8) by auto
  then have tm: "rpc_time s' = ?tm"
    and be: "block_env_of s' = \<lparr>ov_gas_limit = Some (ucast g), ov_coinbase = Some a,
      ov_next_base_fee = Some (ucast fee)\<rparr>"
    using block_settings_state [OF assms(2,4,5) refl] by simp_all
  have exact: "fst (next_timestamp now ?tm) = t" for now
    using assms(2) by (simp add: next_timestamp_fields compute_next_timestamp_def Let_def leD)
  obtain h1 where h1: "next_header B s' = Some h1" "bh_timestamp h1 = t" "bh_beneficiary h1 = a"
    "bh_gas_limit h1 = ucast g" "bh_base_fee_per_gas h1 = Some (ucast fee)"
    by (rule next_header_shows [OF assms(1), of s']) (auto simp: tm be exact coinbase_def gas_limit_def)
  let ?s2 = "produce_block B s'"
  have tm2: "next_exact_timestamp (rpc_time ?s2) = None" "last_timestamp (rpc_time ?s2) = t"
    using exact by (simp_all add: produce_block_state [OF assms(1)] next_timestamp_fields tm)
  have later: "t < fst (next_timestamp now (rpc_time ?s2))" for now
    using compute_gt [OF tm2(1), of now] assms(3) by (simp add: next_timestamp_fields tm2)
  then have later: "t < fst (next_timestamp now (snd (next_timestamp c (rpc_time s'))))"
    if "c = bl_clock B (rpc_world s')" for now c
    by (simp add: produce_block_state [OF assms(1)] that)
  obtain h2 env where h2: "next_header B ?s2 = Some h2" "t < bh_timestamp h2" "bh_beneficiary h2 = a"
    "bh_gas_limit h2 = ucast g" "bh_base_fee_per_gas h2 = Some (bl_env_base_fee B env)"
    "\<exists>attrs. ev_next_evm_env (bl_evm B) (bl_parent B (rpc_world ?s2)) attrs = Inr env"
    by (rule next_header_shows [OF assms(1), of ?s2])
      (auto simp: produce_block_state [OF assms(1)] be coinbase_def gas_limit_def later)
  show ?thesis using h1 h2 by blast
qed

end
