(* ===== verification/Chain_Instance.thy ===== *)
theory Chain_Instance
  imports Block_Production Rpc_Instance
begin

text \<open>
  A concrete node with a chain, for the witnesses: the world is the number of the head, the
  headers by number and the pool (hash and sender); the EVM environment is its gas limit
  and its base fee, which falls by an eighth from block to block.
\<close>

type_synonym demo_chain = "u64 \<times> (u64 \<Rightarrow> block_header option) \<times> (b256 \<times> address) list"

type_synonym demo_node = "(mining_mode \<times> nat, bool, bytes, demo_chain) anvil_rpc"

definition demo_parent_fee :: "block_header option \<Rightarrow> u64" where
  "demo_parent_fee p =
     (case p of None \<Rightarrow> 8
      | Some h \<Rightarrow> (case bh_base_fee_per_gas h of None \<Rightarrow> 8 | Some fee \<Rightarrow> fee - fee div 8))"

definition demo_evm ::
  "(unit, block_header option, u64 \<times> u64, unit, unit, next_block_attributes) evm_config" where
  "demo_evm = \<lparr>ev_block_executor_factory = (), ev_block_assembler = (),
     ev_evm_env = (\<lambda>_. Inr (0, 0)),
     ev_next_evm_env = (\<lambda>parent attributes. Inr (nb_gas_limit attributes, demo_parent_fee parent)),
     ev_context_for_block = (\<lambda>_. Inr ()), ev_context_for_next_block = (\<lambda>_ _. Inr ()),
     ev_evm_env_for_payload = (\<lambda>_. Inr (0, 0)), ev_context_for_payload = (\<lambda>_. Inr ())\<rparr>"

definition demo_append :: "payload_attributes \<Rightarrow> u64 \<times> u64 \<Rightarrow> demo_chain \<Rightarrow> demo_chain" where
  "demo_append attributes env x =
     (let n = fst x + 1;
          h = \<lparr>bh_number = n, bh_timestamp = pa_timestamp attributes, bh_hash = ucast n,
               bh_base_fee_per_gas = Some (snd env), bh_gas_limit = fst env,
               bh_beneficiary = pa_suggested_fee_recipient attributes\<rparr>
      in (n, (fst (snd x))(n \<mapsto> h), []))"

definition demo_block_lib ::
  "(demo_chain, unit, block_header option, u64 \<times> u64, unit, unit) block_lib" where
  "demo_block_lib =
     \<lparr>bl_clock = (\<lambda>x. 1000 + fst x),
      bl_attributes = (\<lambda>_. \<lparr>pa_timestamp = 0, pa_suggested_fee_recipient = 0\<rparr>),
      bl_parent = (\<lambda>x. fst (snd x) (fst x)),
      bl_next_attributes = (\<lambda>_ _. \<lparr>nb_gas_limit = 30000000\<rparr>),
      bl_evm = demo_evm,
      bl_set_base_fee_opt = (\<lambda>env fee. case fee of None \<Rightarrow> env | Some f \<Rightarrow> (fst env, f)),
      bl_env_gas_limit = fst, bl_env_base_fee = snd,
      bl_append = demo_append, bl_best = fst, bl_header = (\<lambda>x. fst (snd x))\<rparr>"

lemma demo_block_lib_laws: "block_lib_laws demo_block_lib"
  by (auto simp: block_lib_laws_def demo_block_lib_def demo_evm_def demo_append_def Let_def
      split: option.split)

definition demo_chain_eth :: "(demo_node, unit) eth_api" where
  "demo_chain_eth =
     \<lparr>eth_gas_price = (\<lambda>_. Inr 8),
      eth_block_by_number = (\<lambda>s tag full.
        let x = rpc_world s;
            n = (case tag of Number n \<Rightarrow> n | Earliest \<Rightarrow> 0 | _ \<Rightarrow> fst x)
        in Inr (map_option (\<lambda>h. \<lparr>rb_header = h, rb_body = ()\<rparr>) (fst (snd x) n))),
      eth_create_access_list = (\<lambda>s tx. Inr [(case tr_to tx of Some a \<Rightarrow> a | None \<Rightarrow> 0, [0])]),
      eth_call = (\<lambda>s tx ov. case ov of
         [(a, [(slot, v)])] \<Rightarrow> Inr (map (\<lambda>i. ucast (drop_bit (8 * (31 - i)) v)) [0..<32])
       | _ \<Rightarrow> Inr [])\<rparr>"

definition demo_chain_lib ::
  "json \<Rightarrow> (mining_mode \<times> nat, nat, bool, unit, bytes, demo_chain, unit) rpc_lib" where
  "demo_chain_lib doc =
     \<lparr>l_watch = demo_watch, l_notify = demo_notify, l_code = demo_code, l_leaf = demo_leaf,
      l_dump = demo_dump_codec doc, l_eth = demo_chain_eth,
      l_pending_and_queued_txn_count = (\<lambda>x. (length (snd (snd x)), 0)),
      l_remove_transaction = (\<lambda>h x. (if h \<in> fst ` set (snd (snd x)) then Some h else None,
         (fst x, fst (snd x), filter (\<lambda>p. fst p \<noteq> h) (snd (snd x))))),
      l_all_transaction_hashes = (\<lambda>x. map fst (snd (snd x))),
      l_remove_transactions = (\<lambda>hs x. (fst x, fst (snd x), filter (\<lambda>p. fst p \<notin> set hs) (snd (snd x)))),
      l_remove_transactions_by_sender = (\<lambda>a x.
        (map fst (filter (\<lambda>p. snd p = a) (snd (snd x))),
         (fst x, fst (snd x), filter (\<lambda>p. snd p \<noteq> a) (snd (snd x))))),
      l_basic_account = (\<lambda>x. sp_basic_account demo_provider),
      l_best_block_number = (\<lambda>x. Inr (fst x)),
      l_header_timestamp = (\<lambda>x n. Inr (map_option bh_timestamp (fst (snd x) n))),
      l_dump_state_collect = (\<lambda>x. Inr [\<lparr>da_address = 5, da_nonce = 1, da_balance = 100,
        da_code = None, da_storage = []\<rparr>]),
      l_from_be_slice = demo_from_be_slice,
      l_git_sha = None\<rparr>"

lemma demo_chain_lib_simps [simp]:
  "l_watch (demo_chain_lib doc) = demo_watch" "l_notify (demo_chain_lib doc) = demo_notify"
  "l_code (demo_chain_lib doc) = demo_code" "l_leaf (demo_chain_lib doc) = demo_leaf"
  "l_dump (demo_chain_lib doc) = demo_dump_codec doc" "l_eth (demo_chain_lib doc) = demo_chain_eth"
  "l_best_block_number (demo_chain_lib doc) x = Inr (fst x)"
  "l_basic_account (demo_chain_lib doc) x = sp_basic_account demo_provider"
  "l_pending_and_queued_txn_count (demo_chain_lib doc) x = (length (snd (snd x)), 0)"
  "l_from_be_slice (demo_chain_lib doc) = demo_from_be_slice"
  by (simp_all add: demo_chain_lib_def)

text \<open>The genesis block, and the node at its start.\<close>

definition demo_genesis :: demo_chain where
  "demo_genesis = (0, [0 \<mapsto> \<lparr>bh_number = 0, bh_timestamp = 1000, bh_hash = 0,
     bh_base_fee_per_gas = Some 8, bh_gas_limit = 30000000, bh_beneficiary = 0\<rparr>], [])"

definition demo_start :: demo_node where
  "demo_start = anvil_rpc_new impersonation_default (mining_controller_default demo_watch demo_notify)
     (new_time_manager 1000 1000)
     (anvil_context_new anvil_state_shared block_env_default (anvil_node_config_new demo_spec 42))
     demo_genesis"

lemma demo_start_simps [simp]:
  "rpc_world demo_start = demo_genesis"
  "rpc_time demo_start = new_time_manager 1000 1000"
  "anvil_state_of demo_start = anvil_state_shared"
  "block_env_of demo_start = block_env_default"
  "rpc_state demo_start = impersonation_default"
  "rpc_mining demo_start = mining_controller_default demo_watch demo_notify"
  "cx_node (rpc_context demo_start) = anvil_node_config_new demo_spec 42"
  by (simp_all add: demo_start_def anvil_rpc_new_def anvil_context_new_def)

section \<open>A witness for the block parameters\<close>

theorem requests_reach_blocks_witness:
  "\<exists>s h1 h2. s = snd (runs (handle (demo_chain_lib JNull) (\<lambda>_. id) (0, 0))
       (block_settings 2000 9 25000000 42 @ [RpcSetBalance 5 1, RpcMine (Some 0) None]) demo_start) \<and>
     next_header demo_block_lib s = Some h1 \<and> bh_timestamp h1 = 2000 \<and> bh_beneficiary h1 = 9 \<and>
     bh_gas_limit h1 = 25000000 \<and> bh_base_fee_per_gas h1 = Some 42 \<and>
     next_header demo_block_lib (produce_block demo_block_lib s) = Some h2 \<and>
     bh_gas_limit h2 = 25000000 \<and> 2000 < bh_timestamp h2"
proof -
  have "last_timestamp (rpc_time demo_start) \<le> 2000" "(2000 :: u64) \<noteq> - 1"
    by (simp_all add: new_time_manager_def reset_def)
  from requests_reach_blocks [OF demo_block_lib_laws this _ _ _ _ _ refl, of 25000000 42
      "[RpcSetBalance 5 1, RpcMine (Some 0) None]" "\<lambda>_. id" "demo_chain_lib JNull" "(0, 0)" 9]
  show ?thesis by (simp add: when_some_def) blast
qed

end
