(* ===== verification/Test_Client.thy ===== *)
theory Test_Client
  imports Rpc_Contracts Rpc_Accounts Rpc_Erc20 Block_Production Node_Wiring
begin

text \<open>
  The client of the integration tests (the module \<open>tests\<close> of src/src/main.rs). A test sends
  requests to a running node and checks the answers; here it is a function on the state of
  the node that fails or goes on. The \<open>anvil_*\<close> requests are handled by the model. The
  \<open>eth_*\<close> requests are answered by the node's library: a record of its handlers over the
  state provider the interceptor of this program gives them, with the documented laws.
\<close>

section \<open>Tests\<close>

text \<open>
  How a test ends early: an error answer, the server gone (a panic under \<open>panic = "abort"\<close>),
  a method nobody registered, an answer that does not deserialize, a failed assertion, or
  the test's own \<open>bail!\<close>.
\<close>

datatype test_error =
    Rejected rpc_error
  | ServerGone
  | UnknownMethod string
  | BadAnswer
  | AssertionFailed string
  | Bailed string

type_synonym ('s, 'a) test = "'s \<Rightarrow> (test_error + 'a) \<times> 's"

definition give :: "'a \<Rightarrow> ('s, 'a) test" where
  "give x s = (Inr x, s)"

definition fail :: "test_error \<Rightarrow> ('s, 'a) test" where
  "fail e s = (Inl e, s)"

definition and_then :: "('s, 'a) test \<Rightarrow> ('a \<Rightarrow> ('s, 'b) test) \<Rightarrow> ('s, 'b) test" where
  "and_then m f s = (case m s of (Inl e, s') \<Rightarrow> (Inl e, s') | (Inr x, s') \<Rightarrow> f x s')"

definition ensure :: "bool \<Rightarrow> string \<Rightarrow> ('s, unit) test" where
  "ensure b message = (if b then give () else fail (AssertionFailed message))"

definition ok_or :: "'a option \<Rightarrow> string \<Rightarrow> ('s, 'a) test" where
  "ok_or x message = (case x of Some v \<Rightarrow> give v | None \<Rightarrow> fail (Bailed message))"

definition passes :: "('s, unit) test \<Rightarrow> 's \<Rightarrow> bool" where
  "passes m s \<longleftrightarrow> fst (m s) = Inr ()"

lemma passes_give [simp]: "passes (give ()) s"
  by (simp add: passes_def give_def)

lemma passes_ensure [simp]: "passes (ensure b message) s \<longleftrightarrow> b"
  by (simp add: passes_def ensure_def give_def fail_def)

lemma passes_and_then [simp]:
  "passes (and_then m f) s \<longleftrightarrow>
     (case m s of (Inl e, _) \<Rightarrow> False | (Inr x, s') \<Rightarrow> passes (f x) s')"
  by (simp add: passes_def and_then_def split: prod.split sum.split)

lemma ensure_run [simp]: "ensure b message s = (if b then Inr () else Inl (AssertionFailed message), s)"
  by (simp add: ensure_def give_def fail_def)

lemma give_run [simp]: "give x s = (Inr x, s)"
  by (simp add: give_def)

lemma ok_or_Some [simp]: "ok_or (Some x) message = give x"
  by (simp add: ok_or_def)

section \<open>The running node\<close>

text \<open>
  The stock \<open>eth_*\<close> handlers the tests use, over a state provider; \<open>se_provider\<close> is the
  provider of the latest state before the overlay. \<open>eth_call\<close> gets the codes that replace
  those of accounts.
\<close>

record ('x, 'bc, 'v) stock_eth =
  se_provider :: "'x \<Rightarrow> (string, 'bc, 'v) state_provider"
  se_block_number :: "'x \<Rightarrow> rpc_error + u256"
  se_get_balance :: "(string, 'bc, 'v) state_provider \<Rightarrow> address \<Rightarrow> rpc_error + u256"
  se_get_transaction_count :: "(string, 'bc, 'v) state_provider \<Rightarrow> address \<Rightarrow> rpc_error + u256"
  se_get_code :: "(string, 'bc, 'v) state_provider \<Rightarrow> address \<Rightarrow> rpc_error + bytes"
  se_get_storage_at :: "(string, 'bc, 'v) state_provider \<Rightarrow> address \<Rightarrow> u256 \<Rightarrow> rpc_error + b256"
  se_call :: "(string, 'bc, 'v) state_provider \<Rightarrow> tx_request \<Rightarrow> (address \<times> bytes) list
     \<Rightarrow> rpc_error + bytes"

text \<open>
  The node under test: its library, what happens during the \<open>i\<close>-th sleep of a waiting handler
  and during a pause of the client (in milliseconds), and the wall clock when \<open>anvil_setTime\<close>
  is handled.
\<close>

record ('w, 'rx, 'n, 'f, 'bc, 'x, 'b, 'v) test_node =
  tn_lib :: "('w, 'rx, 'n, 'f, 'bc, 'x, 'b) rpc_lib"
  tn_eth :: "('x, 'bc, 'v) stock_eth"
  tn_during :: "nat \<Rightarrow> ('w, 'n, 'bc, 'x) anvil_rpc \<Rightarrow> ('w, 'n, 'bc, 'x) anvil_rpc"
  tn_pause :: "nat \<Rightarrow> ('w, 'n, 'bc, 'x) anvil_rpc \<Rightarrow> ('w, 'n, 'bc, 'x) anvil_rpc"
  tn_clock :: "('w, 'n, 'bc, 'x) anvil_rpc \<Rightarrow> u64 \<times> u64"

text \<open>
  \<open>with_test_client\<close> builds a node like \<open>main\<close> does, on a world \<open>x\<close> with the chain at its genesis
  block, and runs the test against it.
\<close>

definition with_test_client ::
  "('w, 'rx, 'n, 'f, 'bc, 'x, 'b, 'v) test_node \<Rightarrow> u64 \<Rightarrow> u64 \<Rightarrow> chain_spec \<Rightarrow> b256 \<Rightarrow> 'x
     \<Rightarrow> ('w, 'n, 'bc) shared_heap \<Rightarrow> (('w, 'n, 'bc, 'x) anvil_rpc, unit) test \<Rightarrow> test_error + unit" where
  "with_test_client E now genesis_timestamp dev instance_id x h0 test =
     (let (w, h) = main_wiring (l_watch (tn_lib E)) (l_notify (tn_lib E)) now genesis_timestamp dev
            instance_id h0
      in fst (test (node_of w h x)))"

lemma with_test_client_passes:
  "with_test_client E now genesis dev iid x h0 test = Inr () \<longleftrightarrow>
     passes test (node_init (tn_lib E) now genesis dev iid x)"
  using main_wiring_start [of "tn_lib E" now genesis dev iid h0 _ _ x]
  by (auto simp: with_test_client_def passes_def split: prod.split)

lemma node_init_simps [simp]:
  "rpc_world (node_init L now genesis dev iid x) = x"
  "rpc_time (node_init L now genesis dev iid x) = new_time_manager now genesis"
  "anvil_state_of (node_init L now genesis dev iid x) = anvil_state_shared"
  "block_env_of (node_init L now genesis dev iid x) = block_env_default"
  "rpc_state (node_init L now genesis dev iid x) = impersonation_default"
  "rpc_mining (node_init L now genesis dev iid x) = mining_controller_default (l_watch L) (l_notify L)"
  "cx_node (rpc_context (node_init L now genesis dev iid x)) = anvil_node_config_new dev iid"
  by (simp_all add: node_init_def anvil_rpc_new_def anvil_context_new_def)

definition request ::
  "('w, 'rx, 'n, 'f, 'bc, 'x, 'b, 'v) test_node \<Rightarrow> string \<Rightarrow> rpc_request
     \<Rightarrow> (('w, 'n, 'bc, 'x) anvil_rpc, 'b rpc_value) test" where
  "request E name r s =
     (if name \<notin> set (registered_names r) then (Inl (UnknownMethod name), s)
      else (case handle (tn_lib E) (tn_during E) (tn_clock E s) r s of
              (Ok v, s') \<Rightarrow> (Inr v, s')
            | (Err e, s') \<Rightarrow> (Inl (Rejected e), s')
            | (Panic, s') \<Rightarrow> (Inl ServerGone, s')))"

text \<open>Requests with the type the client expects.\<close>

definition request_unit where
  "request_unit E name r =
     and_then (request E name r) (\<lambda>v. case v of VUnit \<Rightarrow> give () | _ \<Rightarrow> fail BadAnswer)"

definition request_bool where
  "request_bool E name r =
     and_then (request E name r) (\<lambda>v. case v of VBool b \<Rightarrow> give b | _ \<Rightarrow> fail BadAnswer)"

definition request_u64 where
  "request_u64 E name r =
     and_then (request E name r) (\<lambda>v. case v of VU64 x \<Rightarrow> give x | _ \<Rightarrow> fail BadAnswer)"

definition request_opt_u64 where
  "request_opt_u64 E name r =
     and_then (request E name r) (\<lambda>v. case v of VOptU64 x \<Rightarrow> give x | _ \<Rightarrow> fail BadAnswer)"

definition request_i64 where
  "request_i64 E name r =
     and_then (request E name r) (\<lambda>v. case v of VInt x \<Rightarrow> give x | _ \<Rightarrow> fail BadAnswer)"

definition request_bytes where
  "request_bytes E name r =
     and_then (request E name r) (\<lambda>v. case v of VBytes z \<Rightarrow> give z | _ \<Rightarrow> fail BadAnswer)"

definition request_blocks where
  "request_blocks E name r =
     and_then (request E name r) (\<lambda>v. case v of VBlocks bs \<Rightarrow> give bs | _ \<Rightarrow> fail BadAnswer)"

definition request_info where
  "request_info E name r =
     and_then (request E name r) (\<lambda>v. case v of VInfo i \<Rightarrow> give i | _ \<Rightarrow> fail BadAnswer)"

definition request_metadata where
  "request_metadata E name r =
     and_then (request E name r) (\<lambda>v. case v of VMetadata m \<Rightarrow> give m | _ \<Rightarrow> fail BadAnswer)"

lemmas typed_requests = request_unit_def request_bool_def request_u64_def request_opt_u64_def
  request_i64_def request_bytes_def request_blocks_def request_info_def request_metadata_def

text \<open>A request that succeeds, by the type of its answer.\<close>

lemma request_runs:
  assumes "name \<in> set (registered_names r)"
    and "handle (tn_lib E) (tn_during E) (tn_clock E s) r s = (Ok v, s')"
  shows "v = VUnit \<Longrightarrow> request_unit E name r s = (Inr (), s')"
    "v = VBool b \<Longrightarrow> request_bool E name r s = (Inr b, s')"
    "v = VU64 x \<Longrightarrow> request_u64 E name r s = (Inr x, s')"
    "v = VOptU64 x' \<Longrightarrow> request_opt_u64 E name r s = (Inr x', s')"
    "v = VInt i \<Longrightarrow> request_i64 E name r s = (Inr i, s')"
    "v = VBytes z \<Longrightarrow> request_bytes E name r s = (Inr z, s')"
    "v = VBlocks bs \<Longrightarrow> request_blocks E name r s = (Inr bs, s')"
    "v = VInfo info \<Longrightarrow> request_info E name r s = (Inr info, s')"
    "v = VMetadata md \<Longrightarrow> request_metadata E name r s = (Inr md, s')"
  using assms by (simp_all add: typed_requests request_def and_then_def)

section \<open>The \<open>eth_*\<close> requests\<close>

text \<open>The latest state as the \<open>eth_*\<close> handlers get it: through the installed interceptor.\<close>

definition latest_provider ::
  "('w, 'rx, 'n, 'f, 'bc, 'x, 'b, 'v) test_node \<Rightarrow> ('w, 'n, 'bc, 'x) anvil_rpc
     \<Rightarrow> (string, 'bc, 'v) state_provider" where
  "latest_provider E s =
     anvil_add_ons (build_eth_api id) () (\<lambda>_. anvil_state_of s) (se_provider (tn_eth E) (rpc_world s))"

definition answered :: "('s \<Rightarrow> rpc_error + 'a) \<Rightarrow> ('s, 'a) test" where
  "answered f s = (case f s of Inl e \<Rightarrow> (Inl (Rejected e), s) | Inr x \<Rightarrow> (Inr x, s))"

definition eth_get_balance where
  "eth_get_balance E a = answered (\<lambda>s. se_get_balance (tn_eth E) (latest_provider E s) a)"

definition eth_get_transaction_count where
  "eth_get_transaction_count E a =
     answered (\<lambda>s. se_get_transaction_count (tn_eth E) (latest_provider E s) a)"

definition eth_get_code where
  "eth_get_code E a = answered (\<lambda>s. se_get_code (tn_eth E) (latest_provider E s) a)"

definition eth_get_storage_at where
  "eth_get_storage_at E a k = answered (\<lambda>s. se_get_storage_at (tn_eth E) (latest_provider E s) a k)"

definition eth_call_latest where
  "eth_call_latest E tx codes = answered (\<lambda>s. se_call (tn_eth E) (latest_provider E s) tx codes)"

definition eth_gas_price_request where
  "eth_gas_price_request E = answered (\<lambda>s. eth_gas_price (l_eth (tn_lib E)) s)"

definition eth_get_block_by_number where
  "eth_get_block_by_number E tag =
     answered (\<lambda>s. eth_block_by_number (l_eth (tn_lib E)) s tag False)"

text \<open>
  \<open>U256::to::<u64>()\<close>, \<open>U256::from_be_slice\<close> and \<open>B256::from_slice\<close> (which wants exactly 32
  bytes) panic in the client: the test fails.
\<close>

definition to_u64_or_panic :: "u256 \<Rightarrow> ('s, u64) test" where
  "to_u64_or_panic x = (case to_u64 x of Some n \<Rightarrow> give n | None \<Rightarrow> fail (AssertionFailed ''overflow''))"

definition to_u128_or_panic :: "u256 \<Rightarrow> ('s, 128 word) test" where
  "to_u128_or_panic x = (case to_u128 x of Some n \<Rightarrow> give n | None \<Rightarrow> fail (AssertionFailed ''overflow''))"

definition from_be_slice where
  "from_be_slice E z =
     (case l_from_be_slice (tn_lib E) z of Some v \<Rightarrow> give v | None \<Rightarrow> fail (AssertionFailed ''invalid slice''))"

text \<open>\<open>a + b\<close> on \<open>u64\<close> in a test, which is built with overflow checks.\<close>

definition plus_or_panic :: "u64 \<Rightarrow> u64 \<Rightarrow> ('s, u64) test" where
  "plus_or_panic a b =
     (if unat a + unat b < 2 ^ 64 then give (a + b) else fail (AssertionFailed ''attempt to add with overflow''))"

definition b256_from_slice :: "bytes \<Rightarrow> ('s, b256) test" where
  "b256_from_slice z =
     (if length z = 32 then give (word_of_nat (be_value z)) else fail (AssertionFailed ''invalid slice''))"

section \<open>The helpers of the test module\<close>

definition block_number where
  "block_number E = and_then (answered (\<lambda>s. se_block_number (tn_eth E) (rpc_world s))) to_u64_or_panic"

fun wait_for_block_rounds where
  "wait_for_block_rounds E 0 expected last_seen =
     fail (Bailed (''timed out waiting for block '' @ dec (unat expected) @ '', last seen '' @ dec (unat last_seen)))"
| "wait_for_block_rounds E (Suc rounds) expected last_seen =
     and_then (block_number E) (\<lambda>current.
       if expected \<le> (current :: u64) then give ()
       else and_then (\<lambda>s. (Inr (), tn_pause E 100 s)) (\<lambda>_.
         wait_for_block_rounds E rounds expected current))"

definition wait_for_block where
  "wait_for_block E expected = wait_for_block_rounds E 200 expected 0"

definition block_timestamp where
  "block_timestamp E tag =
     and_then (eth_get_block_by_number E tag) (\<lambda>block.
     and_then (ok_or block ''missing block timestamp'') (\<lambda>b. give (bh_timestamp (rb_header b))))"

definition get_block where
  "get_block E tag = eth_get_block_by_number E tag"

text \<open>\<open>Address::repeat_byte\<close>, and 32 bytes of a word, most significant first.\<close>

definition repeat_byte :: "u8 \<Rightarrow> address" where
  "repeat_byte b = word_of_nat (be_value (replicate 20 b))"

definition word_bytes :: "u256 \<Rightarrow> bytes" where
  "word_bytes v = map (\<lambda>i. ucast (drop_bit (8 * (31 - i)) v)) [0..<32]"

lemma be_value_replicate: "255 * be_value (replicate n b) + unat b = unat b * 256 ^ n"
proof (induction n)
  case (Suc n)
  have "replicate (Suc n) b = replicate n b @ [b]"
    by (simp add: replicate_append_same)
  then have "be_value (replicate (Suc n) b) = 256 * be_value (replicate n b) + unat b"
    by (simp only: be_value_append) (simp add: be_value_def)
  with Suc show ?case by simp
qed (simp add: be_value_def)

lemma unat_repeat_byte: "unat (repeat_byte b) = unat b * 5731378969925109483151705226338364782964441345"
proof -
  have eq: "be_value (replicate 20 b) = unat b * 5731378969925109483151705226338364782964441345"
    using be_value_replicate [of 20 b] by simp
  have "unat b < 256" using unat_bound [of b] by simp
  then have "unat b * 5731378969925109483151705226338364782964441345 < 2 ^ 160" by simp
  then show ?thesis
    by (simp add: repeat_byte_def eq unsigned_of_nat take_bit_nat_eq_self del: of_nat_mult)
qed

lemma repeat_byte_eq [simp]: "repeat_byte a = repeat_byte b \<longleftrightarrow> a = b"
  by (simp add: word_unat_eq_iff unat_repeat_byte)

lemma repeat_byte_large: "b \<noteq> 0 \<Longrightarrow> 0x10000 \<le> repeat_byte b"
proof -
  assume "b \<noteq> 0"
  then have "1 \<le> unat b" by (simp add: unat_eq_zero Suc_le_eq unat_gt_0)
  then show ?thesis by (simp add: word_le_nat_alt unat_repeat_byte)
qed

section \<open>Documented behaviour\<close>

text \<open>
  The stock handlers answer what the provider shows, and \<open>U256::from_be_slice\<close> reads 32 bytes.
\<close>

definition stock_eth_laws :: "'bc code_ops \<Rightarrow> ('x, 'bc, 'v) stock_eth \<Rightarrow> bool" where
  "stock_eth_laws K T \<longleftrightarrow>
     (\<forall>P a acc. read_account P a = Inr acc \<longrightarrow>
        se_get_balance T P a = Inr (acc_balance acc) \<and>
        se_get_transaction_count T P a = Inr (ucast (acc_nonce acc))) \<and>
     (\<forall>P a code. read_code K P a = Inr code \<longrightarrow> se_get_code T P a = Inr code) \<and>
     (\<forall>P a k v. read_slot P a k = Inr v \<longrightarrow> se_get_storage_at T P a k = Inr v)"

definition client_laws ::
  "('w, 'rx, 'n, 'f, 'bc, 'x, 'b, 'v) test_node \<Rightarrow> bool" where
  "client_laws E \<longleftrightarrow>
     code_laws (l_code (tn_lib E)) \<and> stock_eth_laws (l_code (tn_lib E)) (tn_eth E) \<and>
     (\<forall>c. c \<noteq> [] \<and> hd c \<noteq> 0xEF \<longrightarrow> new_raw (l_code (tn_lib E)) c \<noteq> None) \<and>
     (\<forall>v. l_from_be_slice (tn_lib E) (word_bytes v) = Some v) \<and>
     (\<forall>x. l_basic_account (tn_lib E) x = sp_basic_account (se_provider (tn_eth E) x))"

text \<open>An account nobody has used, and a node whose account state is untouched.\<close>

definition unused ::
  "('w, 'rx, 'n, 'f, 'bc, 'x, 'b, 'v) test_node \<Rightarrow> ('w, 'n, 'bc, 'x) anvil_rpc \<Rightarrow> address \<Rightarrow> bool" where
  "unused E s a \<longleftrightarrow>
     sp_basic_account (se_provider (tn_eth E) (rpc_world s)) a = Inr None \<and>
     (\<forall>k. sp_storage (se_provider (tn_eth E) (rpc_world s)) a k = Inr None)"

lemma latest_provider_overlay:
  "latest_provider E s = anvil_state_provider (anvil_state_of s) (se_provider (tn_eth E) (rpc_world s))"
  by (simp add: latest_provider_def anvil_add_ons_def build_eth_api_def anvil_eth_api_builder_new_def)

text \<open>What the latest state shows of an unused account: its overrides, over an empty account.\<close>

lemma unused_reads:
  assumes "unused E s a"
  shows "read_account (latest_provider E s) a = Inr (apply_overrides (anvil_state_of s) a acct_default)"
    "read_slot (latest_provider E s) a k =
       Inr (case local_storage (anvil_state_of s) a k of Some v \<Rightarrow> v | None \<Rightarrow> 0)"
    "read_code K (latest_provider E s) a =
       (case local_code_hash (anvil_state_of s) a of
          None \<Rightarrow> Inr []
        | Some h \<Rightarrow> if h = keccak_empty K then Inr []
            else map_sum id (\<lambda>found. case found of Some bc \<Rightarrow> original_bytes K bc | None \<Rightarrow> [])
                   (sp_bytecode_by_hash (latest_provider E s) h))"
proof -
  have base: "read_account (se_provider (tn_eth E) (rpc_world s)) a = Inr acct_default"
    "read_slot (se_provider (tn_eth E) (rpc_world s)) a k = Inr 0"
    using assms by (simp_all add: unused_def read_account_def read_slot_def)
  show shown: "read_account (latest_provider E s) a = Inr (apply_overrides (anvil_state_of s) a acct_default)"
    by (simp add: latest_provider_overlay read_account_overlay base)
  show "read_slot (latest_provider E s) a k =
      Inr (case local_storage (anvil_state_of s) a k of Some v \<Rightarrow> v | None \<Rightarrow> 0)"
    by (simp add: latest_provider_overlay read_slot_overlay base split: option.split)
  show "read_code K (latest_provider E s) a =
      (case local_code_hash (anvil_state_of s) a of
         None \<Rightarrow> Inr []
       | Some h \<Rightarrow> if h = keccak_empty K then Inr []
           else map_sum id (\<lambda>found. case found of Some bc \<Rightarrow> original_bytes K bc | None \<Rightarrow> [])
                  (sp_bytecode_by_hash (latest_provider E s) h))"
    unfolding read_code_def shown
    by (simp add: apply_overrides_def acct_default_def split: option.split)
qed

lemma unused_upd [simp]: "unused E (upd_anvil_state f s) a = unused E s a"
  by (simp add: unused_def)

text \<open>Code stored by \<open>set_code\<close>, through later writes of other attributes.\<close>

definition code_stored :: "'bc code_ops \<Rightarrow> address \<Rightarrow> bytes \<Rightarrow> 'bc anvil_state \<Rightarrow> bool" where
  "code_stored K a code st \<longleftrightarrow>
     local_code_hash st a = Some (keccak256 K code) \<and>
     (code \<noteq> [] \<longrightarrow>
        map_option (original_bytes K) (local_bytecode_by_hash st (keccak256 K code)) = Some code)"

lemma code_stored_frame [simp]:
  "code_stored K a code (set_balance b v st) = code_stored K a code st"
  "code_stored K a code (set_nonce b n st) = code_stored K a code st"
  "code_stored K a code (set_storage_at b k v st) = code_stored K a code st"
  by (simp_all add: code_stored_def)

lemma set_code_stored:
  assumes "code_laws K" and "set_code K a code st = Some st'"
  shows "code_stored K a code st'"
  using set_code_reads [OF assms(2)] set_code_panics [of K a code st] assms
  by (auto simp: code_stored_def code_hash_of_keccak code_laws_def)

lemma code_shown:
  assumes "code_laws K" and "unused E s a" and "code_stored K a code (anvil_state_of s)"
  shows "read_code K (latest_provider E s) a = Inr code"
proof -
  have empty: "keccak256 K code = keccak_empty K \<longleftrightarrow> code = []"
    using assms(1) by (auto simp: code_laws_def)
  show ?thesis
    using assms(3) unfolding unused_reads(3) [OF assms(2)] code_stored_def
    by (auto simp: latest_provider_overlay bytecode_overlay empty)
qed

lemma eth_reads:
  assumes "client_laws E" and "unused E s a"
  shows "eth_get_balance E a s = (Inr (case local_balance (anvil_state_of s) a of Some b \<Rightarrow> b | None \<Rightarrow> 0), s)"
    "eth_get_transaction_count E a s =
       (Inr (case local_nonce (anvil_state_of s) a of Some n \<Rightarrow> ucast n | None \<Rightarrow> 0), s)"
    "eth_get_storage_at E a k s = (Inr (case local_storage (anvil_state_of s) a k of Some v \<Rightarrow> v | None \<Rightarrow> 0), s)"
    "read_code (l_code (tn_lib E)) (latest_provider E s) a = Inr code \<Longrightarrow> eth_get_code E a s = (Inr code, s)"
  using assms(1) unused_reads [OF assms(2)]
  by (auto simp: eth_get_balance_def eth_get_transaction_count_def eth_get_storage_at_def eth_get_code_def
      answered_def client_laws_def stock_eth_laws_def apply_overrides_def acct_default_def
      split: option.split)

lemma from_be_slice_word [simp]:
  "client_laws E \<Longrightarrow> from_be_slice E (word_bytes v) = give v"
  by (simp add: from_be_slice_def client_laws_def)

lemma be_value_word_bytes [simp]: "be_value (word_bytes v) = unat v"
proof -
  have "word_bytes v = map (\<lambda>i. ucast (drop_bit (8 * (32 - 1 - i)) v)) [0..<32]"
    by (simp add: word_bytes_def)
  moreover have "unat v < 256 ^ 32" using unat_bound [of v] by simp
  ultimately show ?thesis using be_value_bytes [of 32 v] by simp
qed

lemma b256_from_slice_word [simp]: "b256_from_slice (word_bytes v) = give v"
proof -
  have "length (word_bytes v) = 32" by (simp add: word_bytes_def)
  then show ?thesis by (simp add: b256_from_slice_def)
qed

section \<open>Requests that write accounts\<close>

text \<open>What the client sees of each, and the state it leaves.\<close>

lemma account_requests [simp]:
  "request_unit E ''anvil_setBalance'' (RpcSetBalance a v) s = (Inr (), upd_anvil_state (set_balance a v) s)"
  "request_bool E ''anvil_setStorageAt'' (RpcSetStorageAt a k w) s =
     (Inr True, upd_anvil_state (set_storage_at a k w) s)"
  "unat n < 2 ^ 64 \<Longrightarrow> request_unit E ''anvil_setNonce'' (RpcSetNonce a n) s =
     (Inr (), upd_anvil_state (set_nonce a (ucast n)) s)"
  by (simp_all add: request_runs registered_names_def answer_def anvil_set_balance_def
      anvil_set_storage_at_def anvil_set_nonce_def u64_max_less to_u64_fits)

lemma add_balance_request:
  assumes "client_laws E" and "unused E s a"
  shows "request_unit E ''anvil_addBalance'' (RpcAddBalance a v) s =
    (Inr (), upd_anvil_state (set_balance a
       (sat_add (case local_balance (anvil_state_of s) a of Some b \<Rightarrow> b | None \<Rightarrow> 0) v)) s)"
  using assms
  by (auto simp: request_runs registered_names_def answer_def anvil_add_balance_def account_balance_local
      client_laws_def unused_def acct_default_def split: option.split)

lemma set_code_request:
  assumes "client_laws E" and "code \<noteq> []" and "hd code \<noteq> 0xEF"
  obtains st where "request_unit E ''anvil_setCode'' (RpcSetCode a code) s = (Inr (), upd_anvil_state (\<lambda>_. st) s)"
    and "code_stored (l_code (tn_lib E)) a code st"
    and "local_balance st = local_balance (anvil_state_of s)"
    and "local_nonce st = local_nonce (anvil_state_of s)"
    and "local_storage st = local_storage (anvil_state_of s)"
    and "set_code (l_code (tn_lib E)) a code (anvil_state_of s) = Some st"
proof -
  obtain st where st: "set_code (l_code (tn_lib E)) a code (anvil_state_of s) = Some st"
    using set_code_panics [of "l_code (tn_lib E)" a code "anvil_state_of s"] assms
    by (cases "set_code (l_code (tn_lib E)) a code (anvil_state_of s)") (auto simp: client_laws_def)
  have "code_laws (l_code (tn_lib E))" using assms(1) by (simp add: client_laws_def)
  then show thesis
    using set_code_stored [OF _ st] set_code_reads [OF st]
    by (intro that [of st])
      (simp_all add: request_runs registered_names_def answer_def anvil_set_code_def st)
qed

end
