(* ===== verification/Node_Launch.thy ===== *)
theory Node_Launch
  imports Test_Client
begin

text \<open>
  The start of the node, around its wiring: \<open>main\<close> (src/src/main.rs) from the runtime to the
  exit of the node, and the start of a node under test (src/src/test_helpers.rs). The builders
  of the configuration and the launcher are the library's; errors are their messages.
\<close>

section \<open>The library\<close>

text \<open>The builders of \<open>NodeConfig\<close>, \<open>RpcServerArgs\<close> and \<open>DatadirArgs\<close>.\<close>

record ('cfg, 'rpc, 'dir, 'dirs) config_lib =
  cf_new :: "chain_spec \<Rightarrow> 'cfg"
  cf_test :: 'cfg
  cf_with_chain :: "chain_spec \<Rightarrow> 'cfg \<Rightarrow> 'cfg"
  cf_with_unused_ports :: "'cfg \<Rightarrow> 'cfg"
  cf_dev :: "'cfg \<Rightarrow> 'cfg"
  cf_with_storage :: "bool \<Rightarrow> 'cfg \<Rightarrow> 'cfg"
  cf_with_rpc :: "'rpc \<Rightarrow> 'cfg \<Rightarrow> 'cfg"
  cf_with_datadir_args :: "'dirs \<Rightarrow> 'cfg \<Rightarrow> 'cfg"
  rp_default :: 'rpc
  rp_with_http :: "'rpc \<Rightarrow> 'rpc"
  rp_with_unused_ports :: "'rpc \<Rightarrow> 'rpc"
  da_with_datadir :: "'dir \<Rightarrow> 'dirs"

text \<open>
  A critical task of the node, with the handle of the mining controller it was given. The
  launcher gets the configuration, the runtime and the parts of the node.
\<close>

datatype critical_task = AutomineTask handle_id | IntervalMiningTask handle_id

record ('cfg, 'dir, 'rt, 'w, 'n, 'bc, 'nd, 'cl) launch_lib =
  lq_runtime :: "string + 'rt"
  lq_test_runtime :: 'rt
  lq_tempdir :: "string + 'dir"
  lq_launch :: "'cfg \<Rightarrow> 'rt \<Rightarrow> node_wiring \<Rightarrow> ('w, 'n, 'bc) shared_heap \<Rightarrow> string + 'nd"
  lq_spawn_critical_task :: "string \<Rightarrow> critical_task \<Rightarrow> 'nd \<Rightarrow> 'nd"
  lq_exit :: "'nd \<Rightarrow> string + unit"
  lq_http_client :: "'nd \<Rightarrow> 'cl option"

section \<open>The start\<close>

definition main_node_config where
  "main_node_config F dir dev =
     cf_with_datadir_args F (da_with_datadir F dir)
       (cf_with_rpc F (rp_with_http F (rp_default F))
         (cf_with_storage F False (cf_dev F (cf_with_unused_ports F (cf_new F dev)))))"

definition spawn_tasks where
  "spawn_tasks Q w node =
     lq_spawn_critical_task Q ''anvil interval mining control'' (IntervalMiningTask (nw_interval_task w))
       (lq_spawn_critical_task Q ''anvil automine control'' (AutomineTask (nw_automine_task w)) node)"

text \<open>\<open>main\<close>: its result, and the node if one was launched.\<close>

definition main_run where
  "main_run F Q W N now genesis_timestamp dev instance_id h0 =
     (case lq_runtime Q of
        Inl e \<Rightarrow> (Inl e, None)
      | Inr runtime \<Rightarrow>
          (case lq_tempdir Q of
             Inl e \<Rightarrow> (Inl e, None)
           | Inr dir \<Rightarrow>
               (let (w, h) = main_wiring W N now genesis_timestamp dev instance_id h0
                in case lq_launch Q (main_node_config F dir dev) runtime w h of
                     Inl e \<Rightarrow> (Inl e, None)
                   | Inr node \<Rightarrow> (let node' = spawn_tasks Q w node in (lq_exit Q node', Some node')))))"

text \<open>The configuration of a node under test; without a directory \<open>unwrap\<close> panics.\<close>

definition test_node_config where
  "test_node_config F tempdir dev =
     (case tempdir of
        Inl _ \<Rightarrow> None
      | Inr dir \<Rightarrow> Some
          (cf_with_datadir_args F (da_with_datadir F dir)
            (cf_with_rpc F (rp_with_http F (rp_with_unused_ports F (rp_default F)))
              (cf_with_storage F False (cf_dev F (cf_with_chain F dev (cf_test F)))))))"

definition launch_test_client where
  "launch_test_client F Q E now genesis_timestamp dev instance_id x h0 test =
     (case test_node_config F (lq_tempdir Q) dev of
        None \<Rightarrow> Inl (AssertionFailed ''called `Result::unwrap()` on an `Err` value'')
      | Some cfg \<Rightarrow>
          (let (w, h) = main_wiring (l_watch (tn_lib E)) (l_notify (tn_lib E)) now genesis_timestamp dev
                 instance_id h0
           in case lq_launch Q cfg (lq_test_runtime Q) w h of
                Inl e \<Rightarrow> Inl (Bailed e)
              | Inr node \<Rightarrow>
                  (case lq_http_client Q (spawn_tasks Q w node) of
                     None \<Rightarrow> Inl (Bailed ''http rpc client not available'')
                   | Some client \<Rightarrow> fst (test (node_of w h x)))))"

section \<open>What it starts\<close>

text \<open>The two tasks change the controller whose trigger stream the miner listens to.\<close>

lemma tasks_on_the_controller:
  assumes "main_wiring W N now genesis dev iid h0 = (w, h)"
  shows "nw_automine_task w = nw_trigger_stream w" "nw_interval_task w = nw_trigger_stream w"
    "rh_mining (nw_rpc w) = nw_trigger_stream w"
  using assms by (auto simp: main_wiring_def Let_def clone_handle_def split: prod.splits)

text \<open>
  \<open>main\<close> succeeds exactly if every step does and the node exits without an error, and the
  first failing step gives the error. A node runs exactly if it was launched, and then both
  tasks were spawned on it.
\<close>

lemma main_run_ok:
  "fst (main_run F Q W N now genesis dev iid h0) = Inr () \<longleftrightarrow>
     (\<exists>runtime dir w h node. lq_runtime Q = Inr runtime \<and> lq_tempdir Q = Inr dir \<and>
        main_wiring W N now genesis dev iid h0 = (w, h) \<and>
        lq_launch Q (main_node_config F dir dev) runtime w h = Inr node \<and>
        lq_exit Q (spawn_tasks Q w node) = Inr ())"
  by (auto simp: main_run_def Let_def split: sum.splits prod.splits)

lemma main_run_first_error:
  "lq_runtime Q = Inl e \<Longrightarrow> main_run F Q W N now genesis dev iid h0 = (Inl e, None)"
  "lq_runtime Q = Inr runtime \<Longrightarrow> lq_tempdir Q = Inl e \<Longrightarrow>
     main_run F Q W N now genesis dev iid h0 = (Inl e, None)"
  "lq_runtime Q = Inr runtime \<Longrightarrow> lq_tempdir Q = Inr dir \<Longrightarrow>
     main_wiring W N now genesis dev iid h0 = (w, h) \<Longrightarrow>
     lq_launch Q (main_node_config F dir dev) runtime w h = Inl e \<Longrightarrow>
     main_run F Q W N now genesis dev iid h0 = (Inl e, None)"
  by (simp_all add: main_run_def)

lemma main_run_node:
  "snd (main_run F Q W N now genesis dev iid h0) = Some node' \<longleftrightarrow>
     (\<exists>runtime dir w h node. lq_runtime Q = Inr runtime \<and> lq_tempdir Q = Inr dir \<and>
        main_wiring W N now genesis dev iid h0 = (w, h) \<and>
        lq_launch Q (main_node_config F dir dev) runtime w h = Inr node \<and> node' = spawn_tasks Q w node)"
  by (auto simp: main_run_def Let_def split: sum.splits prod.splits)

text \<open>
  A test passes with the launch exactly if the launch gives a node with a client and the test
  passes on that node: the properties of the tests are about the node alone.
\<close>

lemma launched_test_passes:
  "launch_test_client F Q E now genesis dev iid x h0 test = Inr () \<longleftrightarrow>
     (\<exists>cfg w h node. test_node_config F (lq_tempdir Q) dev = Some cfg \<and>
        main_wiring (l_watch (tn_lib E)) (l_notify (tn_lib E)) now genesis dev iid h0 = (w, h) \<and>
        lq_launch Q cfg (lq_test_runtime Q) w h = Inr node \<and>
        lq_http_client Q (spawn_tasks Q w node) \<noteq> None) \<and>
     with_test_client E now genesis dev iid x h0 test = Inr ()"
  by (auto simp: launch_test_client_def with_test_client_def Let_def
      split: option.splits sum.splits prod.splits)

end
