(* ===== verification/Test_Accounts.thy ===== *)
theory Test_Accounts
  imports Test_Client
begin

text \<open>
  The integration tests of the account methods (src/src/main.rs): balances, nonces, code,
  storage and the two ERC-20 methods, checked through the \<open>eth_*\<close> reads and \<open>eth_call\<close>. Each
  test is translated with its values; the theorems say that the node passes it.
\<close>

section \<open>The tests\<close>

definition anvil_set_balance_reflected_by_eth_get_balance where
  "anvil_set_balance_reflected_by_eth_get_balance E =
     (let target = repeat_byte 0xBA;
          new_balance = 42000000000000000000
      in and_then (eth_get_balance E target) (\<lambda>before.
         and_then (ensure (before = 0) ''target should start with zero balance'') (\<lambda>_.
         and_then (request_unit E ''anvil_setBalance'' (RpcSetBalance target new_balance)) (\<lambda>_.
         and_then (eth_get_balance E target) (\<lambda>after.
         ensure (after = new_balance)
           ''eth_getBalance should return the value set by anvil_setBalance'')))))"

text \<open>The bytecode \<open>PUSH20 <target> BALANCE PUSH1 0x00 MSTORE PUSH1 0x20 PUSH1 0x00 RETURN\<close>.\<close>

definition balance_bytecode :: "address \<Rightarrow> bytes" where
  "balance_bytecode target =
     [0x73] @ address_bytes target @ [0x31, 0x60, 0x00, 0x52, 0x60, 0x20, 0x60, 0x00, 0xf3]"

definition call_to :: "address \<Rightarrow> tx_request" where
  "call_to a = tx_request_default\<lparr>tr_to := Some a\<rparr>"

definition anvil_set_balance_is_visible_to_stock_eth_call where
  "anvil_set_balance_is_visible_to_stock_eth_call E =
     (let target = repeat_byte 0xBA;
          contract = repeat_byte 0xCC;
          new_balance = 42000000000000000000
      in and_then (request_unit E ''anvil_setBalance'' (RpcSetBalance target new_balance)) (\<lambda>_.
         let bytecode = balance_bytecode target;
             state_override = [(contract, bytecode)];
             call = call_to contract
         in and_then (eth_call_latest E call state_override) (\<lambda>result.
            and_then (from_be_slice E result) (\<lambda>v.
            ensure (v = new_balance) ''eth_call should see the balance set by anvil_setBalance''))))"

definition anvil_add_balance_accumulates_and_is_visible_to_reads where
  "anvil_add_balance_accumulates_and_is_visible_to_reads E =
     (let target = repeat_byte 0xAD;
          contract = repeat_byte 0xCE;
          first = 7;
          second = 9;
          expected = first + second
      in and_then (request_unit E ''anvil_addBalance'' (RpcAddBalance target first)) (\<lambda>_.
         and_then (request_unit E ''anvil_addBalance'' (RpcAddBalance target second)) (\<lambda>_.
         and_then (eth_get_balance E target) (\<lambda>balance.
         and_then (ensure (balance = expected)
           ''eth_getBalance should reflect the accumulated balance'') (\<lambda>_.
         let bytecode = balance_bytecode target;
             state_override = [(contract, bytecode)];
             call = call_to contract
         in and_then (eth_call_latest E call state_override) (\<lambda>result.
            and_then (from_be_slice E result) (\<lambda>v.
            ensure (v = expected) ''eth_call should see the accumulated balance'')))))))"

definition anvil_set_nonce_reflected_by_eth_get_transaction_count where
  "anvil_set_nonce_reflected_by_eth_get_transaction_count E =
     (let target = repeat_byte 0xAB;
          new_nonce = 7
      in and_then (eth_get_transaction_count E target) (\<lambda>before.
         and_then (ensure (before = 0) ''target should start with zero nonce'') (\<lambda>_.
         and_then (request_unit E ''anvil_setNonce'' (RpcSetNonce target new_nonce)) (\<lambda>_.
         and_then (eth_get_transaction_count E target) (\<lambda>after.
         ensure (after = new_nonce) ''eth_getTransactionCount should see the override'')))))"

definition anvil_set_code_is_visible_to_eth_get_code_and_eth_call where
  "anvil_set_code_is_visible_to_eth_get_code_and_eth_call E =
     (let contract = repeat_byte 0xCD;
          bytecode = [0x60, 0x2a, 0x60, 0x00, 0x52, 0x60, 0x20, 0x60, 0x00, 0xf3]
      in and_then (eth_get_code E contract) (\<lambda>before.
         and_then (ensure (before = []) ''target should start without code'') (\<lambda>_.
         and_then (request_unit E ''anvil_setCode'' (RpcSetCode contract bytecode)) (\<lambda>_.
         and_then (eth_get_code E contract) (\<lambda>after.
         and_then (ensure (after = bytecode) ''eth_getCode should see the overridden code'') (\<lambda>_.
         let call = call_to contract
         in and_then (eth_call_latest E call []) (\<lambda>result.
            and_then (from_be_slice E result) (\<lambda>v.
            ensure (v = 42) ''eth_call should execute the overridden code''))))))))"

definition anvil_set_storage_at_is_visible_to_eth_get_storage_at_and_eth_call where
  "anvil_set_storage_at_is_visible_to_eth_get_storage_at_and_eth_call E =
     (let contract = repeat_byte 0xCE;
          slot = 0;
          value = 0xBEEF;
          bytecode = [0x60, 0x00, 0x54, 0x60, 0x00, 0x52, 0x60, 0x20, 0x60, 0x00, 0xf3]
      in and_then (request_unit E ''anvil_setCode'' (RpcSetCode contract bytecode)) (\<lambda>_.
         and_then (request_bool E ''anvil_setStorageAt'' (RpcSetStorageAt contract slot value)) (\<lambda>updated.
         and_then (ensure updated ''anvil_setStorageAt should return true'') (\<lambda>_.
         and_then (eth_get_storage_at E contract slot) (\<lambda>stored.
         and_then (ensure (stored = value) ''eth_getStorageAt should see the overridden storage'') (\<lambda>_.
         let call = call_to contract
         in and_then (eth_call_latest E call []) (\<lambda>result.
            and_then (b256_from_slice result) (\<lambda>v.
            ensure (v = value) ''eth_call should load the overridden storage value''))))))))"

definition anvil_deal_erc20_is_visible_to_eth_call where
  "anvil_deal_erc20_is_visible_to_eth_call E =
     (let token = repeat_byte 0xD0;
          target = repeat_byte 0xD1;
          amount = 500;
          bytecode = [0x60, 0x00, 0x54, 0x60, 0x00, 0x52, 0x60, 0x20, 0x60, 0x00, 0xf3]
      in and_then (request_unit E ''anvil_setCode'' (RpcSetCode token bytecode)) (\<lambda>_.
         and_then (request_unit E ''anvil_dealERC20'' (RpcDealERC20 target token amount)) (\<lambda>_.
         let calldata = [0x70, 0xa0, 0x82, 0x31] @ replicate 12 0 @ address_bytes target;
             call = (call_to token)\<lparr>tr_input := Some calldata\<rparr>
         in and_then (eth_call_latest E call []) (\<lambda>result.
            and_then (from_be_slice E result) (\<lambda>v.
            ensure (v = amount) ''eth_call should see the ERC20 balance override'')))))"

definition anvil_set_erc20_allowance_is_visible_to_eth_call where
  "anvil_set_erc20_allowance_is_visible_to_eth_call E =
     (let token = repeat_byte 0xD2;
          owner = repeat_byte 0xD3;
          spender = repeat_byte 0xD4;
          amount = 777;
          bytecode = [0x60, 0x00, 0x54, 0x60, 0x00, 0x52, 0x60, 0x20, 0x60, 0x00, 0xf3]
      in and_then (request_unit E ''anvil_setCode'' (RpcSetCode token bytecode)) (\<lambda>_.
         and_then (request_unit E ''anvil_setERC20Allowance''
           (RpcSetERC20Allowance owner spender token amount)) (\<lambda>_.
         let calldata = [0xdd, 0x62, 0xed, 0x3e] @ replicate 12 0 @ address_bytes owner @
               replicate 12 0 @ address_bytes spender;
             call = (call_to token)\<lparr>tr_input := Some calldata\<rparr>
         in and_then (eth_call_latest E call []) (\<lambda>result.
            and_then (from_be_slice E result) (\<lambda>v.
            ensure (v = amount) ''eth_call should see the ERC20 allowance override'')))))"

section \<open>What the tests rely on\<close>

text \<open>
  How the EVM runs the three contracts of the tests, for a contract that is no precompile:
  one reads the balance of an account (given as a code override), one returns a constant,
  and one returns its slot 0, which is then also the access list of a call, and the slot
  an override of \<open>eth_call\<close> replaces.
\<close>

definition constant_code :: "u8 \<Rightarrow> bytes" where
  "constant_code v = [0x60, v, 0x60, 0x00, 0x52, 0x60, 0x20, 0x60, 0x00, 0xf3]"

definition slot_code :: bytes where
  "slot_code = [0x60, 0x00, 0x54, 0x60, 0x00, 0x52, 0x60, 0x20, 0x60, 0x00, 0xf3]"

definition evm_laws ::
  "('w, 'rx, 'n, 'f, 'bc, 'x, 'b, 'v) test_node \<Rightarrow> bool" where
  "evm_laws E \<longleftrightarrow>
     (let K = l_code (tn_lib E); T = tn_eth E; H = l_eth (tn_lib E) in
     \<forall>c\<ge>0x10000. \<forall>input.
       let tx = (call_to c)\<lparr>tr_input := input\<rparr> in
       (\<forall>P a acc. read_account P a = Inr acc \<longrightarrow>
          se_call T P tx [(c, balance_bytecode a)] = Inr (word_bytes (acc_balance acc))) \<and>
       (\<forall>P v. read_code K P c = Inr (constant_code v) \<longrightarrow>
          se_call T P tx [] = Inr (word_bytes (ucast v))) \<and>
       (\<forall>P v. read_code K P c = Inr slot_code \<longrightarrow> read_slot P c 0 = Inr v \<longrightarrow>
          se_call T P tx [] = Inr (word_bytes v)) \<and>
       (\<forall>s. read_code K (latest_provider E s) c = Inr slot_code \<longrightarrow>
          eth_create_access_list H s tx = Inr [(c, [0])] \<and>
          (\<forall>v. eth_call H s tx [(c, [(0, v)])] = Inr (word_bytes v))))"

text \<open>An account without overrides that the chain does not know either.\<close>

definition fresh where
  "fresh E s a \<longleftrightarrow> unused E s a \<and> account (anvil_state_of s) a = None"

lemma fresh_reads [simp]:
  assumes "fresh E s a"
  shows "unused E s a" "local_balance (anvil_state_of s) a = None"
    "local_nonce (anvil_state_of s) a = None" "local_code_hash (anvil_state_of s) a = None"
    "local_storage (anvil_state_of s) a k = None"
  using assms
  by (auto simp: fresh_def local_balance_def local_nonce_def local_code_hash_def
      local_storage_def account_def)

text \<open>A call of each contract, as the client makes it.\<close>

lemma call_balance:
  assumes "evm_laws E" and "unused E s a" and "0x10000 \<le> c"
  shows "eth_call_latest E (call_to c) [(c, balance_bytecode a)] s =
    (Inr (word_bytes (case local_balance (anvil_state_of s) a of Some b \<Rightarrow> b | None \<Rightarrow> 0)), s)"
proof -
  have "call_to c = (call_to c)\<lparr>tr_input := tr_input (call_to c)\<rparr>" by simp
  then have "se_call (tn_eth E) (latest_provider E s) (call_to c) [(c, balance_bytecode a)] =
      Inr (word_bytes (acc_balance (apply_overrides (anvil_state_of s) a acct_default)))"
    using assms(1,3) unused_reads(1) [OF assms(2)] unfolding evm_laws_def Let_def by metis
  then show ?thesis
    by (auto simp: eth_call_latest_def answered_def apply_overrides_def acct_default_def
        split: option.split)
qed

lemma call_constant:
  assumes "evm_laws E" and "client_laws E" and "unused E s c" and "0x10000 \<le> c"
    and "code_stored (l_code (tn_lib E)) c (constant_code v) (anvil_state_of s)"
  shows "eth_call_latest E (call_to c) [] s = (Inr (word_bytes (ucast v)), s)"
proof -
  have "read_code (l_code (tn_lib E)) (latest_provider E s) c = Inr (constant_code v)"
    by (rule code_shown) (use assms in \<open>simp_all add: client_laws_def\<close>)
  moreover have "call_to c = (call_to c)\<lparr>tr_input := tr_input (call_to c)\<rparr>" by simp
  ultimately have "se_call (tn_eth E) (latest_provider E s) (call_to c) [] = Inr (word_bytes (ucast v))"
    using assms(1,4) unfolding evm_laws_def Let_def by metis
  then show ?thesis by (simp add: eth_call_latest_def answered_def)
qed

lemma slot_contract:
  assumes "evm_laws E" and "client_laws E" and "unused E s c" and "0x10000 \<le> c"
    and "code_stored (l_code (tn_lib E)) c slot_code (anvil_state_of s)"
  shows "eth_call_latest E ((call_to c)\<lparr>tr_input := input\<rparr>) [] s =
      (Inr (word_bytes (case local_storage (anvil_state_of s) c 0 of Some w \<Rightarrow> w | None \<Rightarrow> 0)), s)"
    and "find_erc20_storage_slot (tn_lib E) c calldata v s = Ok 0"
proof -
  have code: "read_code (l_code (tn_lib E)) (latest_provider E s) c = Inr slot_code"
    by (rule code_shown) (use assms in \<open>simp_all add: client_laws_def\<close>)
  have call: "se_call (tn_eth E) (latest_provider E s) ((call_to c)\<lparr>tr_input := input\<rparr>) [] =
      Inr (word_bytes (case local_storage (anvil_state_of s) c 0 of Some w \<Rightarrow> w | None \<Rightarrow> 0))"
    using assms(1,4) code unused_reads(2) [OF assms(3), of 0] unfolding evm_laws_def Let_def by blast
  then show "eth_call_latest E ((call_to c)\<lparr>tr_input := input\<rparr>) [] s =
      (Inr (word_bytes (case local_storage (anvil_state_of s) c 0 of Some w \<Rightarrow> w | None \<Rightarrow> 0)), s)"
    by (simp add: eth_call_latest_def answered_def)
  let ?tx = "(call_to c)\<lparr>tr_input := Some calldata\<rparr>"
  have "eth_create_access_list (l_eth (tn_lib E)) s ?tx = Inr [(c, [0])]"
    "eth_call (l_eth (tn_lib E)) s ?tx [(c, [(0, v)])] = Inr (word_bytes v)"
    using assms(1,4) code unfolding evm_laws_def Let_def by blast+
  then show "find_erc20_storage_slot (tn_lib E) c calldata v s = Ok 0"
    using assms(2) by (simp add: find_erc20_storage_slot_def Let_def call_to_def client_laws_def)
qed

section \<open>The node passes the tests\<close>

lemma balance_tests_pass:
  assumes "client_laws E" and "evm_laws E"
  shows "fresh E s (repeat_byte 0xBA) \<Longrightarrow> passes (anvil_set_balance_reflected_by_eth_get_balance E) s"
    and "fresh E s (repeat_byte 0xBA) \<Longrightarrow> passes (anvil_set_balance_is_visible_to_stock_eth_call E) s"
    and "fresh E s (repeat_byte 0xAD) \<Longrightarrow>
      passes (anvil_add_balance_accumulates_and_is_visible_to_reads E) s"
    and "fresh E s (repeat_byte 0xAB) \<Longrightarrow>
      passes (anvil_set_nonce_reflected_by_eth_get_transaction_count E) s"
  using assms
  by (simp_all add: anvil_set_balance_reflected_by_eth_get_balance_def Let_def eth_reads store.bal_set_bal
      anvil_set_balance_is_visible_to_stock_eth_call_def call_balance repeat_byte_large
      anvil_add_balance_accumulates_and_is_visible_to_reads_def add_balance_request sat_add_def
      anvil_set_nonce_reflected_by_eth_get_transaction_count_def store.non_set_non)

lemma set_code_test_passes:
  assumes laws: "client_laws E" "evm_laws E" and fresh: "fresh E s (repeat_byte 0xCD)"
  shows "passes (anvil_set_code_is_visible_to_eth_get_code_and_eth_call E) s"
proof -
  let ?c = "repeat_byte 0xCD" and ?K = "l_code (tn_lib E)"
  obtain st where st: "request_unit E ''anvil_setCode'' (RpcSetCode ?c (constant_code 0x2a)) s =
      (Inr (), upd_anvil_state (\<lambda>_. st) s)" and stored: "code_stored ?K ?c (constant_code 0x2a) st"
    by (rule set_code_request [OF laws(1), of "constant_code 0x2a" ?c s]) (auto simp: constant_code_def)
  let ?s = "upd_anvil_state (\<lambda>_. st) s"
  have "read_code ?K (latest_provider E s) ?c = Inr []"
    using fresh by (simp add: unused_reads)
  then have before: "eth_get_code E ?c s = (Inr [], s)"
    using laws fresh by (simp add: eth_reads)
  have "read_code ?K (latest_provider E ?s) ?c = Inr (constant_code 0x2a)"
    by (rule code_shown) (use laws fresh stored in \<open>simp_all add: client_laws_def\<close>)
  then have after: "eth_get_code E ?c ?s = (Inr (constant_code 0x2a), ?s)"
    using laws fresh by (simp add: eth_reads)
  have called: "eth_call_latest E (call_to ?c) [] ?s = (Inr (word_bytes 42), ?s)"
    using call_constant [where E = E and c = ?c and v = "0x2a" and s = ?s] laws fresh stored by (simp add: repeat_byte_large)
  show ?thesis
    unfolding anvil_set_code_is_visible_to_eth_get_code_and_eth_call_def Let_def
      constant_code_def [symmetric]
    using laws(1) by (simp add: before st after called)
qed

lemma slot_contract_set:
  assumes laws: "client_laws E" "evm_laws E" and fresh: "fresh E s c" and "0x10000 \<le> c"
  obtains st where "request_unit E ''anvil_setCode'' (RpcSetCode c slot_code) s =
      (Inr (), upd_anvil_state (\<lambda>_. st) s)"
    and "\<And>v input. eth_call_latest E ((call_to c)\<lparr>tr_input := input\<rparr>) []
        (upd_anvil_state (set_storage_at c 0 v) (upd_anvil_state (\<lambda>_. st) s)) =
      (Inr (word_bytes v), upd_anvil_state (set_storage_at c 0 v) (upd_anvil_state (\<lambda>_. st) s))"
    and "\<And>v calldata. find_erc20_storage_slot (tn_lib E) c calldata v (upd_anvil_state (\<lambda>_. st) s) = Ok 0"
proof -
  obtain st where st: "request_unit E ''anvil_setCode'' (RpcSetCode c slot_code) s =
      (Inr (), upd_anvil_state (\<lambda>_. st) s)" and stored: "code_stored (l_code (tn_lib E)) c slot_code st"
    by (rule set_code_request [OF laws(1), of slot_code c s]) (auto simp: slot_code_def)
  show thesis
    by (rule that [OF st])
      (use laws fresh assms(4) stored in
        \<open>simp_all add: slot_contract store.sto_set_sto\<close>)
qed

lemma set_storage_test_passes:
  assumes "client_laws E" "evm_laws E" and "fresh E s (repeat_byte 0xCE)"
  shows "passes (anvil_set_storage_at_is_visible_to_eth_get_storage_at_and_eth_call E) s"
proof -
  let ?c = "repeat_byte 0xCE"
  obtain st where st: "request_unit E ''anvil_setCode'' (RpcSetCode ?c slot_code) s =
      (Inr (), upd_anvil_state (\<lambda>_. st) s)"
    and called: "\<And>v input. eth_call_latest E ((call_to ?c)\<lparr>tr_input := input\<rparr>) []
        (upd_anvil_state (set_storage_at ?c 0 v) (upd_anvil_state (\<lambda>_. st) s)) =
      (Inr (word_bytes v), upd_anvil_state (set_storage_at ?c 0 v) (upd_anvil_state (\<lambda>_. st) s))"
    by (rule slot_contract_set [OF assms repeat_byte_large]) simp_all
  have called: "eth_call_latest E (call_to ?c) [] (upd_anvil_state (set_storage_at ?c 0 v \<circ> (\<lambda>_. st)) s) =
      (Inr (word_bytes v), upd_anvil_state (set_storage_at ?c 0 v \<circ> (\<lambda>_. st)) s)" for v
    using called [of "tr_input (call_to ?c)" v] by simp
  show ?thesis
    unfolding anvil_set_storage_at_is_visible_to_eth_get_storage_at_and_eth_call_def Let_def
      slot_code_def [symmetric]
    using assms by (simp add: st eth_reads store.sto_set_sto called)
qed

lemma erc20_tests_pass:
  assumes "client_laws E" "evm_laws E"
  shows "fresh E s (repeat_byte 0xD0) \<Longrightarrow> passes (anvil_deal_erc20_is_visible_to_eth_call E) s"
    and "fresh E s (repeat_byte 0xD2) \<Longrightarrow> passes (anvil_set_erc20_allowance_is_visible_to_eth_call E) s"
proof -
  assume fresh: "fresh E s (repeat_byte 0xD0)"
  show "passes (anvil_deal_erc20_is_visible_to_eth_call E) s"
    by (rule slot_contract_set [OF assms fresh repeat_byte_large], simp)
      (use assms in \<open>simp add: anvil_deal_erc20_is_visible_to_eth_call_def Let_def slot_code_def [symmetric]
         request_runs registered_names_def answer_def anvil_deal_erc20_def\<close>)
next
  assume fresh: "fresh E s (repeat_byte 0xD2)"
  show "passes (anvil_set_erc20_allowance_is_visible_to_eth_call E) s"
    by (rule slot_contract_set [OF assms fresh repeat_byte_large], simp)
      (use assms in \<open>simp add: anvil_set_erc20_allowance_is_visible_to_eth_call_def Let_def
         slot_code_def [symmetric] request_runs registered_names_def answer_def
         anvil_set_erc20_allowance_def\<close>)
qed

lemma local_shared [simp]:
  "account anvil_state_shared a = None" "local_balance anvil_state_shared a = None"
  "local_nonce anvil_state_shared a = None" "local_code_hash anvil_state_shared a = None"
  "local_storage anvil_state_shared a k = None"
  by (simp_all add: anvil_state_shared_def anvil_state_defs)

section \<open>Properties\<close>

definition account_tests where
  "account_tests E =
     [anvil_set_balance_reflected_by_eth_get_balance E,
      anvil_set_balance_is_visible_to_stock_eth_call E,
      anvil_add_balance_accumulates_and_is_visible_to_reads E,
      anvil_deal_erc20_is_visible_to_eth_call E,
      anvil_set_erc20_allowance_is_visible_to_eth_call E,
      anvil_set_nonce_reflected_by_eth_get_transaction_count E,
      anvil_set_code_is_visible_to_eth_get_code_and_eth_call E,
      anvil_set_storage_at_is_visible_to_eth_get_storage_at_and_eth_call E]"

text \<open>
  C37: What a client sets it reads back: each of the eight account tests passes on a fresh
  node that does not know their addresses. Balances, nonces, code and slots set or added
  to by \<open>anvil_*\<close> requests (those found by \<open>anvil_dealERC20\<close> and \<open>anvil_setERC20Allowance\<close>
  included) are what the \<open>eth_*\<close> reads answer and what contracts run by \<open>eth_call\<close> see.
\<close>

theorem account_tests_pass:
  assumes "client_laws E" and "evm_laws E"
    and "\<forall>b\<in>{0xBA, 0xAD, 0xAB, 0xCD, 0xCE, 0xD0, 0xD2}.
      unused E (node_init (tn_lib E) now genesis dev iid x) (repeat_byte b)"
  shows "list_all (\<lambda>test. with_test_client E now genesis dev iid x h0 test = Inr ()) (account_tests E)"
proof -
  have "fresh E (node_init (tn_lib E) now genesis dev iid x) (repeat_byte b)"
    if "b \<in> {0xBA, 0xAD, 0xAB, 0xCD, 0xCE, 0xD0, 0xD2}" for b
    using assms(3) that by (auto simp: fresh_def)
  then show ?thesis
    using assms(1,2)
    by (simp add: account_tests_def with_test_client_passes balance_tests_pass set_code_test_passes
        set_storage_test_passes erc20_tests_pass)
qed

end
