(* ===== verification/Test_Dump.thy ===== *)
theory Test_Dump
  imports Test_Accounts Rpc_Dump
begin

text \<open>
  The integration test of \<open>anvil_dumpState\<close> and \<open>anvil_loadState\<close> (src/src/main.rs): two accounts
  are overridden, dumped, overridden again and restored from the dump.
\<close>

section \<open>The test\<close>

definition anvil_dump_and_load_state_round_trip where
  "anvil_dump_and_load_state_round_trip E =
     (let account = repeat_byte 0xA1;
          contract = repeat_byte 0xC1;
          balance = 123456;
          nonce = 7;
          slot = 0;
          storage = 0xBEEF;
          code = [0x60, 0x2a, 0x60, 0x00, 0x52, 0x60, 0x20, 0x60, 0x00, 0xf3]
      in and_then (request_unit E ''anvil_setBalance'' (RpcSetBalance account balance)) (\<lambda>_.
         and_then (request_unit E ''anvil_setNonce'' (RpcSetNonce account nonce)) (\<lambda>_.
         and_then (request_unit E ''anvil_setCode'' (RpcSetCode contract code)) (\<lambda>_.
         and_then (request_bool E ''anvil_setStorageAt'' (RpcSetStorageAt contract slot storage)) (\<lambda>_.
         and_then (request_bytes E ''anvil_dumpState'' (RpcDumpState None)) (\<lambda>dump.
         and_then (ensure (dump \<noteq> []) ''dumpState should return gzipped state bytes'') (\<lambda>_.
         let replacement_code = [0x60, 0x07, 0x60, 0x00, 0x52, 0x60, 0x20, 0x60, 0x00, 0xf3]
         in and_then (request_unit E ''anvil_setBalance'' (RpcSetBalance account 1)) (\<lambda>_.
         and_then (request_unit E ''anvil_setNonce'' (RpcSetNonce account 1)) (\<lambda>_.
         and_then (request_unit E ''anvil_setCode'' (RpcSetCode contract replacement_code)) (\<lambda>_.
         and_then (request_bool E ''anvil_setStorageAt'' (RpcSetStorageAt contract slot 1)) (\<lambda>_.
         and_then (request_bool E ''anvil_loadState'' (RpcLoadState dump)) (\<lambda>loaded.
         and_then (ensure loaded ''loadState should return true'') (\<lambda>_.
         and_then (eth_get_balance E account) (\<lambda>loaded_balance.
         and_then (ensure (loaded_balance = balance) ''loaded balance'') (\<lambda>_.
         and_then (eth_get_transaction_count E account) (\<lambda>loaded_nonce.
         and_then (ensure (loaded_nonce = nonce) ''loaded nonce'') (\<lambda>_.
         and_then (eth_get_code E contract) (\<lambda>loaded_code.
         and_then (ensure (loaded_code = code) ''loaded code'') (\<lambda>_.
         and_then (eth_get_storage_at E contract slot) (\<lambda>loaded_storage.
         and_then (ensure (loaded_storage = storage) ''loaded storage'') (\<lambda>_.
         and_then (eth_call_latest E (call_to contract) []) (\<lambda>result.
         and_then (from_be_slice E result) (\<lambda>v.
         ensure (v = 42) ''the loaded code runs'')))))))))))))))))))))))"

section \<open>What the test relies on\<close>

text \<open>
  Serialization and compression do not fail and round-trip, a gzip file is not empty, the
  head can be read, and the node dumps accounts that it can read, with well-formed codes,
  not including the given ones.
\<close>

definition dump_env ::
  "('w, 'rx, 'n, 'f, 'bc, 'x, 'b, 'v) test_node \<Rightarrow> 'x \<Rightarrow> address set \<Rightarrow> bool" where
  "dump_env E x unknown \<longleftrightarrow>
     (let L = tn_lib E; W = l_leaf L; Z = l_dump L in
      leaf_laws W \<and> dump_codec_laws Z \<and> (\<forall>st. \<exists>z. encode_gzipped W Z st = Inr z) \<and> \<not> gz_header Z [] \<and>
      (\<exists>n. l_best_block_number L x = Inr n) \<and>
      (\<exists>ds. l_dump_state_collect L x = Inr ds \<and> list_all (\<lambda>d. bt_wf (da_storage d)) ds \<and>
         (\<forall>d\<in>set ds. da_address d \<notin> unknown \<and> (\<exists>found. l_basic_account L x (da_address d) = Inr found) \<and>
            (\<forall>c. da_code d = Some c \<longrightarrow> c = [] \<or> new_raw (l_code L) c \<noteq> None))))"

text \<open>A dump is a non-empty gzip file of the merged state.\<close>

lemma dump_request:
  assumes "dump_env E (rpc_world s) A"
  obtains z ds n where "request_bytes E ''anvil_dumpState'' (RpcDumpState None) s = (Inr z, s)" and "z \<noteq> []"
    and "l_dump_state_collect (tn_lib E) (rpc_world s) = Inr ds" and "list_all (\<lambda>d. bt_wf (da_storage d)) ds"
    and "encode_gzipped (l_leaf (tn_lib E)) (l_dump (tn_lib E)) (merge_anvil_state (l_code (tn_lib E))
      (anvil_state_of s) (from_dump ds (Some n))) = Inr z"
proof -
  let ?L = "tn_lib E"
  obtain n ds where n: "l_best_block_number ?L (rpc_world s) = Inr n"
    and ds: "l_dump_state_collect ?L (rpc_world s) = Inr ds" "list_all (\<lambda>d. bt_wf (da_storage d)) ds"
    using assms unfolding dump_env_def Let_def by blast
  let ?m = "merge_anvil_state (l_code ?L) (anvil_state_of s) (from_dump ds (Some n))"
  obtain z where z: "encode_gzipped (l_leaf ?L) (l_dump ?L) ?m = Inr z"
    using assms unfolding dump_env_def Let_def by blast
  then have "gz_header (l_dump ?L) z"
    using assms by (auto simp: dump_env_def Let_def dump_codec_laws_def encode_gzipped_def split: sum.splits)
  then have "z \<noteq> []" using assms by (auto simp: dump_env_def Let_def)
  moreover have "request_bytes E ''anvil_dumpState'' (RpcDumpState None) s = (Inr z, s)"
    by (rule request_runs(6)) (simp_all add: registered_names_def answer_def anvil_dump_state_def
        dump_state_def ds best_block_number_def n z Let_def)
  ultimately show thesis using that ds z by blast
qed

text \<open>Loading accounts the node can read, with well-formed codes, succeeds.\<close>

lemma load_accounts_succeeds:
  assumes "\<forall>(a, r)\<in>set accs. (\<exists>found. l_basic_account L (rpc_world s) a = Inr found) \<and>
    (sr_code r = [] \<or> new_raw (l_code L) (sr_code r) \<noteq> None)"
  shows "\<exists>st. load_accounts L accs s = (Ok True, upd_anvil_state (\<lambda>_. st) s)"
  using assms
proof (induction accs arbitrary: s)
  case Nil
  show ?case by (intro exI [of _ "anvil_state_of s"]) (simp add: upd_anvil_state_def)
next
  case (Cons ar accs)
  obtain a r where ar: "ar = (a, r)" by (cases ar)
  obtain cur where "account_nonce L s a = Inr cur"
    using Cons.prems by (auto simp: ar account_nonce_def)
  moreover obtain st2 where "set_code (l_code L) a (sr_code r)
      (set_nonce a (max cur (sr_nonce r)) (set_balance a (sr_balance r) (anvil_state_of s))) = Some st2"
    using Cons.prems set_code_panics [of "l_code L" a "sr_code r"
        "set_nonce a (max cur (sr_nonce r)) (set_balance a (sr_balance r) (anvil_state_of s))"]
    by (auto simp: ar)
  ultimately obtain st1 where st1: "load_account L a r s = (Ok (), upd_anvil_state (\<lambda>_. st1) s)"
    by (simp add: load_account_def Let_def)
  obtain st where "load_accounts L accs (upd_anvil_state (\<lambda>_. st1) s) =
      (Ok True, upd_anvil_state (\<lambda>_. st) (upd_anvil_state (\<lambda>_. st1) s))"
    using Cons.IH [of "upd_anvil_state (\<lambda>_. st1) s"] Cons.prems by (auto simp: ar)
  then show ?case by (intro exI [of _ st]) (simp add: ar st1 comp_def)
qed

text \<open>The local state at the dump: two accounts, one with code and a slot.\<close>

definition two_accounts where
  "two_accounts K a c code st \<longleftrightarrow>
     as_wf K st \<and> account st a \<noteq> None \<and> account st c \<noteq> None \<and>
     (\<forall>b. account st b \<noteq> None \<longrightarrow> b = a \<or> b = c) \<and>
     (\<forall>b. b \<noteq> c \<longrightarrow> local_code_hash st b = None) \<and> code_stored K c code st"

lemma merged_records_load:
  assumes laws: "client_laws E" and env: "dump_env E x {a, c}"
    and ds: "l_dump_state_collect (tn_lib E) x = Inr ds"
    and two: "two_accounts (l_code (tn_lib E)) a c code st" and code: "code \<noteq> []" "hd code \<noteq> 0xEF"
    and known: "sp_basic_account (se_provider (tn_eth E) x) a = Inr None"
      "sp_basic_account (se_provider (tn_eth E) x) c = Inr None"
    and m: "m = merge_anvil_state (l_code (tn_lib E)) st (from_dump ds (Some n))"
    and wf: "dump_wf m"
  shows "\<forall>(b, r)\<in>set (ss_accounts m). (\<exists>found. l_basic_account (tn_lib E) x b = Inr found) \<and>
    (sr_code r = [] \<or> new_raw (l_code (tn_lib E)) (sr_code r) \<noteq> None)"
proof (clarify)
  fix b r
  assume "(b, r) \<in> set (ss_accounts m)"
  then have r: "bt_get (ss_accounts m) b = Some r"
    using wf by (auto simp: dump_wf_def intro: map_of_is_SomeI bt_wf_distinct)
  then have rec: "r = record_at m b" by (simp add: record_at_def)
  let ?K = "l_code (tn_lib E)" and ?f = "from_dump ds (Some n)"
  have K: "code_laws ?K" "new_raw ?K code \<noteq> None" using laws code by (auto simp: client_laws_def)
  have st: "as_wf ?K st" "hm_wf (as_accounts st)" using two by (auto simp: two_accounts_def as_wf_def)
  have dumped: "(\<exists>found. l_basic_account (tn_lib E) x b = Inr found) \<and>
      (\<forall>c. da_code d = Some c \<longrightarrow> c = [] \<or> new_raw ?K c \<noteq> None) \<and> b \<noteq> a \<and> b \<noteq> c"
    if "d \<in> set ds" "da_address d = b" for d
    using env ds that unfolding dump_env_def Let_def by fastforce
  have base: "bt_get (ss_accounts ?f) b = Some q \<Longrightarrow>
      \<exists>d\<in>set ds. da_address d = b \<and> q = account_record_from d" for q
    by (auto simp: from_dump_def bt_get_collect dest!: map_of_SomeD)
  have "(\<exists>d\<in>set ds. da_address d = b) \<or> b = a \<or> b = c"
    using r base two unfolding m merge_lookup [OF st(2)]
    by (auto simp: two_accounts_def split: option.splits)
  then have found: "\<exists>found. l_basic_account (tn_lib E) x b = Inr found"
    using dumped known laws by (auto simp: client_laws_def)
  have "sr_code r = [] \<or> new_raw ?K (sr_code r) \<noteq> None"
  proof (cases "b = c")
    case True
    then have "local_code_hash st b = Some (keccak256 ?K code)"
      "map_option (original_bytes ?K) (local_bytecode_by_hash st (keccak256 ?K code)) = Some code"
      using two code(1) by (simp_all add: two_accounts_def code_stored_def)
    moreover have "keccak256 ?K code \<noteq> keccak_empty ?K" using K(1) code(1) by (auto simp: code_laws_def)
    ultimately show ?thesis
      using K(2) by (auto simp: rec m merge_reads(3) [OF st(1)])
  next
    case False
    then have "sr_code r = sr_code (record_at ?f b)"
      using two by (simp add: rec m merge_reads(3) [OF st(1)] two_accounts_def)
    moreover have "sr_code (record_at ?f b) = [] \<or>
        (\<exists>d\<in>set ds. da_address d = b \<and> da_code d = Some (sr_code (record_at ?f b)))"
      using base by (cases "bt_get (ss_accounts ?f) b")
        (auto simp: record_at_def account_record_default_def account_record_from_def split: option.split)
    ultimately show ?thesis using dumped by metis
  qed
  with found show "(\<exists>found. l_basic_account (tn_lib E) x b = Inr found) \<and>
      (sr_code r = [] \<or> new_raw ?K (sr_code r) \<noteq> None)" by blast
qed

text \<open>
  What a load of the dump leaves, in any state of the same chain: the balance, the code and
  the slots of the dump, and its nonce if the account has no higher one.
\<close>

lemma load_request:
  assumes laws: "client_laws E" and env: "dump_env E (rpc_world t) {a, c}"
    and ds: "l_dump_state_collect (tn_lib E) (rpc_world t) = Inr ds" "list_all (\<lambda>d. bt_wf (da_storage d)) ds"
    and two: "two_accounts (l_code (tn_lib E)) a c code st" and code: "code \<noteq> []" "hd code \<noteq> 0xEF"
    and unique: "\<forall>z. keccak256 (l_code (tn_lib E)) z = keccak256 (l_code (tn_lib E)) code \<longrightarrow> z = code"
    and known: "unused E t a" "unused E t c"
    and dump: "encode_gzipped (l_leaf (tn_lib E)) (l_dump (tn_lib E))
      (merge_anvil_state (l_code (tn_lib E)) st (from_dump ds (Some n))) = Inr z"
    and wf: "as_wf (l_code (tn_lib E)) (anvil_state_of t)"
    and now: "local_nonce (anvil_state_of t) a = Some k" "local_nonce st a = Some j" "k \<le> j"
    and bal: "local_balance st a = Some v" and sto: "local_storage st c slot = Some w"
  shows "\<exists>st'. request_bool E ''anvil_loadState'' (RpcLoadState z) t = (Inr True, upd_anvil_state (\<lambda>_. st') t) \<and>
    local_balance st' a = Some v \<and> local_nonce st' a = Some j \<and>
    code_stored (l_code (tn_lib E)) c code st' \<and> local_storage st' c slot = Some w"
proof -
  let ?L = "tn_lib E" and ?K = "l_code (tn_lib E)"
  define m where "m = merge_anvil_state ?K st (from_dump ds (Some n))"
  have K: "code_laws ?K" using laws by (simp add: client_laws_def)
  have st: "as_wf ?K st" using two by (simp add: two_accounts_def)
  have fwf: "dump_wf (from_dump ds (Some n))" by (rule dump_wf_from_dump) (rule ds(2))
  then have mwf: "dump_wf m" unfolding m_def by (rule dump_wf_merge [OF st])
  have keys: "distinct (map fst (ss_accounts m))" "list_all (\<lambda>(a, r). bt_wf (sr_storage r)) (ss_accounts m)"
    using mwf by (simp_all add: dump_wf_def bt_wf_distinct)
  have leaf: "leaf_laws (l_leaf ?L)" "dump_codec_laws (l_dump ?L)"
    using env by (simp_all add: dump_env_def Let_def)
  have records: "bt_get (ss_accounts m) a = Some (record_at m a)" "bt_get (ss_accounts m) c = Some (record_at m c)"
    unfolding m_def by (rule merged_present [OF st]; use two in \<open>simp add: two_accounts_def\<close>)+
  obtain st' where load: "load_accounts ?L (ss_accounts m) t = (Ok True, upd_anvil_state (\<lambda>_. st') t)"
    using load_accounts_succeeds [OF merged_records_load [OF laws env ds(1) two code _ _ m_def mwf]] known
    by (auto simp: unused_def)
  then have request: "request_bool E ''anvil_loadState'' (RpcLoadState z) t =
      (Inr True, upd_anvil_state (\<lambda>_. st') t)"
    using decode_encode [OF leaf mwf] dump
    by (intro request_runs(2))
      (simp_all add: registered_names_def answer_def anvil_load_state_def load_state_def m_def)
  note reads = load_accounts_reads [OF load keys]
  have "account_nonce ?L t a = Inr k"
    using laws known(1) now(1) by (simp add: account_nonce_def unused_def client_laws_def local_nonce_def)
  moreover have "sr_balance (record_at m a) = v" "sr_nonce (record_at m a) = j"
    using now(2) bal by (simp_all add: m_def merge_reads [OF st])
  ultimately have account: "local_balance st' a = Some v" "local_nonce st' a = Some j"
    using reads [of a] now(3) by (simp_all add: records max_absorb2)
  have stored: "local_code_hash st c = Some (keccak256 ?K code)"
    "map_option (original_bytes ?K) (local_bytecode_by_hash st (keccak256 ?K code)) = Some code"
    using two code(1) by (simp_all add: two_accounts_def code_stored_def)
  have nonempty: "keccak256 ?K code \<noteq> keccak_empty ?K" using K code(1) by (auto simp: code_laws_def)
  have "sr_code (record_at m c) = code"
    using stored nonempty by (auto simp: m_def merge_reads(3) [OF st])
  then have hash: "local_code_hash st' c = Some (keccak256 ?K code)"
    using reads [of c] by (simp add: records code_hash_of_keccak [OF K])
  have "as_wf ?K st'" using as_wf_load_accounts [OF K wf, of "ss_accounts m"] load by simp
  then have "\<exists>bc. local_bytecode_by_hash st' (keccak256 ?K code) = Some bc \<and>
      keccak256 ?K (original_bytes ?K bc) = keccak256 ?K code"
    using hash nonempty unfolding as_wf_def by blast
  then have "code_stored ?K c code st'" using hash unique by (auto simp: code_stored_def)
  moreover have "bt_get (sr_storage (record_at m c)) slot = Some w"
    using sto by (simp add: m_def merge_storage [OF st fwf])
  then have "local_storage st' c slot = Some w" using reads [of c slot] by (simp add: records)
  ultimately show ?thesis using request account by blast
qed

section \<open>The node passes the test\<close>

lemma two_accounts_set:
  assumes "code_laws K" and "a \<noteq> c"
    and "set_code K c code (set_nonce a n (set_balance a v anvil_state_shared)) = Some st"
  shows "two_accounts K a c code (set_storage_at c k w st)"
    and "local_balance (set_storage_at c k w st) a = Some v" "local_nonce (set_storage_at c k w st) a = Some n"
    and "local_storage (set_storage_at c k w st) c k = Some w"
proof -
  note reads = set_code_reads [OF assms(3)]
  have "as_wf K (set_nonce a n (set_balance a v anvil_state_shared))"
    by (intro as_wf_set_nonce as_wf_set_balance as_wf_shared)
  then have "as_wf K (set_storage_at c k w st)"
    by (intro as_wf_set_storage_at as_wf_set_code [OF assms(1) _ assms(3)])
  moreover have "code_stored K c code (set_storage_at c k w st)"
    using set_code_stored [OF assms(1,3)] by simp
  ultimately show "two_accounts K a c code (set_storage_at c k w st)"
    by (simp add: two_accounts_def reads)
  show "local_balance (set_storage_at c k w st) a = Some v" "local_nonce (set_storage_at c k w st) a = Some n"
    "local_storage (set_storage_at c k w st) c k = Some w"
    by (simp_all add: store.bal_frame store.non_frame store.sto_set_sto store.bal_set_bal store.non_set_non reads)
qed

lemma dump_test_runs:
  assumes laws: "client_laws E" "evm_laws E" and shared: "anvil_state_of s = anvil_state_shared"
    and known: "unused E s (repeat_byte 0xA1)" "unused E s (repeat_byte 0xC1)"
    and env: "dump_env E (rpc_world s) {repeat_byte 0xA1, repeat_byte 0xC1}"
    and unique: "\<forall>z. keccak256 (l_code (tn_lib E)) z = keccak256 (l_code (tn_lib E)) (constant_code 0x2a) \<longrightarrow>
      z = constant_code 0x2a"
  shows "passes (anvil_dump_and_load_state_round_trip E) s"
proof -
  let ?a = "repeat_byte 0xA1" and ?c = "repeat_byte 0xC1" and ?K = "l_code (tn_lib E)"
  have K: "code_laws ?K" using laws(1) by (simp add: client_laws_def)
  have code: "constant_code v \<noteq> []" "hd (constant_code v) \<noteq> 0xEF" for v by (simp_all add: constant_code_def)
  let ?t1 = "upd_anvil_state (set_nonce ?a 7) (upd_anvil_state (set_balance ?a 123456) s)"
  obtain st where st: "request_unit E ''anvil_setCode'' (RpcSetCode ?c (constant_code 0x2a)) ?t1 =
      (Inr (), upd_anvil_state (\<lambda>_. st) ?t1)"
    and set: "set_code ?K ?c (constant_code 0x2a) (set_nonce ?a 7 (set_balance ?a 123456 anvil_state_shared)) = Some st"
    by (rule set_code_request [OF laws(1) code, of ?c "0x2a" ?t1]) (simp add: shared)
  let ?st = "set_storage_at ?c 0 0xBEEF st"
  let ?t = "upd_anvil_state (set_storage_at ?c 0 0xBEEF) (upd_anvil_state (\<lambda>_. st) ?t1)"
  have "?a \<noteq> ?c" by simp
  note two = two_accounts_set [OF K this set, of 0 "0xBEEF"]
  have "dump_env E (rpc_world ?t) {?a, ?c}" using env by simp
  then obtain z ds n where dump: "request_bytes E ''anvil_dumpState'' (RpcDumpState None) ?t = (Inr z, ?t)" "z \<noteq> []"
    and ds: "l_dump_state_collect (tn_lib E) (rpc_world s) = Inr ds" "list_all (\<lambda>d. bt_wf (da_storage d)) ds"
    and enc: "encode_gzipped (l_leaf (tn_lib E)) (l_dump (tn_lib E))
      (merge_anvil_state ?K ?st (from_dump ds (Some n))) = Inr z"
    by (rule dump_request) simp
  let ?u1 = "upd_anvil_state (set_nonce ?a 1) (upd_anvil_state (set_balance ?a 1) ?t)"
  obtain st2 where st2: "request_unit E ''anvil_setCode'' (RpcSetCode ?c (constant_code 7)) ?u1 =
      (Inr (), upd_anvil_state (\<lambda>_. st2) ?u1)"
    and nonce2: "local_nonce st2 = local_nonce (anvil_state_of ?u1)"
    and set2: "set_code ?K ?c (constant_code 7) (anvil_state_of ?u1) = Some st2"
    by (rule set_code_request [OF laws(1) code, of ?c 7 ?u1]) blast
  let ?u = "upd_anvil_state (set_storage_at ?c 0 1) (upd_anvil_state (\<lambda>_. st2) ?u1)"
  have "as_wf ?K (anvil_state_of ?u1)" using two(1)
    by (simp add: two_accounts_def as_wf_set_nonce as_wf_set_balance)
  then have wf: "as_wf ?K (anvil_state_of ?u)"
    using as_wf_set_code [OF K _ set2] by (simp add: as_wf_set_storage_at)
  have at_u: "dump_env E (rpc_world ?u) {?a, ?c}" "l_dump_state_collect (tn_lib E) (rpc_world ?u) = Inr ds"
    "unused E ?u ?a" "unused E ?u ?c" "local_nonce (anvil_state_of ?u) ?a = Some 1"
    using env ds known by (simp_all add: store.non_frame nonce2 store.non_set_non del: upd_anvil_state_twice)
  have "(1 :: u64) \<le> 7" by simp
  note load_request [OF laws(1) at_u(1,2) ds(2) two(1) code unique at_u(3,4) enc wf at_u(5) two(3) this two(2,4)]
  then obtain st3 where load: "request_bool E ''anvil_loadState'' (RpcLoadState z) ?u =
      (Inr True, upd_anvil_state (\<lambda>_. st3) ?u)"
    and back_to: "local_balance st3 ?a = Some 123456" "local_nonce st3 ?a = Some 7"
      "code_stored ?K ?c (constant_code 0x2a) st3" "local_storage st3 ?c 0 = Some 0xBEEF"
    by (elim exE conjE)
  let ?v = "upd_anvil_state (\<lambda>_. st3) ?u"
  have "read_code ?K (latest_provider E ?v) ?c = Inr (constant_code 0x2a)"
    by (rule code_shown [OF K]) (use known back_to in simp_all)
  then have shown: "eth_get_code E ?c ?v = (Inr (constant_code 0x2a), ?v)"
    using laws(1) known by (simp add: eth_reads)
  have called: "eth_call_latest E (call_to ?c) [] ?v = (Inr (word_bytes 42), ?v)"
    using call_constant [where E = E and c = ?c and v = "0x2a" and s = ?v] laws known back_to
    by (simp add: repeat_byte_large)
  show ?thesis
    unfolding anvil_dump_and_load_state_round_trip_def Let_def constant_code_def [symmetric]
    using laws known
    by (simp add: st dump st2 load shown called eth_reads back_to del: upd_anvil_state_twice)
qed

section \<open>Properties\<close>

text \<open>
  C39: A dump restores what was dumped: on a fresh node whose library dumps and reads its own
  accounts without errors, the dump-and-load test passes. Overrides made after the dump are
  gone after the load: balance, code and slot are those of the dump, and the nonce, which
  was lowered in between, is back at its value.
\<close>

theorem dump_test_passes:
  assumes "client_laws E" and "evm_laws E"
    and "dump_env E x {repeat_byte 0xA1, repeat_byte 0xC1}"
    and "\<forall>b\<in>{0xA1, 0xC1}. unused E (node_init (tn_lib E) now genesis dev iid x) (repeat_byte b)"
    and "\<forall>z. keccak256 (l_code (tn_lib E)) z = keccak256 (l_code (tn_lib E)) (constant_code 0x2a) \<longrightarrow>
      z = constant_code 0x2a"
  shows "with_test_client E now genesis dev iid x h0 (anvil_dump_and_load_state_round_trip E) = Inr ()"
  unfolding with_test_client_passes
  by (rule dump_test_runs) (use assms in simp_all)

end
