(* ===== verification/Test_Miner.thy ===== *)
theory Test_Miner
  imports Test_Client
begin

text \<open>
  The node under test with its local miner: outstanding triggers become blocks while a
  handler waits. What \<open>anvil_mine\<close> does to such a node, and the block the client sees after it.
\<close>

section \<open>What the tests rely on\<close>

text \<open>
  The local miner takes an outstanding trigger for each block it makes; in a round it makes
  at most \<open>k\<close> blocks.
\<close>

definition outstanding :: "('w, 'n, 'bc, 'x) anvil_rpc \<Rightarrow> nat" where
  "outstanding s = unat (mt_pending (triggers (rpc_mining s)))"

definition take_trigger :: "('w, 'n) mining_controller \<Rightarrow> ('w, 'n) mining_controller" where
  "take_trigger m = m\<lparr>triggers := (triggers m)\<lparr>mt_pending := mt_pending (triggers m) - 1\<rparr>\<rparr>"

fun miner_round ::
  "('x, 'e, 'hdr, 'env, 'ctx, 'pl) block_lib \<Rightarrow> nat \<Rightarrow> ('w, 'n, 'bc, 'x) anvil_rpc
     \<Rightarrow> ('w, 'n, 'bc, 'x) anvil_rpc" where
  "miner_round B 0 s = s"
| "miner_round B (Suc k) s =
     (if outstanding s = 0 then s
      else miner_round B k (produce_block B (s\<lparr>rpc_mining := take_trigger (rpc_mining s)\<rparr>)))"

text \<open>
  The handlers and the client look at the chain the miner extends, and the gas price fits
  128 bits.
\<close>

definition chain_reads ::
  "('w, 'rx, 'n, 'f, 'bc, 'x, 'b, 'v) test_node \<Rightarrow> ('x, 'e, 'hdr, 'env, 'ctx, 'pl) block_lib \<Rightarrow> bool" where
  "chain_reads E B \<longleftrightarrow>
     block_lib_laws B \<and>
     (\<forall>x. l_best_block_number (tn_lib E) x = Inr (bl_best B x)) \<and>
     (\<forall>x. se_block_number (tn_eth E) x = Inr (ucast (bl_best B x))) \<and>
     (\<forall>s n full. \<exists>r. eth_block_by_number (l_eth (tn_lib E)) s (Number n) full = Inr r \<and>
        map_option rb_header r = bl_header B (rpc_world s) n) \<and>
     (\<forall>s full. eth_block_by_number (l_eth (tn_lib E)) s Latest full =
        eth_block_by_number (l_eth (tn_lib E)) s (Number (bl_best B (rpc_world s))) full) \<and>
     (\<forall>s. \<exists>price. eth_gas_price (l_eth (tn_lib E)) s = Inr price \<and> unat price < 2 ^ 128)"

text \<open>
  During a sleep of a waiting handler the miner makes at least one of the outstanding blocks
  and the chain does not move otherwise.
\<close>

definition chain_laws ::
  "('w, 'rx, 'n, 'f, 'bc, 'x, 'b, 'v) test_node \<Rightarrow> ('x, 'e, 'hdr, 'env, 'ctx, 'pl) block_lib \<Rightarrow> bool" where
  "chain_laws E B \<longleftrightarrow>
     chain_reads E B \<and> (\<forall>i s. \<exists>k\<ge>1. tn_during E i s = miner_round B k s)"

lemma chain_laws_reads [simp]: "chain_laws E B \<Longrightarrow> chain_reads E B"
  by (simp add: chain_laws_def)

section \<open>The miner\<close>

text \<open>The state \<open>n\<close> blocks later, with the controller \<open>m\<close>.\<close>

definition blocks_later ::
  "('x, 'e, 'hdr, 'env, 'ctx, 'pl) block_lib \<Rightarrow> nat \<Rightarrow> ('w, 'n) mining_controller
     \<Rightarrow> ('w, 'n, 'bc, 'x) anvil_rpc \<Rightarrow> ('w, 'n, 'bc, 'x) anvil_rpc" where
  "blocks_later B n m s = ((produce_block B ^^ n) s)\<lparr>rpc_mining := m\<rparr>"

lemma produce_block_mining:
  "produce_block B (s\<lparr>rpc_mining := m\<rparr>) = (produce_block B s)\<lparr>rpc_mining := m\<rparr>"
  by (simp add: produce_block_def Let_def case_prod_beta upd_block_env_def split: sum.split)

lemma produce_blocks_mining:
  "(produce_block B ^^ n) (s\<lparr>rpc_mining := m\<rparr>) = ((produce_block B ^^ n) s)\<lparr>rpc_mining := m\<rparr>"
  by (induction n) (simp_all add: produce_block_mining)

lemma produce_block_blocks_later:
  "produce_block B (blocks_later B n m s) = blocks_later B (Suc n) m s"
  by (simp add: blocks_later_def produce_block_mining)

lemma blocks_later_simps [simp]:
  "rpc_mining (blocks_later B n m s) = m"
  "(blocks_later B n m s)\<lparr>rpc_mining := m'\<rparr> = blocks_later B n m' s"
  "blocks_later B n m (s\<lparr>rpc_mining := m'\<rparr>) = blocks_later B n m s"
  "outstanding (blocks_later B n m s) = unat (mt_pending (triggers m))"
  by (simp_all add: blocks_later_def outstanding_def produce_blocks_mining)

lemma blocks_later_world:
  assumes "block_lib_laws B"
  shows "bl_best B (rpc_world (blocks_later B n m s)) = bl_best B (rpc_world s) + of_nat n"
    "anvil_state_of (blocks_later B n m s) = anvil_state_of s"
    "cx_node (rpc_context (blocks_later B n m s)) = cx_node (rpc_context s)"
proof (induction n)
  case (Suc n)
  have "blocks_later B (Suc n) m s = produce_block B (blocks_later B n m s)"
    by (simp add: produce_block_blocks_later)
  with Suc show "bl_best B (rpc_world (blocks_later B (Suc n) m s)) = bl_best B (rpc_world s) + of_nat (Suc n)"
    "anvil_state_of (blocks_later B (Suc n) m s) = anvil_state_of s"
    "cx_node (rpc_context (blocks_later B (Suc n) m s)) = cx_node (rpc_context s)"
    by (simp_all add: produce_block_state [OF assms] algebra_simps)
qed (simp_all add: blocks_later_def)

text \<open>A round of the miner makes some of the outstanding blocks.\<close>

lemma miner_round_blocks:
  "\<exists>d m. d \<le> outstanding s \<and> (1 \<le> k \<longrightarrow> 0 < outstanding s \<longrightarrow> 1 \<le> d) \<and>
     miner_round B k s = blocks_later B d m s \<and>
     unat (mt_pending (triggers m)) + d = outstanding s \<and> mode_tx m = mode_tx (rpc_mining s)"
proof (induction k arbitrary: s)
  case 0
  show ?case by (intro exI [of _ 0] exI [of _ "rpc_mining s"]) (simp add: blocks_later_def outstanding_def)
next
  case (Suc k)
  show ?case
  proof (cases "outstanding s = 0")
    case True
    then show ?thesis
      by (intro exI [of _ 0] exI [of _ "rpc_mining s"]) (simp add: blocks_later_def outstanding_def)
  next
    case False
    let ?m = "take_trigger (rpc_mining s)"
    let ?s = "blocks_later B 1 ?m s"
    have step: "miner_round B (Suc k) s = miner_round B k ?s" "mode_tx ?m = mode_tx (rpc_mining s)"
      using False by (simp_all add: blocks_later_def produce_block_mining take_trigger_def)
    have "mt_pending (triggers (rpc_mining s)) \<noteq> 0"
      using False by (auto simp: outstanding_def)
    then have one: "Suc (outstanding ?s) = outstanding s"
      by (simp add: outstanding_def take_trigger_def unat_minus_one unat_gt_0)
    obtain d m where "d \<le> outstanding ?s" "miner_round B k ?s = blocks_later B d m ?s"
      "unat (mt_pending (triggers m)) + d = outstanding ?s" "mode_tx m = mode_tx (rpc_mining ?s)"
      using Suc.IH [of ?s] by blast
    moreover have "blocks_later B d m ?s = blocks_later B (Suc d) m s"
      by (simp add: blocks_later_def produce_block_mining produce_blocks_mining funpow_Suc_right del: funpow.simps)
    ultimately show ?thesis
      using one unfolding step(1) by (intro exI [of _ "Suc d"] exI [of _ m]) (simp add: step(2))
  qed
qed

lemma sleeps_make_blocks:
  assumes "chain_laws E B"
  shows "\<exists>d m. min j (outstanding t) \<le> d \<and> d \<le> outstanding t \<and>
     fold (tn_during E) [0..<j] t = blocks_later B d m t \<and>
     unat (mt_pending (triggers m)) + d = outstanding t \<and> mode_tx m = mode_tx (rpc_mining t)"
proof (induction j)
  case 0
  show ?case by (intro exI [of _ 0] exI [of _ "rpc_mining t"]) (simp add: blocks_later_def outstanding_def)
next
  case (Suc j)
  obtain d m where d: "min j (outstanding t) \<le> d" "d \<le> outstanding t"
    and at: "fold (tn_during E) [0..<j] t = blocks_later B d m t"
    and m: "unat (mt_pending (triggers m)) + d = outstanding t" "mode_tx m = mode_tx (rpc_mining t)"
    using Suc.IH by blast
  let ?t = "blocks_later B d m t"
  have later: "blocks_later B d' m' ?t = blocks_later B (d' + d) m' t" for d' m'
    by (simp add: blocks_later_def produce_blocks_mining funpow_add)
  obtain k where k: "1 \<le> k" "tn_during E j ?t = miner_round B k ?t"
    using assms unfolding chain_laws_def by blast
  have out: "outstanding ?t = unat (mt_pending (triggers m))" by (rule blocks_later_simps(4))
  obtain d' m' where round: "d' \<le> outstanding ?t \<and> (1 \<le> k \<longrightarrow> 0 < outstanding ?t \<longrightarrow> 1 \<le> d') \<and>
     miner_round B k ?t = blocks_later B d' m' ?t \<and>
     unat (mt_pending (triggers m')) + d' = outstanding ?t \<and> mode_tx m' = mode_tx (rpc_mining ?t)"
    using miner_round_blocks [of ?t k B] by (elim exE)
  then have d': "d' \<le> outstanding ?t" "0 < outstanding ?t \<Longrightarrow> 1 \<le> d'"
    and at': "miner_round B k ?t = blocks_later B d' m' ?t"
    and m': "unat (mt_pending (triggers m')) + d' = outstanding ?t" "mode_tx m' = mode_tx (rpc_mining ?t)"
    using k(1) by simp_all
  have "min (Suc j) (outstanding t) \<le> d' + d" "d' + d \<le> outstanding t"
    "unat (mt_pending (triggers m')) + (d' + d) = outstanding t"
    using d d' m(1) m'(1) unfolding out by linarith+
  moreover have "fold (tn_during E) [0..<Suc j] t = blocks_later B (d' + d) m' t"
    by (simp add: at k(2) at' later)
  moreover have "mode_tx m' = mode_tx (rpc_mining t)" using m'(2) m(2) by simp
  ultimately show ?case by blast
qed

lemma mine_blocks_run:
  assumes "chain_laws E B" and "outstanding s = 0" and "0 < unat n" and "unat n < 200"
    and "unat (bl_best B (rpc_world s)) + unat n < 2 ^ 64"
  shows "\<exists>m. mt_pending (triggers m) = 0 \<and> mode_tx m = mode_tx (rpc_mining s) \<and>
    mine_blocks (tn_lib E) (tn_during E) n s =
      (Inr (map (\<lambda>i. bl_best B (rpc_world s) + 1 + of_nat i) [0..<unat n]), blocks_later B (unat n) m s)"
proof -
  let ?L = "tn_lib E" and ?start = "bl_best B (rpc_world s)" and ?t = "triggered (tn_lib E) n s"
  let ?at = "\<lambda>k. after_sleeps (tn_during E) 0 k ?t"
  have best: "l_best_block_number ?L x = Inr (bl_best B x)" for x
    using assms(1) by (simp add: chain_laws_def chain_reads_def)
  have laws: "block_lib_laws B" using assms(1) by (simp add: chain_laws_def chain_reads_def)
  have n: "n \<noteq> 0" using assms(3) by auto
  have "mt_pending (triggers (rpc_mining s)) = 0"
    using assms(2) by (simp add: outstanding_def unat_eq_zero)
  then have out: "outstanding ?t = unat n"
    by (simp add: outstanding_def triggered_def trigger_funpow_pending)
  have mode: "mode_tx (rpc_mining ?t) = mode_tx (rpc_mining s)"
    by (simp add: triggered_def trigger_funpow_mode)
  have later: "blocks_later B d m ?t = blocks_later B d m s" for d m
    by (simp add: triggered_def)
  have target: "sat_add ?start n = ?start + n" "unat (?start + n) = unat ?start + unat n"
    using assms(5) by (simp_all add: sat_add_def unat_word_ariths)
  have ends: "\<exists>d m. min k (unat n) \<le> d \<and> d \<le> unat n \<and> ?at k = blocks_later B d m s \<and>
      unat (mt_pending (triggers m)) + d = unat n \<and> mode_tx m = mode_tx (rpc_mining s) \<and>
      (poll_ends ?L (?start + n) (?at k) \<longleftrightarrow> d = unat n)" for k
  proof -
    obtain d m where d: "min k (unat n) \<le> d" "d \<le> unat n" "?at k = blocks_later B d m s"
      "unat (mt_pending (triggers m)) + d = unat n" "mode_tx m = mode_tx (rpc_mining s)"
      using sleeps_make_blocks [OF assms(1), of k ?t] by (auto simp: out mode later after_sleeps_def)
    have "unat ?start + d < 2 ^ 64" using assms(5) d(2) by linarith
    then have "unat (?start + of_nat d) = unat ?start + d"
      by (simp add: unat_word_ariths unsigned_of_nat take_bit_nat_eq_self mod_add_right_eq)
    then have "?start + n \<le> ?start + of_nat d \<longleftrightarrow> d = unat n"
      using d(2) by (auto simp: word_le_nat_alt target(2))
    then have "poll_ends ?L (?start + n) (?at k) \<longleftrightarrow> d = unat n"
      by (simp add: poll_ends_def best d(3) blocks_later_world(1) [OF laws])
    with d show ?thesis by blast
  qed
  obtain k where k: "find (\<lambda>k. poll_ends ?L (?start + n) (?at k)) [0..<200] = Some k"
    "poll_ends ?L (?start + n) (?at k)"
  proof (cases "find (\<lambda>k. poll_ends ?L (?start + n) (?at k)) [0..<200]")
    case None
    moreover have "poll_ends ?L (?start + n) (?at (unat n))"
      using ends [of "unat n"] by auto
    ultimately show ?thesis using assms(4) by (auto simp: find_None_iff)
  next
    case (Some k)
    then show ?thesis using that by (auto dest: find_upt_SomeD)
  qed
  obtain d m where m: "?at k = blocks_later B d m s" "unat (mt_pending (triggers m)) + d = unat n"
    "mode_tx m = mode_tx (rpc_mining s)" "d = unat n"
    using ends [of k] k(2) by blast
  then have "mt_pending (triggers m) = 0" by (simp add: unat_eq_zero)
  moreover have "mine_blocks ?L (tn_during E) n s =
      (Inr (map (\<lambda>i. ?start + 1 + of_nat i) [0..<unat n]), blocks_later B (unat n) m s)"
    using k(1) m mined_range [OF n assms(5)]
    by (simp add: mine_blocks_unfold [OF n best] wait_for_block_number_def wait_rounds_find target
        poll_answer_def best)
  ultimately show ?thesis using m(3) by blast
qed

section \<open>The requests\<close>

definition head_header ::
  "('x, 'e, 'hdr, 'env, 'ctx, 'pl) block_lib \<Rightarrow> ('w, 'n, 'bc, 'x) anvil_rpc \<Rightarrow> block_header option" where
  "head_header B s = bl_header B (rpc_world s) (bl_best B (rpc_world s))"

lemma block_number_run [simp]: "chain_reads E B \<Longrightarrow> block_number E s = (Inr (bl_best B (rpc_world s)), s)"
proof -
  assume "chain_reads E B"
  moreover have "to_u64 (ucast n :: u256) = Some n" for n :: u64
  proof -
    have fits: "unat (ucast n :: u256) = unat n" "unat n < 2 ^ 64"
      using unat_bound [of n] by (simp_all add: unsigned_ucast_eq take_bit_nat_eq_self)
    then have "unat (ucast (ucast n :: u256) :: u64) = unat n"
      by (simp add: unsigned_ucast_eq [of "ucast n :: u256"] take_bit_nat_eq_self)
    then show ?thesis using fits by (simp add: to_u64_def word_unat_eq_iff)
  qed
  ultimately show ?thesis
    by (simp add: block_number_def and_then_def answered_def chain_reads_def to_u64_or_panic_def)
qed

lemma wait_for_block_run [simp]:
  "chain_reads E B \<Longrightarrow> target \<le> bl_best B (rpc_world s) \<Longrightarrow> wait_for_block E target s = (Inr (), s)"
  by (simp add: wait_for_block_def numeral_eq_Suc and_then_def)

lemma get_block_run:
  assumes "chain_reads E B"
  shows "bl_header B (rpc_world s) n = Some h \<Longrightarrow>
      \<exists>blk. eth_get_block_by_number E (Number n) s = (Inr (Some blk), s) \<and> rb_header blk = h"
    and "head_header B s = Some h \<Longrightarrow>
      \<exists>blk. eth_get_block_by_number E Latest s = (Inr (Some blk), s) \<and> rb_header blk = h"
proof -
  have number: "\<exists>r. eth_block_by_number (l_eth (tn_lib E)) s (Number n) False = Inr r \<and>
      map_option rb_header r = bl_header B (rpc_world s) n" for n
    using assms unfolding chain_reads_def by blast
  have latest: "eth_block_by_number (l_eth (tn_lib E)) s Latest False =
      eth_block_by_number (l_eth (tn_lib E)) s (Number (bl_best B (rpc_world s))) False"
    using assms unfolding chain_reads_def by blast
  show "bl_header B (rpc_world s) n = Some h \<Longrightarrow>
      \<exists>blk. eth_get_block_by_number E (Number n) s = (Inr (Some blk), s) \<and> rb_header blk = h"
    using number [of n] by (auto simp: eth_get_block_by_number_def answered_def)
  show "head_header B s = Some h \<Longrightarrow>
      \<exists>blk. eth_get_block_by_number E Latest s = (Inr (Some blk), s) \<and> rb_header blk = h"
    using number [of "bl_best B (rpc_world s)"]
    by (auto simp: eth_get_block_by_number_def answered_def head_header_def latest)
qed

lemma block_timestamp_run:
  assumes "chain_reads E B"
  shows "bl_header B (rpc_world s) n = Some h \<Longrightarrow> block_timestamp E (Number n) s = (Inr (bh_timestamp h), s)"
    and "head_header B s = Some h \<Longrightarrow> block_timestamp E Latest s = (Inr (bh_timestamp h), s)"
  using get_block_run [OF assms, of s] by (fastforce simp: block_timestamp_def and_then_def)+

text \<open>Any number of blocks made by a request, with no trigger left over.\<close>

definition mined ::
  "('x, 'e, 'hdr, 'env, 'ctx, 'pl) block_lib \<Rightarrow> nat \<Rightarrow> ('w, 'n, 'bc, 'x) anvil_rpc
     \<Rightarrow> ('w, 'n, 'bc, 'x) anvil_rpc \<Rightarrow> bool" where
  "mined B n s s1 \<longleftrightarrow>
     (\<exists>m. s1 = blocks_later B n m s \<and> mt_pending (triggers m) = 0 \<and> mode_tx m = mode_tx (rpc_mining s))"

lemma mined_frame:
  assumes "block_lib_laws B" and "mined B n s s1"
  shows "outstanding s1 = 0" "mode_tx (rpc_mining s1) = mode_tx (rpc_mining s)"
    "bl_best B (rpc_world s1) = bl_best B (rpc_world s) + of_nat n"
    "anvil_state_of s1 = anvil_state_of s" "cx_node (rpc_context s1) = cx_node (rpc_context s)"
  using assms(2) by (auto simp: mined_def blocks_later_world [OF assms(1)])

lemma mined_Suc:
  assumes "mined B (Suc n) s s2"
  shows "\<exists>s1. mined B n s s1 \<and> mined B 1 s1 s2"
proof -
  obtain m where m: "s2 = blocks_later B (Suc n) m s" "mt_pending (triggers m) = 0"
    "mode_tx m = mode_tx (rpc_mining s)"
    using assms by (auto simp: mined_def)
  let ?s1 = "blocks_later B n m s"
  have "blocks_later B 1 m ?s1 = (produce_block B ?s1)\<lparr>rpc_mining := m\<rparr>"
    by (simp add: blocks_later_def)
  then have "s2 = blocks_later B 1 m ?s1"
    using m(1) by (simp add: produce_block_blocks_later)
  then show ?thesis
    using m by (intro exI [of _ ?s1]) (auto simp: mined_def)
qed

lemma mined_one:
  assumes "block_lib_laws B" and "mined B 1 s s1"
  shows "rpc_time s1 = snd (next_timestamp (bl_clock B (rpc_world s)) (rpc_time s))"
    "block_env_of s1 = (block_env_of s)\<lparr>ov_next_base_fee := None\<rparr>"
    "head_header B s1 = next_header B s" "rpc_world s1 = rpc_world (produce_block B s)"
    "n \<noteq> bl_best B (rpc_world s) + 1 \<Longrightarrow> bl_header B (rpc_world s1) n = bl_header B (rpc_world s) n"
proof -
  obtain m where "s1 = (produce_block B s)\<lparr>rpc_mining := m\<rparr>"
    using assms(2) by (auto simp: mined_def blocks_later_def)
  then show "rpc_time s1 = snd (next_timestamp (bl_clock B (rpc_world s)) (rpc_time s))"
    "block_env_of s1 = (block_env_of s)\<lparr>ov_next_base_fee := None\<rparr>"
    "head_header B s1 = next_header B s" "rpc_world s1 = rpc_world (produce_block B s)"
    "n \<noteq> bl_best B (rpc_world s) + 1 \<Longrightarrow> bl_header B (rpc_world s1) n = bl_header B (rpc_world s) n"
    by (simp_all add: produce_block_state [OF assms(1)] head_header_def next_header_def)
qed

lemma mine_request:
  assumes "chain_laws E B" and "outstanding s = 0" and "0 < unat n" and "unat n < 200"
    and "unat (bl_best B (rpc_world s)) + unat n < 2 ^ 64"
    and "name \<in> {''anvil_mine'', ''hardhat_mine''}"
    and "blocks = Some n \<or> blocks = None \<and> n = 1"
  obtains s1 where "request_unit E name (RpcMine blocks None) s = (Inr (), s1)" and "mined B (unat n) s s1"
proof -
  have small: "unat n < 2 ^ 64" using assms(4) by simp
  then have fits: "to_u64 n = Some (ucast n)" and same: "unat (ucast n :: u64) = unat n"
    by (simp_all add: to_u64_fits unsigned_ucast_eq take_bit_nat_eq_self)
  obtain m ns where m: "mt_pending (triggers m) = 0" "mode_tx m = mode_tx (rpc_mining s)"
    and run: "mine_blocks (tn_lib E) (tn_during E) (ucast n) s = (Inr ns, blocks_later B (unat n) m s)"
    using mine_blocks_run [OF assms(1,2), of "ucast n"] assms(3-5) by (auto simp: same)
  have arg: "to_u64 (case blocks of Some n \<Rightarrow> n | None \<Rightarrow> 1) = Some (ucast n)"
    using assms(7) fits by auto
  have "anvil_mine (tn_lib E) (tn_during E) blocks None s = (Ok (), blocks_later B (unat n) m s)"
    unfolding anvil_mine_def arg by (simp add: run)
  then have "request_unit E name (RpcMine blocks None) s = (Inr (), blocks_later B (unat n) m s)"
    using assms(6) by (intro request_runs(1)) (auto simp: registered_names_def answer_def)
  then show thesis using m by (intro that) (auto simp: mined_def)
qed

text \<open>No trigger is outstanding, and \<open>k\<close> more blocks can be numbered.\<close>

definition ready ::
  "('x, 'e, 'hdr, 'env, 'ctx, 'pl) block_lib \<Rightarrow> nat \<Rightarrow> ('w, 'n, 'bc, 'x) anvil_rpc \<Rightarrow> bool" where
  "ready B k s \<longleftrightarrow> outstanding s = 0 \<and> unat (bl_best B (rpc_world s)) + k < 2 ^ 64"

lemma ready_frame [simp]:
  "ready B k (upd_block_env f s) = ready B k s" "ready B k (upd_anvil_state g s) = ready B k s"
  "ready B k (s\<lparr>rpc_time := tm\<rparr>) = ready B k s" "ready B k (s\<lparr>rpc_state := i\<rparr>) = ready B k s"
  by (simp_all add: ready_def outstanding_def)

lemma ready_less: "ready B k s \<Longrightarrow> j \<le> k \<Longrightarrow> ready B j s"
  by (simp add: ready_def)

lemma ready_mined:
  assumes "block_lib_laws B" and "mined B n s s1" and "ready B (n + k) s"
  shows "ready B k s1"
proof -
  have "unat (bl_best B (rpc_world s) + of_nat n) = unat (bl_best B (rpc_world s)) + n"
    using assms(3) by (simp add: ready_def unat_word_ariths unsigned_of_nat take_bit_nat_eq_self mod_add_right_eq)
  then show ?thesis
    using assms(3) by (simp add: ready_def mined_frame [OF assms(1,2)])
qed

text \<open>
  The block one \<open>anvil_mine\<close> without arguments makes: the new head as the client gets it, and
  what it leaves behind.
\<close>

definition new_head where
  "new_head E B s s1 blk \<longleftrightarrow>
     mined B 1 s s1 \<and> eth_get_block_by_number E Latest s1 = (Inr (Some blk), s1) \<and>
     head_header B s1 = Some (rb_header blk) \<and>
     rpc_time s1 = snd (next_timestamp (bl_clock B (rpc_world s)) (rpc_time s)) \<and>
     block_env_of s1 = (block_env_of s)\<lparr>ov_next_base_fee := None\<rparr> \<and>
     bh_number (rb_header blk) = bl_best B (rpc_world s) + 1 \<and>
     bh_timestamp (rb_header blk) = fst (next_timestamp (bl_clock B (rpc_world s)) (rpc_time s)) \<and>
     (\<forall>a. coinbase (block_env_of s) = Some a \<longrightarrow> bh_beneficiary (rb_header blk) = a) \<and>
     (\<forall>g. gas_limit (block_env_of s) = Some g \<longrightarrow> bh_gas_limit (rb_header blk) = g) \<and>
     (\<exists>env attrs. ev_next_evm_env (bl_evm B) (bl_parent B (rpc_world s)) attrs = Inr env \<and>
        bh_base_fee_per_gas (rb_header blk) = Some (case ov_next_base_fee (block_env_of s) of
          Some fee \<Rightarrow> fee | None \<Rightarrow> bl_env_base_fee B env))"

lemma mine_shows:
  assumes "chain_laws E B" and "ready B (Suc k) s"
  shows "\<exists>s1 blk. request_unit E ''anvil_mine'' (RpcMine None None) s = (Inr (), s1) \<and>
    ready B k s1 \<and> new_head E B s s1 blk"
proof -
  have laws: "block_lib_laws B" using assms(1) by (simp add: chain_laws_def chain_reads_def)
  obtain s1 where s1: "request_unit E ''anvil_mine'' (RpcMine None None) s = (Inr (), s1)"
    and "mined B (unat (1 :: u256)) s s1"
    by (rule mine_request [OF assms(1), of s 1 "''anvil_mine''" None])
      (use assms(2) in \<open>simp_all add: ready_def\<close>)
  then have one: "mined B 1 s s1" by simp
  have ready: "ready B k s1" using ready_mined [OF laws one] assms(2) by simp
  obtain blk where "new_head E B s s1 blk"
  proof (rule next_header_shows [OF laws, of s], goal_cases)
    case (1 h env)
    have head: "head_header B s1 = Some h" using 1(2) by (simp add: mined_one(3) [OF laws one])
    then obtain blk where blk: "eth_get_block_by_number E Latest s1 = (Inr (Some blk), s1)" "rb_header blk = h"
      using get_block_run(2) [OF chain_laws_reads [OF assms(1)]] by blast
    have "new_head E B s s1 blk"
      using 1(3-8) one blk head mined_one(1,2) [OF laws one] by (auto simp: new_head_def)
    then show thesis by (rule 1(1))
  qed
  with s1 ready show ?thesis by blast
qed

lemma new_headD:
  assumes "new_head E B s s1 blk"
  shows "mined B 1 s s1" "eth_get_block_by_number E Latest s1 = (Inr (Some blk), s1)"
    "head_header B s1 = Some (rb_header blk)"
    "rpc_time s1 = snd (next_timestamp (bl_clock B (rpc_world s)) (rpc_time s))"
    "block_env_of s1 = (block_env_of s)\<lparr>ov_next_base_fee := None\<rparr>"
    "bh_timestamp (rb_header blk) = fst (next_timestamp (bl_clock B (rpc_world s)) (rpc_time s))"
    "coinbase (block_env_of s) = Some a \<Longrightarrow> bh_beneficiary (rb_header blk) = a"
    "gas_limit (block_env_of s) = Some g \<Longrightarrow> bh_gas_limit (rb_header blk) = g"
    "ov_next_base_fee (block_env_of s) = Some fee \<Longrightarrow> bh_base_fee_per_gas (rb_header blk) = Some fee"
    "ov_next_base_fee (block_env_of s) = None \<Longrightarrow>
       \<exists>env attrs. ev_next_evm_env (bl_evm B) (bl_parent B (rpc_world s)) attrs = Inr env \<and>
         bh_base_fee_per_gas (rb_header blk) = Some (bl_env_base_fee B env)"
  using assms by (auto simp: new_head_def)

end
