(* ===== verification/Test_Mining.thy ===== *)
theory Test_Mining
  imports Test_Miner
begin

text \<open>
  The integration tests of block production (src/src/main.rs): \<open>anvil_mine\<close>, the time controls,
  the gas limit, the coinbase, the base fee and the node information, on a node whose local
  miner turns outstanding triggers into blocks.
\<close>

section \<open>The tests\<close>

definition anvil_mine_advances_requested_blocks where
  "anvil_mine_advances_requested_blocks E =
     and_then (block_number E) (\<lambda>initial_block.
     and_then (request_unit E ''anvil_mine'' (RpcMine None None)) (\<lambda>_.
     and_then (plus_or_panic initial_block 1) (\<lambda>target.
     and_then (wait_for_block E target) (\<lambda>_.
     and_then (request_unit E ''hardhat_mine'' (RpcMine (Some 2) None)) (\<lambda>_.
     and_then (plus_or_panic initial_block 3) (\<lambda>target.
     and_then (wait_for_block E target) (\<lambda>_.
     and_then (block_timestamp E Latest) (\<lambda>pre_interval_timestamp.
     and_then (request_unit E ''anvil_mine'' (RpcMine (Some 2) (Some 10))) (\<lambda>_.
     and_then (plus_or_panic initial_block 5) (\<lambda>target.
     and_then (wait_for_block E target) (\<lambda>_.
     and_then (plus_or_panic initial_block 4) (\<lambda>first.
     and_then (block_timestamp E (Number first)) (\<lambda>first_interval_ts.
     and_then (plus_or_panic initial_block 5) (\<lambda>second.
     and_then (block_timestamp E (Number second)) (\<lambda>second_interval_ts.
     and_then (plus_or_panic pre_interval_timestamp 10) (\<lambda>expected.
     and_then (ensure (first_interval_ts = expected) ''first interval timestamp'') (\<lambda>_.
     and_then (plus_or_panic first_interval_ts 10) (\<lambda>expected.
     ensure (second_interval_ts = expected) ''second interval timestamp''))))))))))))))))))"

definition anvil_set_and_remove_block_timestamp_interval where
  "anvil_set_and_remove_block_timestamp_interval E =
     (let remove = request_bool E ''anvil_removeBlockTimestampInterval'' RpcRemoveBlockTimestampInterval;
          set_interval = (\<lambda>i. request_unit E ''anvil_setBlockTimestampInterval'' (RpcSetBlockTimestampInterval i))
      in and_then remove (\<lambda>removed.
         and_then (ensure (\<not> removed) ''should return false when no interval is set'') (\<lambda>_.
         and_then (set_interval 10) (\<lambda>_.
         and_then remove (\<lambda>removed.
         and_then (ensure removed ''should return true when an interval was removed'') (\<lambda>_.
         and_then remove (\<lambda>removed.
         and_then (ensure (\<not> removed) ''should return false after interval was already removed'') (\<lambda>_.
         and_then (set_interval 10) (\<lambda>_.
         and_then (set_interval 20) (\<lambda>_.
         and_then remove (\<lambda>removed.
         and_then (ensure removed ''should return true after overwritten interval'') (\<lambda>_.
         and_then remove (\<lambda>removed.
         ensure (\<not> removed) ''should return false - second set overwrote, not stacked'')))))))))))))"

definition anvil_time_controls_are_visible_in_mined_blocks where
  "anvil_time_controls_are_visible_in_mined_blocks E =
     and_then (block_timestamp E Latest) (\<lambda>latest_timestamp.
     and_then (request_i64 E ''anvil_increaseTime'' (RpcIncreaseTime 30)) (\<lambda>_.
     and_then (request_unit E ''anvil_mine'' (RpcMine None None)) (\<lambda>_.
     and_then (block_timestamp E Latest) (\<lambda>after_increase.
     and_then (plus_or_panic latest_timestamp 30) (\<lambda>least.
     and_then (ensure (least \<le> after_increase)
       ''increaseTime should move the next mined block forward by at least the requested amount'') (\<lambda>_.
     and_then (plus_or_panic after_increase 25) (\<lambda>exact_timestamp.
     and_then (request_unit E ''anvil_setNextBlockTimestamp'' (RpcSetNextBlockTimestamp exact_timestamp)) (\<lambda>_.
     and_then (request_unit E ''anvil_mine'' (RpcMine None None)) (\<lambda>_.
     and_then (block_timestamp E Latest) (\<lambda>after_exact.
     and_then (ensure (after_exact = exact_timestamp) ''after_exact'') (\<lambda>_.
     and_then (plus_or_panic exact_timestamp 40) (\<lambda>reset_timestamp.
     and_then (request_u64 E ''anvil_setTime'' (RpcSetTime reset_timestamp)) (\<lambda>offset.
     and_then (ensure (offset \<le> 40) ''setTime offset should not exceed requested jump'') (\<lambda>_.
     and_then (request_unit E ''anvil_mine'' (RpcMine None None)) (\<lambda>_.
     and_then (block_timestamp E Latest) (\<lambda>after_reset.
     ensure (reset_timestamp \<le> after_reset)
       ''setTime should move the time baseline forward without pinning an exact next-block timestamp''))))))))))))))))"

definition anvil_node_info_and_metadata_follow_latest_head where
  "anvil_node_info_and_metadata_follow_latest_head E =
     and_then (block_number E) (\<lambda>expected_block_number.
     and_then (eth_gas_price_request E) (\<lambda>price.
     and_then (to_u128_or_panic price) (\<lambda>expected_gas_price.
     and_then (eth_get_block_by_number E Latest) (\<lambda>latest_block.
     and_then (ok_or latest_block ''missing latest hash'') (\<lambda>latest_block.
     let expected_hash = bh_hash (rb_header latest_block);
         expected_timestamp = bh_timestamp (rb_header latest_block)
     in
     and_then (request_info E ''anvil_nodeInfo'' RpcNodeInfo) (\<lambda>node_info.
     and_then (request_metadata E ''anvil_metadata'' RpcMetadata) (\<lambda>metadata.
     and_then (request_metadata E ''hardhat_metadata'' RpcMetadata) (\<lambda>hardhat_metadata.
     and_then (ensure (ni_current_block_number node_info = expected_block_number) ''current_block_number'') (\<lambda>_.
     and_then (ensure (ni_current_block_timestamp node_info = expected_timestamp) ''current_block_timestamp'') (\<lambda>_.
     and_then (ensure (ni_current_block_hash node_info = expected_hash) ''current_block_hash'') (\<lambda>_.
     and_then (ensure (ni_transaction_order node_info = ''fees'') ''transaction_order'') (\<lambda>_.
     and_then (ensure (ne_chain_id (ni_environment node_info) = md_chain_id metadata) ''chain_id'') (\<lambda>_.
     and_then (ensure (ne_gas_price (ni_environment node_info) = expected_gas_price) ''gas_price'') (\<lambda>_.
     and_then (ensure (md_latest_block_number metadata = expected_block_number) ''latest_block_number'') (\<lambda>_.
     and_then (ensure (md_latest_block_hash metadata = expected_hash) ''latest_block_hash'') (\<lambda>_.
     and_then (ensure (md_client_version metadata = ''anvil-reth/v'' @ pkg_version) ''client_version'') (\<lambda>_.
     and_then (ensure (md_client_semver metadata = Some pkg_version) ''client_semver'') (\<lambda>_.
     and_then (ensure (md_snapshots metadata = []) ''snapshots'') (\<lambda>_.
     and_then (ensure (hardhat_metadata = metadata) ''hardhat_metadata'') (\<lambda>_.
     and_then (request_unit E ''anvil_mine'' (RpcMine None None)) (\<lambda>_.
     and_then (block_number E) (\<lambda>mined_number.
     and_then (request_info E ''anvil_nodeInfo'' RpcNodeInfo) (\<lambda>mined_info.
     and_then (request_metadata E ''anvil_metadata'' RpcMetadata) (\<lambda>mined_metadata.
     and_then (ensure (ni_current_block_number mined_info = mined_number) ''mined info number'') (\<lambda>_.
     and_then (ensure (md_latest_block_number mined_metadata = mined_number) ''mined metadata number'') (\<lambda>_.
     ensure (ni_current_block_hash mined_info = md_latest_block_hash mined_metadata) ''mined hash''))))))))))))))))))))))))))"

text \<open>The loop body of the gas-limit test, for one method name and limit, and the test.\<close>

definition set_block_gas_limit_round where
  "set_block_gas_limit_round E name custom_limit =
     and_then (request_bool E name (RpcSetBlockGasLimit custom_limit)) (\<lambda>accepted.
     and_then (ensure accepted (name @ '' should return true'')) (\<lambda>_.
     and_then (request_unit E ''anvil_mine'' (RpcMine None None)) (\<lambda>_.
     and_then (get_block E Latest) (\<lambda>block1.
     and_then (ok_or block1 ''missing gasLimit'') (\<lambda>block1.
     and_then (ensure (ucast (bh_gas_limit (rb_header block1)) = custom_limit)
       (name @ '' should affect the first mined block'')) (\<lambda>_.
     and_then (request_unit E ''anvil_mine'' (RpcMine None None)) (\<lambda>_.
     and_then (get_block E Latest) (\<lambda>block2.
     and_then (ok_or block2 ''missing gasLimit'') (\<lambda>block2.
     ensure (ucast (bh_gas_limit (rb_header block2)) = custom_limit)
       (name @ '' gas limit should persist across blocks''))))))))))"

definition set_block_gas_limit_accepts_anvil_and_evm_namespaces where
  "set_block_gas_limit_accepts_anvil_and_evm_namespaces E =
     and_then (set_block_gas_limit_round E ''evm_setBlockGasLimit'' 20000000) (\<lambda>_.
     set_block_gas_limit_round E ''anvil_setBlockGasLimit'' 21000000)"

definition anvil_set_coinbase_persists_across_blocks where
  "anvil_set_coinbase_persists_across_blocks E =
     (let coinbase = repeat_byte 0xCB
      in and_then (request_unit E ''anvil_setCoinbase'' (RpcSetCoinbase coinbase)) (\<lambda>_.
         and_then (request_unit E ''anvil_mine'' (RpcMine None None)) (\<lambda>_.
         and_then (get_block E Latest) (\<lambda>block1.
         and_then (ok_or block1 ''missing miner'') (\<lambda>block1.
         and_then (ensure (bh_beneficiary (rb_header block1) = coinbase)
           ''first mined block should use the overridden coinbase'') (\<lambda>_.
         and_then (request_unit E ''anvil_mine'' (RpcMine None None)) (\<lambda>_.
         and_then (get_block E Latest) (\<lambda>block2.
         and_then (ok_or block2 ''missing miner'') (\<lambda>block2.
         ensure (bh_beneficiary (rb_header block2) = coinbase)
           ''coinbase should persist across blocks'')))))))))"

definition anvil_set_next_block_base_fee_per_gas_is_consumed_once where
  "anvil_set_next_block_base_fee_per_gas_is_consumed_once E =
     (let custom_base_fee = 42000000000
      in and_then (request_unit E ''anvil_setNextBlockBaseFeePerGas''
           (RpcSetNextBlockBaseFeePerGas custom_base_fee)) (\<lambda>_.
         and_then (request_unit E ''anvil_mine'' (RpcMine None None)) (\<lambda>_.
         and_then (get_block E Latest) (\<lambda>target_block.
         and_then (ok_or target_block ''missing baseFeePerGas'') (\<lambda>target_block.
         and_then (ok_or (bh_base_fee_per_gas (rb_header target_block)) ''missing baseFeePerGas'') (\<lambda>base_fee.
         and_then (ensure (ucast base_fee = custom_base_fee)
           ''next mined block should use the overridden base fee'') (\<lambda>_.
         and_then (request_unit E ''anvil_mine'' (RpcMine None None)) (\<lambda>_.
         and_then (get_block E Latest) (\<lambda>after_block.
         and_then (ok_or after_block ''missing baseFeePerGas'') (\<lambda>after_block.
         and_then (ok_or (bh_base_fee_per_gas (rb_header after_block)) ''missing baseFeePerGas'') (\<lambda>after_base_fee.
         ensure (ucast after_base_fee \<noteq> custom_base_fee)
           ''base fee override should be consumed after one block'')))))))))))"

section \<open>The node passes the tests\<close>

lemma interval_requests:
  "request_bool E ''anvil_removeBlockTimestampInterval'' RpcRemoveBlockTimestampInterval s =
     (Inr (tm_interval (rpc_time s) \<noteq> None), s\<lparr>rpc_time := (rpc_time s)\<lparr>tm_interval := None\<rparr>\<rparr>)"
  "request_unit E ''anvil_setBlockTimestampInterval'' (RpcSetBlockTimestampInterval i) s =
     (Inr (), s\<lparr>rpc_time := (rpc_time s)\<lparr>tm_interval := Some i\<rparr>\<rparr>)"
  by (simp_all add: request_runs registered_names_def answer_def anvil_remove_block_timestamp_interval_def
      remove_block_timestamp_interval_def anvil_set_block_timestamp_interval_def
      set_block_timestamp_interval_def)

lemma interval_test_passes:
  "tm_interval (rpc_time s) = None \<Longrightarrow> passes (anvil_set_and_remove_block_timestamp_interval E) s"
  by (simp add: anvil_set_and_remove_block_timestamp_interval_def Let_def interval_requests)

lemma coinbase_test_passes:
  assumes "chain_laws E B" and "ready B 2 s"
  shows "passes (anvil_set_coinbase_persists_across_blocks E) s"
proof -
  let ?c = "repeat_byte 0xCB"
  let ?s = "upd_block_env (set_coinbase ?c) s"
  have set: "request_unit E ''anvil_setCoinbase'' (RpcSetCoinbase ?c) s = (Inr (), ?s)"
    by (simp add: request_runs registered_names_def answer_def anvil_set_coinbase_def)
  have "ready B (Suc (Suc 0)) ?s" using assms(2) by (simp add: numeral_2_eq_2)
  then obtain s1 blk1 where s1: "request_unit E ''anvil_mine'' (RpcMine None None) ?s = (Inr (), s1)"
    "ready B (Suc 0) s1" and n1: "new_head E B ?s s1 blk1"
    using mine_shows [OF assms(1)] by blast
  obtain s2 blk2 where s2: "request_unit E ''anvil_mine'' (RpcMine None None) s1 = (Inr (), s2)"
    and n2: "new_head E B s1 s2 blk2"
    using mine_shows [OF assms(1) s1(2)] by blast
  have "bh_beneficiary (rb_header blk1) = ?c"
    by (rule new_headD(7) [OF n1]) (simp add: coinbase_def set_coinbase_def)
  moreover have "bh_beneficiary (rb_header blk2) = ?c"
    by (rule new_headD(7) [OF n2]) (simp add: new_headD(5) [OF n1] coinbase_def set_coinbase_def)
  ultimately show ?thesis
    by (simp add: anvil_set_coinbase_persists_across_blocks_def Let_def get_block_def set s1 s2
        new_headD(2) [OF n1] new_headD(2) [OF n2])
qed

lemma gas_limit_round_passes:
  assumes "chain_laws E B" and "ready B (Suc (Suc k)) s" and "unat g < 2 ^ 64"
    and "name \<in> {''evm_setBlockGasLimit'', ''anvil_setBlockGasLimit''}"
  shows "\<exists>s'. set_block_gas_limit_round E name g s = (Inr (), s') \<and> ready B k s'"
proof -
  let ?s = "upd_block_env (set_gas_limit (ucast g)) s"
  have set: "request_bool E name (RpcSetBlockGasLimit g) s = (Inr True, ?s)"
    using assms(3,4)
    by (intro request_runs(2)) (auto simp: registered_names_def answer_def anvil_set_block_gas_limit_def
        rpc_set_block_gas_limit_def u64_max_less to_u64_fits)
  have fits: "ucast (ucast g :: u64) = g"
    using assms(3) by (simp add: word_unat_eq_iff unsigned_take_bit_eq unsigned_ucast_eq take_bit_nat_eq_self)
  have "ready B (Suc (Suc k)) ?s" using assms(2) by simp
  then obtain s1 blk1 where s1: "request_unit E ''anvil_mine'' (RpcMine None None) ?s = (Inr (), s1)"
    "ready B (Suc k) s1" and n1: "new_head E B ?s s1 blk1"
    using mine_shows [OF assms(1)] by blast
  obtain s2 blk2 where s2: "request_unit E ''anvil_mine'' (RpcMine None None) s1 = (Inr (), s2)"
    "ready B k s2" and n2: "new_head E B s1 s2 blk2"
    using mine_shows [OF assms(1) s1(2)] by blast
  have "bh_gas_limit (rb_header blk1) = ucast g"
    by (rule new_headD(8) [OF n1]) (simp add: gas_limit_def set_gas_limit_def)
  moreover have "bh_gas_limit (rb_header blk2) = ucast g"
    by (rule new_headD(8) [OF n2]) (simp add: new_headD(5) [OF n1] gas_limit_def set_gas_limit_def)
  ultimately show ?thesis
    using s2(2) by (simp add: set_block_gas_limit_round_def get_block_def and_then_def set s1 s2(1) fits
        new_headD(2) [OF n1] new_headD(2) [OF n2])
qed

lemma gas_limit_test_passes:
  assumes "chain_laws E B" and "ready B 4 s"
  shows "passes (set_block_gas_limit_accepts_anvil_and_evm_namespaces E) s"
proof -
  have four: "ready B (Suc (Suc 2)) s" using assms(2) by (simp add: eval_nat_numeral)
  obtain s1 where s1: "set_block_gas_limit_round E ''evm_setBlockGasLimit'' 20000000 s = (Inr (), s1)" "ready B 2 s1"
    using gas_limit_round_passes [OF assms(1) four, of 20000000 "''evm_setBlockGasLimit''"] by auto
  have two: "ready B (Suc (Suc 0)) s1" using s1(2) by (simp add: numeral_2_eq_2)
  obtain s2 where s2: "set_block_gas_limit_round E ''anvil_setBlockGasLimit'' 21000000 s1 = (Inr (), s2)"
    using gas_limit_round_passes [OF assms(1) two, of 21000000 "''anvil_setBlockGasLimit''"] by auto
  have "passes (set_block_gas_limit_round E ''anvil_setBlockGasLimit'' 21000000) s1"
    by (simp add: passes_def s2)
  then show ?thesis
    by (simp add: set_block_gas_limit_accepts_anvil_and_evm_namespaces_def s1)
qed

text \<open>
  The base fee the EVM configuration computes (EIP-1559): after a block without transactions
  it falls, unless it is too small to fall or the gas limit leaves no target.
\<close>

definition fee_market ::
  "('w, 'rx, 'n, 'f, 'bc, 'x, 'b, 'v) test_node \<Rightarrow> ('x, 'e, 'hdr, 'env, 'ctx, 'pl) block_lib \<Rightarrow> bool" where
  "fee_market E B \<longleftrightarrow>
     (\<forall>attrs x. 2 \<le> nb_gas_limit (bl_next_attributes B attrs x)) \<and>
     (\<forall>x attrs env a env'.
        fst (l_pending_and_queued_txn_count (tn_lib E) x) = 0 \<longrightarrow> 2 \<le> bl_env_gas_limit B env \<longrightarrow>
        8 \<le> bl_env_base_fee B env \<longrightarrow>
        ev_next_evm_env (bl_evm B) (bl_parent B (bl_append B attrs env x)) a = Inr env' \<longrightarrow>
        bl_env_base_fee B env' < bl_env_base_fee B env)"

lemma base_fee_test_passes:
  assumes "chain_laws E B" and "ready B 2 s" and market: "fee_market E B"
    and none: "gas_limit (block_env_of s) = None"
    and empty: "fst (l_pending_and_queued_txn_count (tn_lib E) (rpc_world s)) = 0"
  shows "passes (anvil_set_next_block_base_fee_per_gas_is_consumed_once E) s"
proof -
  have laws: "block_lib_laws B" using assms(1) by (simp add: chain_laws_def chain_reads_def)
  let ?fee = "42000000000 :: u64"
  let ?s = "upd_block_env (set_next_base_fee ?fee) s"
  have set: "request_unit E ''anvil_setNextBlockBaseFeePerGas'' (RpcSetNextBlockBaseFeePerGas 42000000000) s =
      (Inr (), ?s)"
    by (simp add: request_runs registered_names_def answer_def anvil_set_next_block_base_fee_per_gas_def
        u64_max_less to_u64_fits)
  have "ready B (Suc (Suc 0)) ?s" using assms(2) by (simp add: numeral_2_eq_2)
  then obtain s1 blk1 where s1: "request_unit E ''anvil_mine'' (RpcMine None None) ?s = (Inr (), s1)"
    "ready B (Suc 0) s1" and n1: "new_head E B ?s s1 blk1"
    using mine_shows [OF assms(1)] by blast
  obtain s2 blk2 where s2: "request_unit E ''anvil_mine'' (RpcMine None None) s1 = (Inr (), s2)"
    and n2: "new_head E B s1 s2 blk2"
    using mine_shows [OF assms(1) s1(2)] by blast
  have fee1: "bh_base_fee_per_gas (rb_header blk1) = Some ?fee"
    by (rule new_headD(9) [OF n1]) (simp add: set_next_base_fee_def)
  have "ov_next_base_fee (block_env_of s1) = None" by (simp add: new_headD(5) [OF n1])
  then obtain env where fee2: "bh_base_fee_per_gas (rb_header blk2) = Some (bl_env_base_fee B env)"
    and env: "\<exists>attrs. ev_next_evm_env (bl_evm B) (bl_parent B (rpc_world s1)) attrs = Inr env"
    using new_headD(10) [OF n2] by blast
  obtain attrs env1 where world: "rpc_world s1 = bl_append B attrs env1 (rpc_world s)"
    and env1: "bl_env_base_fee B env1 = ?fee"
      "bl_env_gas_limit B env1 = nb_gas_limit (bl_next_attributes B attrs (rpc_world s))"
    using produce_block_appends [OF laws, of ?s] none
    by (auto simp: mined_one(4) [OF laws new_headD(1) [OF n1]] set_next_base_fee_def gas_limit_def)
  obtain a where "ev_next_evm_env (bl_evm B) (bl_parent B (bl_append B attrs env1 (rpc_world s))) a = Inr env"
    using env world by auto
  moreover have "2 \<le> bl_env_gas_limit B env1" "8 \<le> bl_env_base_fee B env1"
    using market by (simp_all add: env1 fee_market_def)
  ultimately have "bl_env_base_fee B env < ?fee"
    using market empty env1(1) unfolding fee_market_def by metis
  then have "unat (bl_env_base_fee B env) < 42000000000"
    by (simp add: word_less_nat_alt)
  then have "ucast (bl_env_base_fee B env) \<noteq> (42000000000 :: u256)"
    by (auto simp: word_unat_eq_iff unsigned_ucast_eq take_bit_nat_eq_self)
  then show ?thesis
    by (simp add: anvil_set_next_block_base_fee_per_gas_is_consumed_once_def Let_def get_block_def set s1 s2
        new_headD(2) [OF n1] new_headD(2) [OF n2] fee1 fee2)
qed

lemma time_requests:
  "request_i64 E ''anvil_increaseTime'' (RpcIncreaseTime 30) s =
     (Inr (as_i64 (min (i128_sat_add (tm_offset (rpc_time s)) 30) (2 ^ 63 - 1))),
      s\<lparr>rpc_time := (rpc_time s)\<lparr>tm_offset := i128_sat_add (tm_offset (rpc_time s)) 30\<rparr>\<rparr>)"
  "last_timestamp (rpc_time s) \<le> t \<Longrightarrow>
   request_unit E ''anvil_setNextBlockTimestamp'' (RpcSetNextBlockTimestamp t) s =
     (Inr (), s\<lparr>rpc_time := (rpc_time s)\<lparr>next_exact_timestamp := Some t\<rparr>\<rparr>)"
  "t \<le> 1000000000000 \<Longrightarrow>
   request_u64 E ''anvil_setTime'' (RpcSetTime t) s =
     (Inr (sat_sub t (current_call_timestamp (fst (tn_clock E s)) (rpc_time s))),
      s\<lparr>rpc_time := reset (snd (tn_clock E s)) t (rpc_time s)\<rparr>)"
  by (simp_all add: request_runs registered_names_def answer_def anvil_increase_time_def increase_time_def
      add_offset_def Let_def to_u64_fits anvil_set_next_block_timestamp_def set_next_block_timestamp_def
      anvil_set_time_def normalize_timestamp_input_def set_time_def leD)

lemma unat_word_of_int_u64:
  "0 \<le> v \<Longrightarrow> v < 18446744073709551616 \<Longrightarrow> unat (word_of_int v :: u64) = nat v"
  by (simp add: unat_eq_nat_uint uint_word_of_int mod_pos_pos_trivial)

text \<open>The clock of a new node moved forward by 30 seconds.\<close>

lemma increased_timestamp:
  assumes "unat g < 2 ^ 38" and "c0 \<le> clk" and "unat clk < 2 ^ 38"
    and "tm = (new_time_manager c0 g)\<lparr>tm_offset := uint g - uint c0 + 30\<rparr>"
  shows "unat g + 30 \<le> unat (fst (next_timestamp clk tm))"
    and "unat (fst (next_timestamp clk tm)) < 2 ^ 39 + 30"
proof -
  let ?v = "uint clk + (uint g - uint c0 + 30)"
  have int: "uint g = int (unat g)" "uint clk = int (unat clk)" "uint c0 = int (unat c0)"
    by (rule uint_nat)+
  have "unat g < 274877906944" "unat clk < 274877906944" "unat c0 \<le> unat clk"
    using assms(1-3) by (simp_all add: word_le_nat_alt)
  then have v: "uint g + 30 \<le> ?v" "?v < 549755813918" "0 \<le> ?v" "?v < 18446744073709551616"
    unfolding int by linarith+
  have tm: "next_exact_timestamp tm = None" "tm_interval tm = None" "last_timestamp tm = g"
    "tm_offset tm = uint g - uint c0 + 30"
    by (simp_all add: assms(4) new_time_manager_def reset_def)
  have "uint clk + tm_offset tm < 2 ^ 64"
    unfolding tm(4) using v(4) by (rule less_le_trans) simp
  moreover have "0 \<le> uint clk + tm_offset tm" unfolding tm(4) by (rule v(3))
  ultimately have "fst (next_timestamp clk tm) = max (word_of_int ?v) (sat_add g 1)"
    using next_timestamp_clock [OF tm(1,2), of clk] unfolding tm(3,4) by blast
  moreover have "unat (word_of_int ?v :: u64) = nat ?v"
    by (rule unat_word_of_int_u64 [OF v(3,4)])
  moreover have "unat (sat_add g 1) = unat g + 1"
    using assms(1) by (simp add: unat_sat_add)
  moreover have "unat g + 30 \<le> nat ?v" "nat ?v < 549755813918"
    using v(1,2) unfolding int by linarith+
  ultimately show "unat g + 30 \<le> unat (fst (next_timestamp clk tm))"
    "unat (fst (next_timestamp clk tm)) < 2 ^ 39 + 30"
    by (auto simp: max_def word_le_nat_alt)
qed

text \<open>A block mined on request, by its timestamp.\<close>

lemma mine_stamps:
  assumes "chain_laws E B" and "ready B (Suc k) s"
  shows "\<exists>s' t. request_unit E ''anvil_mine'' (RpcMine None None) s = (Inr (), s') \<and> ready B k s' \<and>
    block_timestamp E Latest s' = (Inr t, s') \<and>
    t = fst (next_timestamp (bl_clock B (rpc_world s)) (rpc_time s)) \<and>
    rpc_time s' = snd (next_timestamp (bl_clock B (rpc_world s)) (rpc_time s))"
proof -
  obtain s' blk where s': "request_unit E ''anvil_mine'' (RpcMine None None) s = (Inr (), s')" "ready B k s'"
    and n: "new_head E B s s' blk"
    using mine_shows [OF assms] by blast
  show ?thesis
    using s' new_headD(4,6) [OF n]
      block_timestamp_run(2) [OF chain_laws_reads [OF assms(1)] new_headD(3) [OF n]] by auto
qed

lemma time_test_passes:
  assumes "chain_laws E B" and "ready B 3 s" and "rpc_time s = new_time_manager c0 g"
    and head: "map_option bh_timestamp (head_header B s) = Some g"
    and "unat g < 2 ^ 38" and clock: "\<forall>x. c0 \<le> bl_clock B x \<and> unat (bl_clock B x) < 2 ^ 38"
  shows "passes (anvil_time_controls_are_visible_in_mined_blocks E) s"
proof -
  obtain h0 where "head_header B s = Some h0" "bh_timestamp h0 = g" using head by auto
  then have before: "block_timestamp E Latest s = (Inr g, s)"
    using block_timestamp_run(2) [OF chain_laws_reads [OF assms(1)]] by simp
  let ?off = "uint g - uint c0 + 30"
  let ?s = "s\<lparr>rpc_time := (rpc_time s)\<lparr>tm_offset := ?off\<rparr>\<rparr>"
  let ?clk = "bl_clock B (rpc_world ?s)"
  have "0 \<le> uint g" "uint g < 18446744073709551616" "0 \<le> uint c0" "uint c0 < 18446744073709551616"
    using uint_lt2p [of g] uint_lt2p [of c0] by simp_all
  then have "in_i128 ?off" unfolding in_i128_iff
    by (simp, insert uint_ge_0 [of g] uint_ge_0 [of c0], linarith)
  then have off: "i128_sat_add (tm_offset (rpc_time s)) 30 = ?off"
    by (simp add: assms(3) new_time_manager_def reset_def i128_sat_add_exact)
  have ready: "ready B (Suc (Suc (Suc 0))) ?s" using assms(2) by (simp add: numeral_3_eq_3)
  obtain s1 t1 where s1: "request_unit E ''anvil_mine'' (RpcMine None None) ?s = (Inr (), s1)"
    "ready B (Suc (Suc 0)) s1" "block_timestamp E Latest s1 = (Inr t1, s1)"
    and t1: "t1 = fst (next_timestamp ?clk (rpc_time ?s))" "rpc_time s1 = snd (next_timestamp ?clk (rpc_time ?s))"
    using mine_stamps [OF assms(1) ready] by blast
  have t1_bounds: "unat g + 30 \<le> unat t1" "unat t1 < 2 ^ 39 + 30"
    using increased_timestamp [OF assms(5), of c0 ?clk "rpc_time ?s"] clock
    by (simp_all add: t1(1) assms(3))
  have tm1: "last_timestamp (rpc_time s1) = t1" "tm_interval (rpc_time s1) = None"
    unfolding t1 by (simp_all add: next_timestamp_fields assms(3) new_time_manager_def reset_def)
  define t2 where "t2 = t1 + 25"
  have t2: "unat t2 = unat t1 + 25" using t1_bounds by (simp add: t2_def unat_word_ariths)
  let ?s2 = "s1\<lparr>rpc_time := (rpc_time s1)\<lparr>next_exact_timestamp := Some t2\<rparr>\<rparr>"
  have "ready B (Suc (Suc 0)) ?s2" using s1(2) by simp
  then obtain s2 t2' where s2: "request_unit E ''anvil_mine'' (RpcMine None None) ?s2 = (Inr (), s2)"
    "ready B (Suc 0) s2" "block_timestamp E Latest s2 = (Inr t2', s2)"
    and stamp2: "t2' = fst (next_timestamp (bl_clock B (rpc_world ?s2)) (rpc_time ?s2))"
      "rpc_time s2 = snd (next_timestamp (bl_clock B (rpc_world ?s2)) (rpc_time ?s2))"
    using mine_stamps [OF assms(1)] by blast
  have "t1 \<le> t2" using t2 by (simp add: word_le_nat_alt)
  then have exact: "fst (next_timestamp c (rpc_time ?s2)) = t2" for c
    by (simp add: next_timestamp_fields compute_next_timestamp_def Let_def tm1 leD)
  have "t2' = t2" unfolding stamp2(1) by (rule exact)
  then have shown2: "block_timestamp E Latest s2 = (Inr t2, s2)" using s2(3) by simp
  have tm2: "last_timestamp (rpc_time s2) = t2" "next_exact_timestamp (rpc_time s2) = None"
    using exact unfolding stamp2(2) by (simp_all add: next_timestamp_fields)
  define t3 where "t3 = t2 + 40"
  have t3: "unat t3 = unat t2 + 40" using t1_bounds by (simp add: t3_def unat_word_ariths t2)
  have "unat t3 \<le> 1000000000000" using t1_bounds t2 t3 by simp
  then have small: "t3 \<le> 1000000000000" by (simp add: word_le_nat_alt)
  let ?now = "current_call_timestamp (fst (tn_clock E s2)) (rpc_time s2)"
  have "t2 \<le> ?now"
    using compute_ge [of "rpc_time s2"] by (simp add: current_call_timestamp_def tm2)
  then have jump: "sat_sub t3 ?now \<le> 40"
    using t3 by (simp add: word_le_nat_alt unat_sat_sub)
  let ?s3 = "s2\<lparr>rpc_time := reset (snd (tn_clock E s2)) t3 (rpc_time s2)\<rparr>"
  have "ready B (Suc 0) ?s3" using s2(2) by simp
  then obtain s3 t3' where s3: "request_unit E ''anvil_mine'' (RpcMine None None) ?s3 = (Inr (), s3)"
    "block_timestamp E Latest s3 = (Inr t3', s3)"
    and t3': "t3' = fst (next_timestamp (bl_clock B (rpc_world ?s3)) (rpc_time ?s3))"
    using mine_stamps [OF assms(1)] by blast
  have late: "t3 \<le> t3'"
    using compute_ge [of "rpc_time ?s3"] unfolding t3' by (simp add: next_timestamp_fields reset_def)
  have sums: "plus_or_panic g 30 = give (g + 30)" "plus_or_panic t1 25 = give t2" "plus_or_panic t2 40 = give t3"
    and least: "g + 30 \<le> t1"
    using t1_bounds t2 assms(5) by (simp_all add: plus_or_panic_def t2_def [symmetric] t3_def [symmetric]
        word_le_nat_alt unat_word_ariths)
  show ?thesis
    by (simp add: anvil_time_controls_are_visible_in_mined_blocks_def before time_requests off s1(1,3)
        sums least tm1(1) \<open>t1 \<le> t2\<close> s2(1) shown2 small jump s3 late)
qed

text \<open>A new node's clock stays far from the end of \<open>u64\<close> for any realistic number of blocks.\<close>

definition young :: "u64 \<Rightarrow> u64 \<Rightarrow> nat \<Rightarrow> time_manager \<Rightarrow> bool" where
  "young c0 g k tm \<longleftrightarrow>
     next_exact_timestamp tm = None \<and> tm_interval tm = None \<and>
     tm_offset tm = uint g - uint c0 \<and> unat (last_timestamp tm) < 2 ^ 39 + k"

lemma young_next:
  assumes "young c0 g k tm" and "unat g < 2 ^ 38" and "c0 \<le> clk" and "unat clk < 2 ^ 38"
    and "k < 2 ^ 38"
  shows "young c0 g (Suc k) (snd (next_timestamp clk tm))"
proof -
  let ?v = "uint clk + (uint g - uint c0)"
  have int: "uint g = int (unat g)" "uint clk = int (unat clk)" "uint c0 = int (unat c0)"
    by (rule uint_nat)+
  have "unat g < 274877906944" "unat clk < 274877906944" "unat c0 \<le> unat clk"
    using assms(2-4) by (simp_all add: word_le_nat_alt)
  then have v: "?v < 549755813888" "0 \<le> ?v" "?v < 18446744073709551616"
    unfolding int by linarith+
  have tm: "next_exact_timestamp tm = None" "tm_interval tm = None" "tm_offset tm = uint g - uint c0"
    and last: "unat (last_timestamp tm) < 549755813888 + k"
    using assms(1) by (simp_all add: young_def)
  have "uint clk + tm_offset tm < 2 ^ 64"
    unfolding tm(3) using v(3) by (rule less_le_trans) simp
  moreover have "0 \<le> uint clk + tm_offset tm" unfolding tm(3) by (rule v(2))
  ultimately have nxt: "fst (next_timestamp clk tm) = max (word_of_int ?v) (sat_add (last_timestamp tm) 1)"
    using next_timestamp_clock [OF tm(1,2), of clk] unfolding tm(3) by blast
  have "unat (word_of_int ?v :: u64) < 549755813888"
    using v by (simp only: unat_word_of_int_u64 [OF v(2,3)])
  moreover have "unat (sat_add (last_timestamp tm) 1) < 549755813888 + Suc k"
    using last by (simp add: unat_sat_add)
  ultimately have "unat (fst (next_timestamp clk tm)) < 549755813888 + Suc k"
    unfolding nxt by (auto simp: max_def)
  then show ?thesis
    by (simp add: young_def next_timestamp_fields tm)
qed

lemma young_mined:
  assumes "block_lib_laws B" and "mined B n s s1" and "young c0 g k (rpc_time s)"
    and "unat g < 2 ^ 38" and "\<forall>x. c0 \<le> bl_clock B x \<and> unat (bl_clock B x) < 2 ^ 38"
    and "k + n < 2 ^ 38"
  shows "young c0 g (k + n) (rpc_time s1)"
  using assms(2,6)
proof (induction n arbitrary: s1)
  case 0
  then show ?case using assms(3) by (auto simp: mined_def blocks_later_def)
next
  case (Suc n)
  obtain t where t: "mined B n s t" "mined B 1 t s1" using mined_Suc [OF Suc.prems(1)] by blast
  then have "young c0 g (k + n) (rpc_time t)" using Suc by simp
  then show ?case
    using young_next [OF _ assms(4), of c0 "k + n" "rpc_time t" "bl_clock B (rpc_world t)"] assms(5) Suc.prems(2)
    by (simp add: mined_one(1) [OF assms(1) t(2)])
qed

lemma mined_clock:
  assumes "block_lib_laws B" and "mined B (Suc n) s s1"
  shows "map_option bh_timestamp (head_header B s1) = Some (last_timestamp (rpc_time s1))"
    and "next_exact_timestamp (rpc_time s1) = None"
proof -
  obtain t where t: "mined B 1 t s1" using mined_Suc [OF assms(2)] by blast
  show "next_exact_timestamp (rpc_time s1) = None"
    by (simp add: mined_one(1) [OF assms(1) t] next_timestamp_fields)
  show "map_option bh_timestamp (head_header B s1) = Some (last_timestamp (rpc_time s1))"
    by (rule next_header_shows [OF assms(1), of t])
      (simp add: mined_one(1,3) [OF assms(1) t] next_timestamp_fields)
qed

lemma interval_timestamp:
  assumes "next_exact_timestamp tm = None" and "tm_interval tm = Some i" and "i \<noteq> 0"
    and "unat (last_timestamp tm) + unat i < 2 ^ 64"
  shows "fst (next_timestamp now tm) = last_timestamp tm + i"
proof -
  have "sat_add (last_timestamp tm) i = last_timestamp tm + i"
    using assms(4) by (simp add: sat_add_def)
  moreover have "\<not> last_timestamp tm + i \<le> last_timestamp tm"
    using assms(3,4) by (simp add: word_le_nat_alt unat_word_ariths unat_gt_0)
  ultimately show ?thesis
    using assms(1,2) by (simp add: next_timestamp_fields compute_next_timestamp_def Let_def)
qed

text \<open>\<open>anvil_mine\<close> with an interval: the blocks are made with it, and only the clock changes after.\<close>

lemma mine_interval_request:
  assumes "chain_laws E B" and "ready B (unat n) s" and "0 < unat n" and "unat n < 200"
    and "i \<noteq> 0" and "unat i < 2 ^ 64"
  shows "\<exists>s1 tm. mined B (unat n) (s\<lparr>rpc_time := (rpc_time s)\<lparr>tm_interval := Some (ucast i)\<rparr>\<rparr>) s1 \<and>
    request_unit E ''anvil_mine'' (RpcMine (Some n) (Some i)) s = (Inr (), s1\<lparr>rpc_time := tm\<rparr>)"
proof -
  let ?s = "s\<lparr>rpc_time := (rpc_time s)\<lparr>tm_interval := Some (ucast i)\<rparr>\<rparr>"
  have small: "unat n < 2 ^ 64" using assms(4) by simp
  then have fits: "to_u64 n = Some (ucast n)" and same: "unat (ucast n :: u64) = unat n"
    by (simp_all add: to_u64_fits unsigned_ucast_eq take_bit_nat_eq_self)
  have "outstanding ?s = 0" "unat (bl_best B (rpc_world ?s)) + unat (ucast n :: u64) < 2 ^ 64"
    using assms(2) by (simp_all add: ready_def outstanding_def same)
  then obtain m ns where m: "mt_pending (triggers m) = 0" "mode_tx m = mode_tx (rpc_mining ?s)"
    and run: "mine_blocks (tn_lib E) (tn_during E) (ucast n) ?s = (Inr ns, blocks_later B (unat n) m ?s)"
    using mine_blocks_run [OF assms(1), of ?s "ucast n"] assms(3,4) unfolding same by metis
  let ?s1 = "blocks_later B (unat n) m ?s"
  have "\<exists>tm. anvil_mine (tn_lib E) (tn_during E) (Some n) (Some i) s = (Ok (), ?s1\<lparr>rpc_time := tm\<rparr>)"
    using assms(5) run
    by (auto simp: anvil_mine_def fits to_u64_fits [OF assms(6)] Let_def set_block_timestamp_interval_def
        split: option.split)
  then obtain tm where tm: "anvil_mine (tn_lib E) (tn_during E) (Some n) (Some i) s = (Ok (), ?s1\<lparr>rpc_time := tm\<rparr>)"
    by blast
  have "request_unit E ''anvil_mine'' (RpcMine (Some n) (Some i)) s = (Inr (), ?s1\<lparr>rpc_time := tm\<rparr>)"
    by (rule request_runs(1)) (simp_all add: registered_names_def answer_def tm)
  moreover have "mined B (unat n) ?s ?s1" using m by (auto simp: mined_def)
  ultimately show ?thesis by blast
qed

text \<open>Two blocks with an interval, by number.\<close>

lemma two_interval_blocks:
  assumes "block_lib_laws B" and "mined B 2 s s1" and "next_exact_timestamp (rpc_time s) = None"
    and "tm_interval (rpc_time s) = Some i" and "i \<noteq> 0" and "unat (last_timestamp (rpc_time s)) + 2 * unat i < 2 ^ 64"
    and "ready B 2 s"
  shows "map_option bh_timestamp (bl_header B (rpc_world s1) (bl_best B (rpc_world s) + 1)) =
      Some (last_timestamp (rpc_time s) + i)"
    and "map_option bh_timestamp (bl_header B (rpc_world s1) (bl_best B (rpc_world s) + 2)) =
      Some (last_timestamp (rpc_time s) + i + i)"
proof -
  have "mined B (Suc 1) s s1" using assms(2) by (simp add: numeral_2_eq_2)
  then obtain t where t: "mined B 1 s t" "mined B 1 t s1" using mined_Suc by blast
  have tm: "next_exact_timestamp (rpc_time t) = None" "tm_interval (rpc_time t) = Some i"
    "last_timestamp (rpc_time t) = last_timestamp (rpc_time s) + i"
    using interval_timestamp [OF assms(3-5)] assms(4,6)
    by (simp_all add: mined_one(1) [OF assms(1) t(1)] next_timestamp_fields)
  have heads: "map_option bh_timestamp (head_header B u1) = Some (last_timestamp (rpc_time u) + i)"
    if "mined B 1 u u1" "next_exact_timestamp (rpc_time u) = None" "tm_interval (rpc_time u) = Some i"
      "unat (last_timestamp (rpc_time u)) + unat i < 2 ^ 64" for u u1
    using mined_clock(1) [OF assms(1), of 0 u u1] that interval_timestamp [OF that(2,3) assms(5) that(4)]
    by (simp add: mined_one(1) [OF assms(1) that(1)] next_timestamp_fields)
  have best: "bl_best B (rpc_world t) = bl_best B (rpc_world s) + 1"
    "bl_best B (rpc_world s1) = bl_best B (rpc_world s) + 2"
    by (simp_all add: mined_frame(3) [OF assms(1) t(1)] mined_frame(3) [OF assms(1) t(2)])
  show "map_option bh_timestamp (bl_header B (rpc_world s1) (bl_best B (rpc_world s) + 1)) =
      Some (last_timestamp (rpc_time s) + i)"
    using heads [OF t(1) assms(3,4)] assms(6) best(1)
    by (simp add: head_header_def mined_one(5) [OF assms(1) t(2)])
  have "unat (last_timestamp (rpc_time t)) + unat i < 2 ^ 64"
    using assms(6) by (simp add: tm(3) unat_word_ariths)
  then show "map_option bh_timestamp (bl_header B (rpc_world s1) (bl_best B (rpc_world s) + 2)) =
      Some (last_timestamp (rpc_time s) + i + i)"
    using heads [OF t(2) tm(1,2)] best by (simp add: head_header_def tm(3))
qed

lemma mine_test_passes:
  assumes "chain_laws E B" and "ready B 5 s" and "young c0 g 0 (rpc_time s)" and "unat g < 2 ^ 38"
    and "\<forall>x. c0 \<le> bl_clock B x \<and> unat (bl_clock B x) < 2 ^ 38"
  shows "passes (anvil_mine_advances_requested_blocks E) s"
proof -
  have laws: "block_lib_laws B" using assms(1) by (simp add: chain_laws_def chain_reads_def)
  let ?n = "bl_best B (rpc_world s)"
  have room: "unat ?n + 5 < 2 ^ 64" using assms(2) by (simp add: ready_def)
  then have sums: "plus_or_panic ?n 1 = give (?n + 1)" "plus_or_panic ?n 3 = give (?n + 3)"
    "plus_or_panic ?n 4 = give (?n + 4)" "plus_or_panic ?n 5 = give (?n + 5)"
    by (simp_all add: plus_or_panic_def)
  have "ready B (Suc 4) s" using assms(2) by (simp add: eval_nat_numeral)
  then obtain s1 blk1 where s1: "request_unit E ''anvil_mine'' (RpcMine None None) s = (Inr (), s1)"
    "ready B 4 s1" and n1: "new_head E B s s1 blk1"
    using mine_shows [OF assms(1)] by blast
  note m1 = new_headD(1) [OF n1]
  obtain s2 where s2: "request_unit E ''hardhat_mine'' (RpcMine (Some 2) None) s1 = (Inr (), s2)"
    and "mined B (unat (2 :: u256)) s1 s2"
    by (rule mine_request [OF assms(1), of s1 2 "''hardhat_mine''" "Some 2"])
      (use s1(2) in \<open>simp_all add: ready_def\<close>)
  then have m2: "mined B 2 s1 s2" by simp
  have r2: "ready B 2 s2" using ready_mined [OF laws m2, of 2] s1(2) by simp
  have "young c0 g 1 (rpc_time s1)" using young_mined [OF laws m1 assms(3-5)] by simp
  then have "young c0 g (1 + 2) (rpc_time s2)" by (rule young_mined [OF laws m2 _ assms(4,5)]) simp
  then have last: "unat (last_timestamp (rpc_time s2)) < 549755813891" "next_exact_timestamp (rpc_time s2) = None"
    by (simp_all add: young_def)
  have "mined B (Suc 1) s1 s2" using m2 by (simp add: numeral_2_eq_2)
  from mined_clock(1) [OF laws this] obtain h2 where "head_header B s2 = Some h2"
    "bh_timestamp h2 = last_timestamp (rpc_time s2)" by auto
  then have pre: "block_timestamp E Latest s2 = (Inr (last_timestamp (rpc_time s2)), s2)"
    using block_timestamp_run(2) [OF chain_laws_reads [OF assms(1)]] by simp
  let ?s2 = "s2\<lparr>rpc_time := (rpc_time s2)\<lparr>tm_interval := Some (ucast (10 :: u256))\<rparr>\<rparr>"
  obtain s3 tm where "mined B (unat (2 :: u256)) ?s2 s3"
    and s3: "request_unit E ''anvil_mine'' (RpcMine (Some 2) (Some 10)) s2 = (Inr (), s3\<lparr>rpc_time := tm\<rparr>)"
    using mine_interval_request [OF assms(1), of 2 s2 10] r2 by auto
  then have m3: "mined B 2 ?s2 s3" by simp
  have best: "bl_best B (rpc_world s1) = ?n + 1" "bl_best B (rpc_world s2) = ?n + 3"
    "bl_best B (rpc_world s3) = ?n + 5"
    using mined_frame(3) [OF laws m1] mined_frame(3) [OF laws m2] mined_frame(3) [OF laws m3] by simp_all
  have numbers: "bl_best B (rpc_world ?s2) + 1 = ?n + 4" "bl_best B (rpc_world ?s2) + 2 = ?n + 5"
    by (simp_all add: best)
  have "map_option bh_timestamp (bl_header B (rpc_world s3) (?n + 4)) = Some (last_timestamp (rpc_time ?s2) + 10)"
    "map_option bh_timestamp (bl_header B (rpc_world s3) (?n + 5)) = Some (last_timestamp (rpc_time ?s2) + 10 + 10)"
    unfolding numbers [symmetric]
    by (rule two_interval_blocks [OF laws m3]; use last r2 in simp)+
  then obtain h4 h5 where "bl_header B (rpc_world s3) (?n + 4) = Some h4" "bl_header B (rpc_world s3) (?n + 5) = Some h5"
    "bh_timestamp h4 = last_timestamp (rpc_time ?s2) + 10" "bh_timestamp h5 = last_timestamp (rpc_time ?s2) + 10 + 10"
    unfolding map_option_eq_Some by blast
  then have stamps: "block_timestamp E (Number (?n + 4)) (s3\<lparr>rpc_time := tm\<rparr>) =
      (Inr (last_timestamp (rpc_time s2) + 10), s3\<lparr>rpc_time := tm\<rparr>)"
    "block_timestamp E (Number (?n + 5)) (s3\<lparr>rpc_time := tm\<rparr>) =
      (Inr (last_timestamp (rpc_time s2) + 10 + 10), s3\<lparr>rpc_time := tm\<rparr>)"
    using block_timestamp_run(1) [OF chain_laws_reads [OF assms(1)], of "s3\<lparr>rpc_time := tm\<rparr>"] by simp_all
  have plus: "plus_or_panic (last_timestamp (rpc_time s2)) 10 = give (last_timestamp (rpc_time s2) + 10)"
    "plus_or_panic (last_timestamp (rpc_time s2) + 10) 10 = give (last_timestamp (rpc_time s2) + 10 + 10)"
    using last(1) by (simp_all add: plus_or_panic_def unat_word_ariths)
  show ?thesis
    using chain_laws_reads [OF assms(1)]
    by (simp add: anvil_mine_advances_requested_blocks_def sums s1(1) s2 pre s3 stamps plus best)
qed

lemma head_block:
  assumes "chain_laws E B" and "head_header B s = Some h"
  shows "\<exists>blk. latest_block (tn_lib E) s = Inr blk \<and> rb_header blk = h"
proof -
  obtain r where "eth_block_by_number (l_eth (tn_lib E)) s (Number (bl_best B (rpc_world s))) False = Inr r"
    "map_option rb_header r = head_header B s"
    using assms(1) unfolding chain_laws_def chain_reads_def head_header_def by blast
  then show ?thesis
    using assms by (auto simp: latest_block_def best_block_number_def chain_laws_def chain_reads_def bs_block_by_number_def)
qed

lemma info_requests:
  assumes "chain_laws E B" and "head_header B s = Some h"
  obtains price info md where "eth_gas_price_request E s = (Inr price, s)" and "unat price < 2 ^ 128"
    and "request_info E ''anvil_nodeInfo'' RpcNodeInfo s = (Inr info, s)"
    and "request_metadata E ''anvil_metadata'' RpcMetadata s = (Inr md, s)"
    and "request_metadata E ''hardhat_metadata'' RpcMetadata s = (Inr md, s)"
    and "ni_current_block_number info = bh_number h" and "ni_current_block_timestamp info = bh_timestamp h"
    and "ni_current_block_hash info = bh_hash h" and "ni_transaction_order info = ''fees''"
    and "ne_chain_id (ni_environment info) = md_chain_id md" and "ne_gas_price (ni_environment info) = ucast price"
    and "md_latest_block_number md = bh_number h" and "md_latest_block_hash md = bh_hash h"
    and "md_client_version md = ''anvil-reth/v'' @ pkg_version" and "md_client_semver md = Some pkg_version"
    and "md_snapshots md = []"
proof -
  obtain blk where blk: "latest_block (tn_lib E) s = Inr blk" "rb_header blk = h"
    using head_block [OF assms] by blast
  obtain price where price: "eth_gas_price (l_eth (tn_lib E)) s = Inr price" "unat price < 2 ^ 128"
    using assms(1) unfolding chain_laws_def chain_reads_def by blast
  have fits: "to_u128 price = Some (ucast price)" using price(2) by (simp add: to_u128_def)
  obtain info where info: "anvil_node_info (tn_lib E) s = (Ok info, s)"
    and fields: "ni_current_block_number info = bh_number h" "ni_current_block_timestamp info = bh_timestamp h"
      "ni_current_block_hash info = bh_hash h" "ni_transaction_order info = ''fees''"
      "ne_chain_id (ni_environment info) = chain_id (nc_chain_spec (cx_node (rpc_context s)))"
      "ne_gas_price (ni_environment info) = ucast price"
    by (simp add: anvil_node_info_def blk bs_gas_price_def price(1) Let_def fits)
  obtain md where md: "anvil_metadata (tn_lib E) s = (Ok md, s)"
    and mfields: "md_chain_id md = chain_id (nc_chain_spec (cx_node (rpc_context s)))"
      "md_latest_block_number md = bh_number h" "md_latest_block_hash md = bh_hash h"
      "md_client_version md = ''anvil-reth/v'' @ pkg_version" "md_client_semver md = Some pkg_version"
      "md_snapshots md = []"
    by (simp add: anvil_metadata_def blk Let_def pkg_name_def)
  show thesis
  proof (rule that)
    show "eth_gas_price_request E s = (Inr price, s)"
      by (simp add: eth_gas_price_request_def answered_def price(1))
    show "unat price < 2 ^ 128" by (rule price(2))
    show "request_info E ''anvil_nodeInfo'' RpcNodeInfo s = (Inr info, s)"
      by (rule request_runs(8)) (simp_all add: registered_names_def answer_def info)
    show "request_metadata E ''anvil_metadata'' RpcMetadata s = (Inr md, s)"
      "request_metadata E ''hardhat_metadata'' RpcMetadata s = (Inr md, s)"
      by (rule request_runs(9); simp add: registered_names_def answer_def md)+
  qed (simp_all add: price fields mfields)
qed

lemma node_info_test_passes:
  assumes "chain_laws E B" and "ready B 1 s"
    and "map_option bh_number (head_header B s) = Some (bl_best B (rpc_world s))"
  shows "passes (anvil_node_info_and_metadata_follow_latest_head E) s"
proof -
  obtain h where h: "head_header B s = Some h" "bh_number h = bl_best B (rpc_world s)"
    using assms(3) by auto
  obtain blk where blk: "eth_get_block_by_number E Latest s = (Inr (Some blk), s)" "rb_header blk = h"
    using get_block_run(2) [OF chain_laws_reads [OF assms(1)] h(1)] by blast
  have "ready B (Suc 0) s" using assms(2) by simp
  then obtain s1 blk1 where s1: "request_unit E ''anvil_mine'' (RpcMine None None) s = (Inr (), s1)"
    and n1: "new_head E B s s1 blk1"
    using mine_shows [OF assms(1)] by blast
  have laws: "block_lib_laws B" using assms(1) by (simp add: chain_laws_def chain_reads_def)
  have number: "bh_number (rb_header blk1) = bl_best B (rpc_world s1)"
    using n1 mined_frame(3) [OF laws new_headD(1) [OF n1]] by (simp add: new_head_def)
  show ?thesis
  proof (rule info_requests [OF assms(1) h(1)], goal_cases)
    case before: (1 price info md)
    have "to_u128 price = Some (ucast price)" using before(2) by (simp add: to_u128_def)
    then have price: "to_u128_or_panic price = give (ucast price)" by (simp add: to_u128_or_panic_def)
    show ?case
    proof (rule info_requests [OF assms(1) new_headD(3) [OF n1]], goal_cases)
      case (1 price' info' md')
      then show ?case
        using chain_laws_reads [OF assms(1)] before
        by (simp add: anvil_node_info_and_metadata_follow_latest_head_def Let_def blk h(2) price s1 number)
    qed
  qed
qed

section \<open>Properties\<close>

definition mining_tests where
  "mining_tests E =
     [anvil_mine_advances_requested_blocks E,
      anvil_set_and_remove_block_timestamp_interval E,
      anvil_time_controls_are_visible_in_mined_blocks E,
      anvil_node_info_and_metadata_follow_latest_head E,
      set_block_gas_limit_accepts_anvil_and_evm_namespaces E,
      anvil_set_coinbase_persists_across_blocks E,
      anvil_set_next_block_base_fee_per_gas_is_consumed_once E]"

text \<open>
  C38: The mining, time and block-parameter tests pass on a fresh node with a genesis block, an
  empty pool and a local miner that makes at least one outstanding block per poll: the
  requested numbers of blocks appear, with the requested distances, exact timestamps, gas
  limits, coinbase and base fee, and the node reports its head.
\<close>

theorem mining_tests_pass:
  assumes "chain_laws E B" and "fee_market E B"
    and "bl_best B x = 0" and "bl_header B x 0 = Some h" and "bh_number h = 0" and "bh_timestamp h = genesis"
    and "unat genesis < 2 ^ 38" and "\<forall>y. now \<le> bl_clock B y \<and> unat (bl_clock B y) < 2 ^ 38"
    and "fst (l_pending_and_queued_txn_count (tn_lib E) x) = 0"
  shows "list_all (\<lambda>test. with_test_client E now genesis dev iid x h0 test = Inr ()) (mining_tests E)"
proof -
  let ?s = "node_init (tn_lib E) now genesis dev iid x"
  have ready: "ready B k ?s" if "k < 2 ^ 64" for k
    using that assms(3)
    by (simp add: ready_def outstanding_def mining_controller_default_def mining_triggers_default_def)
  have head: "head_header B ?s = Some h" using assms(3,4) by (simp add: head_header_def)
  have young: "young now genesis 0 (rpc_time ?s)"
    using assms(7) by (simp add: young_def new_time_manager_def reset_def)
  have "passes (anvil_mine_advances_requested_blocks E) ?s"
    by (rule mine_test_passes [OF assms(1) ready young assms(7,8)]) simp
  moreover have "passes (anvil_set_and_remove_block_timestamp_interval E) ?s"
    by (rule interval_test_passes) (simp add: new_time_manager_def reset_def)
  moreover have "passes (anvil_time_controls_are_visible_in_mined_blocks E) ?s"
    by (rule time_test_passes [OF assms(1) ready _ _ assms(7,8)]) (simp_all add: head assms(6))
  moreover have "passes (anvil_node_info_and_metadata_follow_latest_head E) ?s"
    by (rule node_info_test_passes [OF assms(1) ready]) (simp_all add: head assms(3,5))
  moreover have "passes (set_block_gas_limit_accepts_anvil_and_evm_namespaces E) ?s"
    by (rule gas_limit_test_passes [OF assms(1) ready]) simp
  moreover have "passes (anvil_set_coinbase_persists_across_blocks E) ?s"
    by (rule coinbase_test_passes [OF assms(1) ready]) simp
  moreover have "passes (anvil_set_next_block_base_fee_per_gas_is_consumed_once E) ?s"
    by (rule base_fee_test_passes [OF assms(1) ready assms(2)])
      (simp_all add: assms(9) gas_limit_def block_env_default_def)
  ultimately show ?thesis
    by (simp add: mining_tests_def with_test_client_passes)
qed

end
