(* ===== verification/Test_Instance.thy ===== *)
theory Test_Instance
  imports Test_Dump Test_Mining Chain_Instance "HOL-Library.Countable"
begin

text \<open>
  A node for the integration tests, for their witnesses: the chain of \<open>Chain_Instance\<close>, stock
  handlers that answer from the provider, with an interpreter of the instructions the
  contracts of the tests use, and a dump codec for every document.
\<close>

section \<open>The instructions\<close>

text \<open>PUSH1, PUSH20, BALANCE, SLOAD, MSTORE at 0 and RETURN of the 32 bytes there.\<close>

function demo_run ::
  "(string, bytes, unit) state_provider \<Rightarrow> address \<Rightarrow> u256 list \<Rightarrow> bytes \<Rightarrow> bytes
     \<Rightarrow> rpc_error + bytes" where
  "demo_run P c st mem [] = Inr []"
| "demo_run P c st mem (i # code) =
     (if i = 0x60 then demo_run P c (ucast (hd code) # st) mem (tl code)
      else if i = 0x73 then demo_run P c (word_of_nat (be_value (take 20 code)) # st) mem (drop 20 code)
      else if i = 0x31 then
        (case read_account P (ucast (hd st)) of
           Inl e \<Rightarrow> Inl (internal_error e)
         | Inr acc \<Rightarrow> demo_run P c (acc_balance acc # tl st) mem code)
      else if i = 0x54 then
        (case read_slot P c (hd st) of
           Inl e \<Rightarrow> Inl (internal_error e)
         | Inr v \<Rightarrow> demo_run P c (v # tl st) mem code)
      else if i = 0x52 then demo_run P c (drop 2 st) (word_bytes (hd (tl st))) code
      else if i = 0xf3 then Inr mem
      else Inr [])"
  by pat_completeness auto

termination
  by (relation "measure (\<lambda>(P, c, st, mem, code). length code)") auto

section \<open>The node\<close>

definition test_code :: "bytes code_ops" where
  "test_code =
     demo_code\<lparr>keccak256 := (\<lambda>c. if c = [] then 0 else if c = constant_code 0x2a then 1 else 2)\<rparr>"

lemma test_code_laws: "code_laws test_code"
  by (auto simp: code_laws_def test_code_def demo_code_def split: if_splits)

lemma keccak_constant:
  "keccak256 test_code z = keccak256 test_code (constant_code 0x2a) \<longrightarrow> z = constant_code 0x2a"
  by (simp add: test_code_def constant_code_def)

instance json :: countable
  by countable_datatype

text \<open>A document is printed as as many bytes as its number, and compressed behind a header byte.\<close>

definition test_dump_codec :: dump_codec where
  "test_dump_codec =
     \<lparr>json_to_vec = (\<lambda>j. Inr (replicate (to_nat j) 0)),
      json_parse = (\<lambda>z. Some (from_nat (length z))),
      json_error = (\<lambda>_. []),
      gzip = (\<lambda>t. Inr (0x1F # t)), gz_header = (\<lambda>z. z \<noteq> [] \<and> hd z = 0x1F),
      gunzip = (\<lambda>z. Inr (tl z))\<rparr>"

lemma test_dump_codec_laws: "dump_codec_laws test_dump_codec"
  by (auto simp: dump_codec_laws_def test_dump_codec_def)

definition demo_stock_eth :: "(demo_chain, bytes, unit) stock_eth" where
  "demo_stock_eth =
     \<lparr>se_provider = (\<lambda>_. demo_provider),
      se_block_number = (\<lambda>x. Inr (ucast (fst x))),
      se_get_balance = (\<lambda>P a. map_sum internal_error acc_balance (read_account P a)),
      se_get_transaction_count = (\<lambda>P a. map_sum internal_error (\<lambda>acc. ucast (acc_nonce acc)) (read_account P a)),
      se_get_code = (\<lambda>P a. map_sum internal_error id (read_code test_code P a)),
      se_get_storage_at = (\<lambda>P a k. map_sum internal_error id (read_slot P a k)),
      se_call = (\<lambda>P tx codes. case tr_to tx of
         None \<Rightarrow> Inr []
       | Some c \<Rightarrow>
           (case map_of codes c of
              Some code \<Rightarrow> demo_run P c [] [] code
            | None \<Rightarrow> (case read_code test_code P c of
                Inl e \<Rightarrow> Inl (internal_error e)
              | Inr code \<Rightarrow> demo_run P c [] [] code)))\<rparr>"

definition demo_test_blocks :: "(demo_chain, unit, block_header option, u64 \<times> u64, unit, unit) block_lib" where
  "demo_test_blocks = demo_block_lib\<lparr>bl_clock := (\<lambda>_. 1000)\<rparr>"

definition demo_test_node ::
  "(mining_mode \<times> nat, nat, bool, unit, bytes, demo_chain, unit, unit) test_node" where
  "demo_test_node =
     \<lparr>tn_lib = (demo_chain_lib JNull)\<lparr>l_code := test_code, l_dump := test_dump_codec\<rparr>,
      tn_eth = demo_stock_eth,
      tn_during = (\<lambda>_. miner_round demo_test_blocks 1),
      tn_pause = (\<lambda>_. miner_round demo_test_blocks 1),
      tn_clock = (\<lambda>_. (1000, 1000))\<rparr>"

section \<open>Its laws\<close>

lemma demo_from_be_slice_word: "demo_from_be_slice (word_bytes v) = Some v"
proof -
  have "foldl (\<lambda>n b. 256 * n + uint b) (int k) bs = int (foldl (\<lambda>n b. 256 * n + unat b) k bs)"
    for bs :: bytes and k
  proof (induction bs arbitrary: k)
    case (Cons b bs)
    from Cons [of "256 * k + unat b"] show ?case by simp
  qed simp
  from this [of 0] have "foldl (\<lambda>n b. 256 * n + uint b) 0 bs = int (be_value bs)" for bs
    by (simp add: be_value_def)
  moreover have "length (word_bytes v) = 32" by (simp add: word_bytes_def)
  ultimately show ?thesis
    by (simp add: demo_from_be_slice_def)
qed

lemma demo_client_laws: "client_laws demo_test_node"
  by (simp add: client_laws_def demo_test_node_def test_code_laws stock_eth_laws_def demo_stock_eth_def
      demo_from_be_slice_word)
    (simp add: test_code_def demo_code_def)

lemma run_balance:
  "demo_run P c [] [] (balance_bytecode a) =
     map_sum internal_error (\<lambda>acc. word_bytes (acc_balance acc)) (read_account P a)"
proof -
  have "ucast (word_of_nat (be_value (address_bytes a)) :: u256) = a"
    by (simp add: be_value_address ucast_up_ucast_id is_up)
  then show ?thesis
    by (simp add: balance_bytecode_def split: sum.split)
qed

lemma run_constant:
  "demo_run P c [] [] (constant_code v) = Inr (word_bytes (ucast v))"
  by (simp add: constant_code_def)

lemma run_slot:
  "demo_run P c [] [] slot_code =
     map_sum internal_error word_bytes (read_slot P c 0)"
  by (simp add: slot_code_def split: sum.split)

lemma demo_evm_laws: "evm_laws demo_test_node"
  unfolding evm_laws_def Let_def
  by (auto simp: demo_test_node_def demo_stock_eth_def call_to_def run_balance run_constant run_slot
      demo_chain_eth_def word_bytes_def)

lemma demo_test_blocks_laws: "block_lib_laws demo_test_blocks"
  using demo_block_lib_laws by (simp add: demo_test_blocks_def block_lib_laws_def)

lemma demo_chain_laws: "chain_laws demo_test_node demo_test_blocks"
  unfolding chain_laws_def chain_reads_def
proof (intro conjI demo_test_blocks_laws)
  show "\<forall>i s. \<exists>k\<ge>1. tn_during demo_test_node i s = miner_round demo_test_blocks k s"
    by (intro allI exI [of _ 1]) (simp add: demo_test_node_def)
qed (simp_all add: demo_test_node_def demo_test_blocks_def demo_block_lib_def demo_stock_eth_def
    demo_chain_eth_def option.map_comp comp_def option.map_ident Let_def)

lemma demo_fee_market: "fee_market demo_test_node demo_test_blocks"
proof -
  have "(fee :: u64) - fee div 8 < fee" if "8 \<le> fee" for fee
  proof -
    have "unat fee div 8 \<le> unat fee" "0 < unat fee div 8"
      using that by (simp_all add: word_le_nat_alt div_greater_zero_iff)
    moreover have "fee div 8 \<le> fee" by (simp add: word_le_nat_alt unat_div)
    ultimately show ?thesis by (simp add: word_less_nat_alt unat_sub unat_div)
  qed
  then show ?thesis
    by (auto simp: fee_market_def demo_test_blocks_def demo_block_lib_def demo_evm_def demo_append_def
        demo_parent_fee_def Let_def)
qed

lemma demo_dump_env: "5 \<notin> A \<Longrightarrow> dump_env demo_test_node x A"
  using test_dump_codec_laws demo_leaf_laws
  by (simp add: dump_env_def demo_test_node_def encode_gzipped_def test_dump_codec_def bt_wf_def
      demo_chain_lib_def demo_provider_def)

lemma demo_unused: "b \<noteq> 0 \<Longrightarrow> unused demo_test_node s (repeat_byte b)"
proof -
  assume "b \<noteq> 0"
  then have "unat (5 :: address) < unat (repeat_byte b)"
    using repeat_byte_large [of b] by (simp add: word_le_nat_alt)
  then have "repeat_byte b \<noteq> 5" by auto
  then show ?thesis by (simp add: unused_def demo_test_node_def demo_stock_eth_def demo_provider_def)
qed

section \<open>Witnesses\<close>

definition demo_heap :: "(mining_mode \<times> nat, bool, bytes) shared_heap" where
  "demo_heap = \<lparr>hp_impersonation = (\<lambda>_. impersonation_default),
     hp_mining = (\<lambda>_. mining_controller_default demo_watch demo_notify),
     hp_time = (\<lambda>_. new_time_manager 0 0), hp_block_env = (\<lambda>_. block_env_default),
     hp_accounts = (\<lambda>_. anvil_state_shared), hp_free = 0\<rparr>"

theorem account_tests_pass_witness:
  "list_all (\<lambda>test. with_test_client demo_test_node 1000 1000 demo_spec 42 demo_genesis demo_heap test = Inr ())
     (account_tests demo_test_node)"
  by (rule account_tests_pass [OF demo_client_laws demo_evm_laws]) (simp add: demo_unused)

theorem dump_test_passes_witness:
  "with_test_client demo_test_node 1000 1000 demo_spec 42 demo_genesis demo_heap
     (anvil_dump_and_load_state_round_trip demo_test_node) = Inr ()"
proof (rule dump_test_passes [OF demo_client_laws demo_evm_laws])
  have "(5 :: address) < 0x10000" by simp
  then have "5 \<noteq> repeat_byte 0xA1" "5 \<noteq> repeat_byte 0xC1"
    using repeat_byte_large [of "0xA1"] repeat_byte_large [of "0xC1"] by auto
  then show "dump_env demo_test_node demo_genesis {repeat_byte 0xA1, repeat_byte 0xC1}"
    by (intro demo_dump_env) simp
  show "\<forall>z. keccak256 (l_code (tn_lib demo_test_node)) z =
      keccak256 (l_code (tn_lib demo_test_node)) (constant_code 0x2a) \<longrightarrow> z = constant_code 0x2a"
    using keccak_constant by (simp add: demo_test_node_def)
qed (simp add: demo_unused)

theorem mining_tests_pass_witness:
  "list_all (\<lambda>test. with_test_client demo_test_node 1000 1000 demo_spec 42 demo_genesis demo_heap test = Inr ())
     (mining_tests demo_test_node)"
  by (rule mining_tests_pass [OF demo_chain_laws demo_fee_market,
        where h = "the (fst (snd demo_genesis) 0)"])
    (simp_all add: demo_test_blocks_def demo_block_lib_def demo_genesis_def demo_test_node_def)

end
