(* ===== verification/Test_Pool.thy ===== *)
theory Test_Pool
  imports Test_Mining Interval_Task "HOL-Library.Sublist"
begin

text \<open>
  The node under test with transactions: the signers of its ETH API, the pool behind the
  validator of this program, the pool's listener, the automine and the interval task, and
  the local miner. What happens while the client or a handler sleeps is a list of
  activities: single steps of the two tasks, in the steps \<open>Interval_Task\<close> and
  \<open>automine_round\<close> have, messages and blocks of the library, and time. \<open>Test_View\<close> is about
  what they do.
\<close>

section \<open>Signers and the transaction interface\<close>

text \<open>An \<open>EthSigner\<close> as the ETH API uses it, and \<open>ImpersonatedSigner\<close> as one.\<close>

record ('q, 't) eth_signer =
  sg_accounts :: "address list"
  sg_is_signer_for :: "address \<Rightarrow> bool"
  sg_sign :: "address \<Rightarrow> bytes \<Rightarrow> sign_error + signature"
  sg_sign_transaction :: "'q \<Rightarrow> address \<Rightarrow> sign_error + 't"

definition impersonated_eth_signer ::
  "('q \<Rightarrow> 'u tx_signer \<Rightarrow> 'e + 't) \<Rightarrow> impersonation \<Rightarrow> ('q, 't) eth_signer" where
  "impersonated_eth_signer try_build_and_sign s =
     \<lparr>sg_accounts = eth_signer_accounts s, sg_is_signer_for = is_signer_for s, sg_sign = eth_sign,
      sg_sign_transaction = eth_sign_transaction try_build_and_sign\<rparr>"

datatype transaction_origin = Local | External | Private

text \<open>
  The library's side of transactions, over a world \<open>'x\<close>: the stock signers, the request type
  (filled in from the pool and the chain, built and signed), the stock validator,
  \<open>eth_sendTransaction\<close> over the registered signers and the pool's validator, the codec of
  transactions, the pending transactions in the order blocks take them, receipts, the
  transactions of a block by its number, and the unread messages of the pool's listener.

  The two tasks of the program keep their own variables; \<open>node_tasks\<close> has them, with the time
  that has passed, and the world has a place for them. The automine task awaits a message, or
  has received one, or has seen automining, or has seen a pending transaction as well.
\<close>

datatype listener_pc = LWaiting | LReceived | LAutomine | LTriggering

record 'rx node_tasks =
  tk_listener :: listener_pc
  tk_rx :: 'rx
  tk_interval :: task_pc
  tk_now :: nat

record ('x, 'q, 'u, 't, 'e, 'o, 'rc, 'b, 'rx) tx_lib =
  tx_signers :: "('q, 't) eth_signer list"
  tx_fill :: "tx_request \<Rightarrow> 'x \<Rightarrow> 'q"
  tx_build :: "'q \<Rightarrow> 'u tx_signer \<Rightarrow> 'e + 't"
  tx_view :: "'t pool_transaction"
  tx_cost :: "'t \<Rightarrow> u256"
  tx_stock_validate :: "'x \<Rightarrow> transaction_origin \<Rightarrow> 't \<Rightarrow> ('t, 'o) validation_outcome"
  tx_send :: "('q, 't) eth_signer list
     \<Rightarrow> (transaction_origin \<Rightarrow> 't \<Rightarrow> impersonation \<Rightarrow> ('t, 'o) validation_outcome \<times> impersonation)
     \<Rightarrow> tx_request \<Rightarrow> 'x \<Rightarrow> impersonation \<Rightarrow> (rpc_error + b256) \<times> 'x \<times> impersonation"
  tx_codec_of :: "'t tx_codec"
  tx_encode :: "'t \<Rightarrow> bytes"
  tx_pending :: "'x \<Rightarrow> 't list"
  tx_receipt :: "'x \<Rightarrow> b256 \<Rightarrow> 'rc option"
  tx_hashes :: "'x \<Rightarrow> u64 \<Rightarrow> b256 list"
  tx_unread :: "'x \<Rightarrow> nat"
  tx_recv :: "'x \<Rightarrow> 'x"
  tx_full :: "'b \<Rightarrow> b256 list option"
  tx_tasks :: "'x \<Rightarrow> 'rx node_tasks"
  tx_set_tasks :: "'rx node_tasks \<Rightarrow> 'x \<Rightarrow> 'x"

text \<open>The signers \<open>extend_rpc_modules\<close> leaves, and the requests.\<close>

definition installed_signers where
  "installed_signers X s =
     extend_signers (tx_signers X) (impersonated_eth_signer (tx_build X) (rpc_state s))"

definition eth_accounts_request where
  "eth_accounts_request X = answered (\<lambda>s. Inr (concat (map sg_accounts (installed_signers X s))))"

definition eth_send_transaction where
  "eth_send_transaction X tx s =
     (case tx_send X (installed_signers X s)
            (validate_transaction (tx_view X) (tx_stock_validate X (rpc_world s))) tx
            (rpc_world s) (rpc_state s) of
        (r, x, i) \<Rightarrow> (map_sum Rejected id r, s\<lparr>rpc_world := x, rpc_state := i\<rparr>))"

definition eth_get_transaction_receipt where
  "eth_get_transaction_receipt X h = answered (\<lambda>s. Inr (tx_receipt X (rpc_world s) h))"

section \<open>Activities\<close>

text \<open>
  What the rest of the node does while somebody sleeps: the automine task receives a message
  of the pool's listener or goes one step further, the interval task is woken by a change of
  the mode or goes one step further, time passes (in nanoseconds), or the local miner takes a
  trigger and makes a block, after which the pool tells the validator about the new head.
\<close>

datatype activity =
    ListenerMessage
  | ListenerStep
  | IntervalWoken
  | IntervalStep
  | Passes nat
  | NextBlock

definition head_arrives ::
  "('x, 'q, 'u, 't, 'e, 'o, 'rc, 'b, 'rx) tx_lib \<Rightarrow> ('x, 'ex, 'hdr, 'env, 'ctx, 'pl) block_lib
     \<Rightarrow> ('w, 'n, 'bc, 'x) anvil_rpc \<Rightarrow> ('w, 'n, 'bc, 'x) anvil_rpc" where
  "head_arrives X B s =
     s\<lparr>rpc_state := snd (on_new_head_block (tx_hashes X (rpc_world s)) (\<lambda>_ v. v)
          (bl_best B (rpc_world s)) ((), rpc_state s))\<rparr>"

definition set_listener ::
  "('x, 'q, 'u, 't, 'e, 'o, 'rc, 'b, 'rx) tx_lib \<Rightarrow> listener_pc
     \<Rightarrow> ('w, 'n, 'bc, 'x) anvil_rpc \<Rightarrow> ('w, 'n, 'bc, 'x) anvil_rpc" where
  "set_listener X pc s =
     (let x = rpc_world s in s\<lparr>rpc_world := tx_set_tasks X ((tx_tasks X x)\<lparr>tk_listener := pc\<rparr>) x\<rparr>)"

text \<open>The loop body of \<open>run_automine_task\<close>, access by access.\<close>

definition listener_step ::
  "('w, 'rx, 'n, 'f, 'bc, 'x, 'b) rpc_lib \<Rightarrow> ('x, 'q, 'u, 't, 'e, 'o, 'rc, 'b, 'rx) tx_lib
     \<Rightarrow> ('w, 'n, 'bc, 'x) anvil_rpc \<Rightarrow> ('w, 'n, 'bc, 'x) anvil_rpc" where
  "listener_step L X s =
     (case tk_listener (tx_tasks X (rpc_world s)) of
        LWaiting \<Rightarrow> s
      | LReceived \<Rightarrow>
          set_listener X (if is_automine (l_watch L) (rpc_mining s) then LAutomine else LWaiting) s
      | LAutomine \<Rightarrow>
          set_listener X (if 0 < fst (l_pending_and_queued_txn_count L (rpc_world s))
            then LTriggering else LWaiting) s
      | LTriggering \<Rightarrow>
          set_listener X LWaiting (s\<lparr>rpc_mining := trigger (l_notify L) (rpc_mining s)\<rparr>))"

text \<open>The interval task as \<open>Interval_Task\<close> has it (whose logs are not needed here), and back.\<close>

definition task_of ::
  "('x, 'q, 'u, 't, 'e, 'o, 'rc, 'b, 'rx) tx_lib \<Rightarrow> ('w, 'n, 'bc, 'x) anvil_rpc
     \<Rightarrow> ('w, 'rx, 'n) interval_task" where
  "task_of X s =
     (let tk = tx_tasks X (rpc_world s)
      in \<lparr>it_mining = rpc_mining s, it_rx = tk_rx tk, it_pc = tk_interval tk, it_now = tk_now tk,
          it_fired = 0, it_sleeps = []\<rparr>)"

definition put_task ::
  "('x, 'q, 'u, 't, 'e, 'o, 'rc, 'b, 'rx) tx_lib \<Rightarrow> ('w, 'rx, 'n) interval_task
     \<Rightarrow> ('w, 'n, 'bc, 'x) anvil_rpc \<Rightarrow> ('w, 'n, 'bc, 'x) anvil_rpc" where
  "put_task X t s =
     (let x = rpc_world s
      in s\<lparr>rpc_mining := it_mining t,
           rpc_world := tx_set_tasks X ((tx_tasks X x)\<lparr>tk_rx := it_rx t, tk_interval := it_pc t,
             tk_now := it_now t\<rparr>) x\<rparr>)"

fun act ::
  "('w, 'rx, 'n, 'f, 'bc, 'x, 'b) rpc_lib \<Rightarrow> ('x, 'q, 'u, 't, 'e, 'o, 'rc, 'b, 'rx) tx_lib
     \<Rightarrow> ('x, 'ex, 'hdr, 'env, 'ctx, 'pl) block_lib \<Rightarrow> activity
     \<Rightarrow> ('w, 'n, 'bc, 'x) anvil_rpc \<Rightarrow> ('w, 'n, 'bc, 'x) anvil_rpc" where
  "act L X B ListenerMessage s =
     (if tk_listener (tx_tasks X (rpc_world s)) = LWaiting \<and> tx_unread X (rpc_world s) \<noteq> 0
      then set_listener X LReceived (s\<lparr>rpc_world := tx_recv X (rpc_world s)\<rparr>)
      else s)"
| "act L X B ListenerStep s = listener_step L X s"
| "act L X B IntervalWoken s = put_task X (it_wake (l_watch L) (task_of X s)) s"
| "act L X B IntervalStep s = put_task X (it_run (l_watch L) (l_notify L) (task_of X s)) s"
| "act L X B (Passes k) s = put_task X ((task_of X s)\<lparr>it_now := it_now (task_of X s) + k\<rparr>) s"
| "act L X B NextBlock s =
     (if outstanding s = 0 then s
      else head_arrives X B (produce_block B (s\<lparr>rpc_mining := take_trigger (rpc_mining s)\<rparr>)))"

text \<open>
  The node is idle when neither the tasks nor the miner can go any further: only time or a
  request starts something new.
\<close>

definition idle ::
  "('w, 'rx, 'n, 'f, 'bc, 'x, 'b) rpc_lib \<Rightarrow> ('x, 'q, 'u, 't, 'e, 'o, 'rc, 'b, 'rx) tx_lib
     \<Rightarrow> ('x, 'ex, 'hdr, 'env, 'ctx, 'pl) block_lib \<Rightarrow> ('w, 'n, 'bc, 'x) anvil_rpc \<Rightarrow> bool" where
  "idle L X B s \<longleftrightarrow>
     (\<forall>a \<in> {ListenerMessage, ListenerStep, IntervalWoken, IntervalStep, NextBlock}. act L X B a s = s)"

text \<open>The time that passes in a list of activities.\<close>

fun passed :: "activity list \<Rightarrow> nat" where
  "passed [] = 0"
| "passed (Passes k # acts) = k + passed acts"
| "passed (_ # acts) = passed acts"

section \<open>What the tests rely on\<close>

definition has_receipt :: "('x, 'q, 'u, 't, 'e, 'o, 'rc, 'b, 'rx) tx_lib \<Rightarrow> 'x \<Rightarrow> b256 \<Rightarrow> bool" where
  "has_receipt X x h \<longleftrightarrow> tx_receipt X x h \<noteq> None"

text \<open>The pending transactions convert to themselves in the payload of the next block.\<close>

definition convertible :: "('x, 'q, 'u, 't, 'e, 'o, 'rc, 'b, 'rx) tx_lib \<Rightarrow> 't list \<Rightarrow> impersonation \<Rightarrow> bool" where
  "convertible X ts i \<longleftrightarrow>
     list_all (\<lambda>t. convert_tx (tx_codec_of X) i (tx_encode X t) = Inr (t, pt_sender (tx_view X) t)) ts"

text \<open>A transaction the codec reads back, sent by \<open>a\<close>.\<close>

definition sent_by :: "('x, 'q, 'u, 't, 'e, 'o, 'rc, 'b, 'rx) tx_lib \<Rightarrow> address \<Rightarrow> 't \<Rightarrow> bool" where
  "sent_by X a t \<longleftrightarrow>
     pt_sender (tx_view X) t = a \<and> decode_2718_exact (tx_codec_of X) (tx_encode X t) = Inr t \<and>
     recalculate_hash (tx_codec_of X) t = pt_hash (tx_view X) t"

text \<open>A transfer of at most one ether at a gas price of at most \<open>10 ^ 12\<close> wei.\<close>

definition small_transfer :: "tx_request \<Rightarrow> bool" where
  "small_transfer tx \<longleftrightarrow>
     tr_to tx \<noteq> None \<and> tr_input tx = None \<and>
     (\<exists>p v. tr_gas_price tx = Some p \<and> p \<le> 1000000000000 \<and>
        tr_value tx = Some v \<and> v \<le> 1000000000000000000)"

text \<open>
  \<open>eth_sendTransaction\<close>: without a signer for the sender it answers "unknown account"; otherwise
  the first signer that answers for the sender signs the filled request, and if the
  validator finds the result valid at the sender's nonce and affordable, it becomes a
  pending transaction, and the listener gets one message.
\<close>

definition send_laws ::
  "('x, 'q, 'u, 't, 'e, 'o, 'rc, 'b, 'rx) tx_lib \<Rightarrow> ('x, 'ex, 'hdr, 'env, 'ctx, 'pl) block_lib \<Rightarrow> bool" where
  "send_laws X B \<longleftrightarrow>
     (\<forall>signers validate tx x i a. tr_from tx = Some a \<longrightarrow>
        find (\<lambda>sg. sg_is_signer_for sg a) signers = None \<longrightarrow>
        (\<exists>e. tx_send X signers validate tx x i = (Inl e, x, i) \<and>
           sublist ''unknown account'' (err_message e))) \<and>
     (\<forall>signers validate tx x i a sg t balance code propagate auths i'. tr_from tx = Some a \<longrightarrow>
        find (\<lambda>sg. sg_is_signer_for sg a) signers = Some sg \<longrightarrow>
        sg_sign_transaction sg (tx_fill X tx x) a = Inr t \<longrightarrow>
        validate Local t i =
          (ValidTx balance (pt_nonce (tx_view X) t) code t propagate auths, i') \<longrightarrow>
        tx_cost X t \<le> balance \<longrightarrow>
        (\<exists>x'. tx_send X signers validate tx x i = (Inr (pt_hash (tx_view X) t), x', i') \<and>
           tx_pending X x' = tx_pending X x @ [t] \<and> tx_unread X x' = Suc (tx_unread X x) \<and>
           tx_receipt X x' = tx_receipt X x \<and> tx_hashes X x' = tx_hashes X x \<and>
           tx_tasks X x' = tx_tasks X x \<and>
           bl_best B x' = bl_best B x \<and> bl_header B x' = bl_header B x))"

text \<open>
  Building and signing: complete requests can be built; the stock signers sign for their
  accounts, recoverably, and the stock validator accepts their small transfers. With the nonce
  the fill puts in, the transaction is not on the chain yet; since there are finitely many
  hashes, that is claimed for chains of less than \<open>2 ^ 64\<close> transactions only.
\<close>

definition used :: "('x, 'q, 'u, 't, 'e, 'o, 'rc, 'b, 'rx) tx_lib \<Rightarrow> 'x \<Rightarrow> nat" where
  "used X x = card {h. has_receipt X x h} + length (tx_pending X x)"

definition new_tx :: "('x, 'q, 'u, 't, 'e, 'o, 'rc, 'b, 'rx) tx_lib \<Rightarrow> 'x \<Rightarrow> 't \<Rightarrow> bool" where
  "new_tx X x t \<longleftrightarrow> (used X x < 2 ^ 64 \<longrightarrow> \<not> has_receipt X x (pt_hash (tx_view X) t))"

definition sign_laws :: "('x, 'q, 'u, 't, 'e, 'o, 'rc, 'b, 'rx) tx_lib \<Rightarrow> bool" where
  "sign_laws X \<longleftrightarrow>
     concat (map sg_accounts (tx_signers X)) \<noteq> [] \<and>
     (\<forall>sg\<in>set (tx_signers X). \<forall>a\<in>set (sg_accounts sg). sg_is_signer_for sg a) \<and>
     (\<forall>tx x a. small_transfer tx \<longrightarrow> tr_from tx = Some a \<longrightarrow>
        (\<exists>t. tx_build X (tx_fill X tx x) (impersonated_tx_signer a) = Inr t \<and> sent_by X a t \<and>
           new_tx X x t)) \<and>
     (\<forall>sg\<in>set (tx_signers X). \<forall>tx x a. sg_is_signer_for sg a \<longrightarrow> small_transfer tx \<longrightarrow>
        tr_from tx = Some a \<longrightarrow>
        (\<exists>t balance code auths. sg_sign_transaction sg (tx_fill X tx x) a = Inr t \<and> sent_by X a t \<and>
           new_tx X x t \<and> try_recover (tx_codec_of X) t = Inr a \<and>
           tx_stock_validate X x Local t =
             ValidTx balance (pt_nonce (tx_view X) t) code t True auths \<and> tx_cost X t \<le> balance))"

text \<open>
  The pool's listener, and the blocks: a block takes the pending transactions, if its payload
  converts them to the senders the pool has for them, and they get their receipts.
\<close>

definition pool_laws ::
  "('w, 'rx, 'n, 'f, 'bc, 'x, 'b) rpc_lib \<Rightarrow> ('x, 'q, 'u, 't, 'e, 'o, 'rc, 'b, 'rx) tx_lib
     \<Rightarrow> ('x, 'ex, 'hdr, 'env, 'ctx, 'pl) block_lib \<Rightarrow> bool" where
  "pool_laws L X B \<longleftrightarrow>
     (\<forall>x. fst (l_pending_and_queued_txn_count L x) = length (tx_pending X x)) \<and>
     (\<forall>x. tx_unread X (tx_recv X x) = tx_unread X x - 1 \<and>
        tx_pending X (tx_recv X x) = tx_pending X x \<and> tx_receipt X (tx_recv X x) = tx_receipt X x \<and>
        tx_hashes X (tx_recv X x) = tx_hashes X x \<and> bl_best B (tx_recv X x) = bl_best B x \<and>
        bl_header B (tx_recv X x) = bl_header B x) \<and>
     (\<forall>s. convertible X (tx_pending X (rpc_world s)) (rpc_state s) \<longrightarrow>
        (let x = rpc_world s; x' = rpc_world (produce_block B (s :: ('w, 'n, 'bc, 'x) anvil_rpc));
             hs = map (pt_hash (tx_view X)) (tx_pending X x)
         in tx_pending X x' = [] \<and> tx_unread X x' = tx_unread X x \<and>
            (\<forall>h. has_receipt X x' h \<longleftrightarrow> has_receipt X x h \<or> h \<in> set hs) \<and>
            tx_hashes X x' = (tx_hashes X x)(bl_best B x + 1 := hs))) \<and>
     (\<forall>s n block. eth_block_by_number (l_eth L) s (Number n) True = Inr (Some block) \<longrightarrow>
        tx_full X (rb_body block) = Some (tx_hashes X (rpc_world s) n))"

text \<open>The place of the tasks' variables: nothing else touches it, and it touches nothing else.\<close>

definition place_laws ::
  "('w, 'rx, 'n, 'f, 'bc, 'x, 'b) rpc_lib \<Rightarrow> ('x, 'q, 'u, 't, 'e, 'o, 'rc, 'b, 'rx) tx_lib
     \<Rightarrow> ('x, 'ex, 'hdr, 'env, 'ctx, 'pl) block_lib \<Rightarrow> bool" where
  "place_laws L X B \<longleftrightarrow>
     (\<forall>tk x. tx_tasks X (tx_set_tasks X tk x) = tk \<and>
        tx_pending X (tx_set_tasks X tk x) = tx_pending X x \<and>
        tx_unread X (tx_set_tasks X tk x) = tx_unread X x \<and>
        tx_receipt X (tx_set_tasks X tk x) = tx_receipt X x \<and>
        tx_hashes X (tx_set_tasks X tk x) = tx_hashes X x \<and>
        bl_best B (tx_set_tasks X tk x) = bl_best B x \<and>
        bl_header B (tx_set_tasks X tk x) = bl_header B x) \<and>
     (\<forall>x. tx_tasks X (tx_recv X x) = tx_tasks X x) \<and>
     (\<forall>s :: ('w, 'n, 'bc, 'x) anvil_rpc. tx_tasks X (rpc_world (produce_block B s)) = tx_tasks X (rpc_world s))"

text \<open>
  The invariant of the interval task (\<open>track_inv\<close>, of \<open>Interval_Task\<close>), with what is
  needed to know when it wakes up: no interval is shorter than a second, the sleep that is on
  ends in time, and the channel of the mode stays open.
\<close>

definition sleep_ends :: "('w, 'rx, 'n) interval_task \<Rightarrow> bool" where
  "sleep_ends t \<longleftrightarrow>
     (case it_pc t of
        TSelect d deadline \<Rightarrow> deadline \<le> it_now t + as_nanos d
      | TDone \<Rightarrow> False
      | _ \<Rightarrow> True)"

definition tasks_ok ::
  "('w, 'rx, 'n, 'f, 'bc, 'x, 'b) rpc_lib \<Rightarrow> ('x, 'q, 'u, 't, 'e, 'o, 'rc, 'b, 'rx) tx_lib
     \<Rightarrow> ('w, 'n, 'bc, 'x) anvil_rpc \<Rightarrow> bool" where
  "tasks_ok L X s \<longleftrightarrow>
     (\<exists>attached. watch_receiver_laws (l_watch L) attached \<and>
        track_inv (l_watch L) attached (task_of X s)) \<and>
     (\<forall>w. \<not> w_closed (l_watch L) w) \<and> mode_positive (mode (l_watch L) (rpc_mining s)) \<and>
     sleep_ends (task_of X s)"

text \<open>
  The schedule. The tasks and the miner get their turns while the client or a handler sleeps,
  in any order: \<open>A\<close> lists what happens in a pause of the client. In a pause of \<open>ms\<close>
  milliseconds at least so much time passes, and the runtime runs what can be run: when the
  sleep is over the node is idle (if it had less than a thousand things to do).
\<close>

definition load ::
  "('x, 'q, 'u, 't, 'e, 'o, 'rc, 'b, 'rx) tx_lib \<Rightarrow> ('w, 'n, 'bc, 'x) anvil_rpc \<Rightarrow> nat" where
  "load X s = tx_unread X (rpc_world s) + outstanding s"

definition schedule_laws where
  "schedule_laws E X B A \<longleftrightarrow>
     (\<forall>ms s. 100 \<le> ms \<longrightarrow> tn_pause E ms s = fold (act (tn_lib E) X B) (A ms s) s) \<and>
     (\<forall>ms s. length (A ms s) < 2 ^ 16 \<and> ms * 10 ^ 6 \<le> passed (A ms s)) \<and>
     (\<forall>ms s. 100 \<le> ms \<longrightarrow> tasks_ok (tn_lib E) X s \<longrightarrow> load X s < 1000 \<longrightarrow>
        idle (tn_lib E) X B (tn_pause E ms s)) \<and>
     (\<forall>i s. tasks_ok (tn_lib E) X s \<longrightarrow> load X s < 1000 \<longrightarrow>
        (\<exists>acts. length acts < 2 ^ 16 \<and> tn_during E i s = fold (act (tn_lib E) X B) acts s \<and>
           idle (tn_lib E) X B (tn_during E i s)))"

definition tx_laws where
  "tx_laws E X B A \<longleftrightarrow>
     chain_reads E B \<and> watch_laws (l_watch (tn_lib E)) \<and> send_laws X B \<and> sign_laws X \<and>
     pool_laws (tn_lib E) X B \<and> place_laws (tn_lib E) X B \<and>
     schedule_laws E X B A \<and>
     (\<forall>s price. eth_gas_price (l_eth (tn_lib E)) s = Inr price \<longrightarrow> price \<le> 100000000000)"

text \<open>The tasks when \<open>main\<close> has spawned them: subscribed to the mode, nothing done yet.\<close>

definition tasks_spawned :: "('w, 'rx) mode_watch \<Rightarrow> 'rx node_tasks" where
  "tasks_spawned W =
     \<lparr>tk_listener = LWaiting, tk_rx = w_subscribe W (w_channel W Automine), tk_interval = TTop,
      tk_now = 0\<rparr>"

end
