(* ===== verification/Test_View.thy ===== *)
theory Test_View
  imports Test_Pool
begin

text \<open>
  What the activities of \<open>Test_Pool\<close> do. \<open>node_view\<close> is the part of the node they are about;
  they act on it as the steps of a small abstract machine, for which a whole sleep is
  computed: the blocks it makes, in automining and in the other modes. Then the interval task:
  how long it can take until it triggers a block.
\<close>

section \<open>The tasks\<close>

lemma place_lawsD:
  fixes L :: "('w, 'rx, 'n, 'f, 'bc, 'x, 'b) rpc_lib"
  assumes "place_laws L X B"
  shows "tx_tasks X (tx_set_tasks X tk x) = tk"
    and "tx_pending X (tx_set_tasks X tk x) = tx_pending X x"
    and "tx_unread X (tx_set_tasks X tk x) = tx_unread X x"
    and "tx_receipt X (tx_set_tasks X tk x) = tx_receipt X x"
    and "tx_hashes X (tx_set_tasks X tk x) = tx_hashes X x"
    and "bl_best B (tx_set_tasks X tk x) = bl_best B x"
    and "bl_header B (tx_set_tasks X tk x) = bl_header B x"
    and "tx_tasks X (tx_recv X x) = tx_tasks X x"
    and "tx_tasks X (rpc_world (produce_block B (s :: ('w, 'n, 'bc, 'x) anvil_rpc))) = tx_tasks X (rpc_world s)"
  using assms unfolding place_laws_def by blast+

text \<open>One iteration of the automine task that is not disturbed is \<open>automine_round\<close>.\<close>

lemma listener_round:
  assumes "place_laws L X B" and "pool_laws L X B"
    and "tk_listener (tx_tasks X (rpc_world s)) = LReceived"
  shows "rpc_mining ((listener_step L X ^^ 3) s) =
      automine_round (l_watch L) (l_notify L) (fst (l_pending_and_queued_txn_count L (rpc_world s)))
        (rpc_mining s)"
    and "tk_listener (tx_tasks X (rpc_world ((listener_step L X ^^ 3) s))) = LWaiting"
proof -
  have count: "fst (l_pending_and_queued_txn_count L (tx_set_tasks X tk x)) =
      fst (l_pending_and_queued_txn_count L x)" for tk x
    using assms(2) place_lawsD(2) [OF assms(1)] unfolding pool_laws_def by metis
  show "rpc_mining ((listener_step L X ^^ 3) s) =
      automine_round (l_watch L) (l_notify L) (fst (l_pending_and_queued_txn_count L (rpc_world s)))
        (rpc_mining s)"
    and "tk_listener (tx_tasks X (rpc_world ((listener_step L X ^^ 3) s))) = LWaiting"
    using assms(3)
    by (auto simp: numeral_3_eq_3 listener_step_def set_listener_def Let_def place_lawsD(1) [OF assms(1)]
        count automine_round_def)
qed

lemma task_of_simps [simp]:
  "it_mining (task_of X s) = rpc_mining s" "it_rx (task_of X s) = tk_rx (tx_tasks X (rpc_world s))"
  "it_pc (task_of X s) = tk_interval (tx_tasks X (rpc_world s))"
  "it_now (task_of X s) = tk_now (tx_tasks X (rpc_world s))"
  by (simp_all add: task_of_def Let_def)

lemma put_task_simps [simp]:
  "rpc_mining (put_task X t s) = it_mining t" "rpc_time (put_task X t s) = rpc_time s"
  "rpc_state (put_task X t s) = rpc_state s" "rpc_context (put_task X t s) = rpc_context s"
  "rpc_mining (set_listener X pc s) = rpc_mining s" "rpc_time (set_listener X pc s) = rpc_time s"
  "rpc_state (set_listener X pc s) = rpc_state s" "rpc_context (set_listener X pc s) = rpc_context s"
  by (simp_all add: put_task_def set_listener_def Let_def)

lemma put_task_world:
  assumes "place_laws L X B"
  shows "tx_tasks X (rpc_world (put_task X t s)) =
      (tx_tasks X (rpc_world s))\<lparr>tk_rx := it_rx t, tk_interval := it_pc t, tk_now := it_now t\<rparr>"
    and "tx_pending X (rpc_world (put_task X t s)) = tx_pending X (rpc_world s)"
    and "tx_unread X (rpc_world (put_task X t s)) = tx_unread X (rpc_world s)"
    and "tx_receipt X (rpc_world (put_task X t s)) = tx_receipt X (rpc_world s)"
    and "tx_hashes X (rpc_world (put_task X t s)) = tx_hashes X (rpc_world s)"
    and "bl_best B (rpc_world (put_task X t s)) = bl_best B (rpc_world s)"
    and "bl_header B (rpc_world (put_task X t s)) = bl_header B (rpc_world s)"
  by (simp_all add: put_task_def Let_def place_lawsD [OF assms])

lemma set_listener_world:
  assumes "place_laws L X B"
  shows "tx_tasks X (rpc_world (set_listener X pc s)) = (tx_tasks X (rpc_world s))\<lparr>tk_listener := pc\<rparr>"
    and "tx_pending X (rpc_world (set_listener X pc s)) = tx_pending X (rpc_world s)"
    and "tx_unread X (rpc_world (set_listener X pc s)) = tx_unread X (rpc_world s)"
    and "tx_receipt X (rpc_world (set_listener X pc s)) = tx_receipt X (rpc_world s)"
    and "tx_hashes X (rpc_world (set_listener X pc s)) = tx_hashes X (rpc_world s)"
    and "bl_best B (rpc_world (set_listener X pc s)) = bl_best B (rpc_world s)"
    and "bl_header B (rpc_world (set_listener X pc s)) = bl_header B (rpc_world s)"
  by (simp_all add: set_listener_def Let_def place_lawsD [OF assms])

text \<open>No activity changes the mode.\<close>

lemma it_run_mode [simp]: "mode_tx (it_mining (it_run W N t)) = mode_tx (it_mining t)"
  by (cases "it_pc t")
    (auto simp: it_run_def trigger_def case_prod_beta Let_def split: mining_mode.split)

lemma it_run_now [simp]: "it_now (it_run W N t) = it_now t"
  by (cases "it_pc t")
    (auto simp: it_run_def case_prod_beta Let_def split: mining_mode.split)

lemma it_wake_mining [simp]: "it_mining (it_wake W t) = it_mining t" "it_now (it_wake W t) = it_now t"
  by (simp_all add: it_wake_def)

lemma trigger_mode_tx [simp]: "mode_tx (trigger N m) = mode_tx m"
  by (simp add: trigger_def)

lemma act_mode_tx:
  assumes "block_lib_laws B"
  shows "mode_tx (rpc_mining (act L X B a s)) = mode_tx (rpc_mining s)"
  by (cases a)
    (simp_all add: listener_step_def head_arrives_def produce_block_state [OF assms] take_trigger_def
      split: listener_pc.split)

section \<open>The invariant of the tasks\<close>

lemma sleep_ends_step:
  assumes "it_step W N t t'" and "\<forall>w. \<not> w_closed W w" and "sleep_ends t"
  shows "sleep_ends t'"
  using assms(1)
  by (cases rule: it_step.cases) (use assms(2,3) in \<open>auto simp: sleep_ends_def split: task_pc.splits\<close>)

lemma track_inv_cong:
  assumes "mode_tx (it_mining t') = mode_tx (it_mining t)" "it_rx t' = it_rx t" "it_pc t' = it_pc t"
  shows "track_inv W att t' \<longleftrightarrow> track_inv W att t"
  using assms track_cong [OF assms(1), of W] by (cases "it_pc t") (simp_all add: track_inv_def)

text \<open>A step of the task, or none, followed by whatever leaves the mode and the task alone.\<close>

lemma tasks_ok_steps:
  assumes "watch_laws (l_watch L)" and "tasks_ok L X s"
    and "t = task_of X s \<or> it_step (l_watch L) N (task_of X s) t"
    and "mode_tx (rpc_mining s') = mode_tx (it_mining t)" "it_rx (task_of X s') = it_rx t"
      "it_pc (task_of X s') = it_pc t" "it_now (task_of X s') = it_now t"
    and "mode_tx (it_mining t) = mode_tx (rpc_mining s)"
  shows "tasks_ok L X s'"
proof -
  obtain att where att: "watch_receiver_laws (l_watch L) att" "track_inv (l_watch L) att (task_of X s)"
    and ok: "\<forall>w. \<not> w_closed (l_watch L) w" "mode_positive (mode (l_watch L) (rpc_mining s))"
      "sleep_ends (task_of X s)"
    using assms(2) unfolding tasks_ok_def by blast
  have "track_inv (l_watch L) att t"
    using assms(3) att(2) track_step [OF assms(1) att(1) _ att(2)] by blast
  then have "track_inv (l_watch L) att (task_of X s')"
    using track_inv_cong [of "task_of X s'" t] assms(4-7) by simp
  moreover have "sleep_ends t" using assms(3) ok(1,3) sleep_ends_step by blast
  then have "sleep_ends (task_of X s')" using assms(6,7) by (cases "it_pc t") (simp_all add: sleep_ends_def)
  moreover have "mode (l_watch L) (rpc_mining s') = mode (l_watch L) (rpc_mining s)"
    using assms(4,8) by (simp add: mode_def)
  ultimately show ?thesis using att(1) ok(1,2) unfolding tasks_ok_def by auto
qed

lemma tasks_ok_act:
  assumes "watch_laws (l_watch L)" and laws: "block_lib_laws B" "place_laws L X B" and "tasks_ok L X s"
  shows "tasks_ok L X (act L X B a s)"
proof -
  note mode = act_mode_tx [OF laws(1), of L X _ s]
  note frame = put_task_world [OF laws(2)] set_listener_world [OF laws(2)] place_lawsD [OF laws(2)]
  have task: "task_of X (put_task X t s) = t\<lparr>it_fired := 0, it_sleeps := []\<rparr>" for t
    by (simp add: task_of_def Let_def frame)
  note same = tasks_ok_steps [OF assms(1,4), of "task_of X s", simplified]
  show ?thesis
  proof (cases a)
    case IntervalWoken
    then show ?thesis
      using it_wake_step [of "l_watch L" "task_of X s" "l_notify L"]
      by (intro tasks_ok_steps [OF assms(1,4), of "it_wake (l_watch L) (task_of X s)" "l_notify L"])
        (auto simp: frame)
  next
    case IntervalStep
    then show ?thesis
      using it_run_step [of "l_watch L" "l_notify L" "task_of X s"]
      by (intro tasks_ok_steps [OF assms(1,4), of "it_run (l_watch L) (l_notify L) (task_of X s)" "l_notify L"])
        (auto simp: frame)
  next
    case (Passes k)
    then show ?thesis
      using time_passes [of "l_watch L" "l_notify L" "task_of X s" k]
      by (intro tasks_ok_steps [OF assms(1,4), of "(task_of X s)\<lparr>it_now := it_now (task_of X s) + k\<rparr>"
            "l_notify L"]) (auto simp: frame)
  next
    case ListenerMessage
    then show ?thesis
      by (intro same) (simp_all add: frame)
  next
    case ListenerStep
    then show ?thesis
      by (intro same) (auto simp: listener_step_def frame split: listener_pc.split)
  next
    case NextBlock
    then show ?thesis
      using mode [of NextBlock]
      by (intro same) (simp_all add: head_arrives_def frame)
  qed
qed

lemma tasks_ok_cong:
  assumes "mode_tx (rpc_mining s') = mode_tx (rpc_mining s)"
    and "tx_tasks X (rpc_world s') = tx_tasks X (rpc_world s)"
  shows "tasks_ok L X s' = tasks_ok L X s"
proof -
  have "mode (l_watch L) (rpc_mining s') = mode (l_watch L) (rpc_mining s)"
    using assms(1) by (simp add: mode_def)
  moreover have "track_inv W att (task_of X s') = track_inv W att (task_of X s)" for W att
    by (rule track_inv_cong) (simp_all add: assms)
  moreover have "sleep_ends (task_of X s') = sleep_ends (task_of X s)"
    by (cases "it_pc (task_of X s)") (simp_all add: sleep_ends_def assms(2))
  ultimately show ?thesis by (simp add: tasks_ok_def)
qed

text \<open>A call of the controller wakes the interval task, if it changes the mode.\<close>

lemma tasks_ok_call:
  assumes "watch_laws (l_watch L)" and "tasks_ok L X s"
    and "rpc_mining s' = mining_exec (l_watch L) N c (rpc_mining s)"
    and "tx_tasks X (rpc_world s') = tx_tasks X (rpc_world s)"
  shows "tasks_ok L X s'"
proof -
  obtain att where att: "watch_receiver_laws (l_watch L) att" "track_inv (l_watch L) att (task_of X s)"
    and ok: "\<forall>w. \<not> w_closed (l_watch L) w" "mode_positive (mode (l_watch L) (rpc_mining s))"
      "sleep_ends (task_of X s)"
    using assms(2) unfolding tasks_ok_def by blast
  have "task_of X s' = (task_of X s)\<lparr>it_mining := mining_exec (l_watch L) N c (it_mining (task_of X s))\<rparr>"
    by (simp add: task_of_def Let_def assms(3,4))
  then have "it_step (l_watch L) N (task_of X s) (task_of X s')" by (simp only: other_call)
  then have "track_inv (l_watch L) att (task_of X s')" "sleep_ends (task_of X s')"
    using track_step [OF assms(1) att(1) _ att(2)] sleep_ends_step ok(1,3) by blast+
  moreover have "mode_positive (mode (l_watch L) (rpc_mining s'))"
    using ok(2) spec_mode_positive by (simp add: assms(3) mode_exec [OF assms(1)])
  ultimately show ?thesis using att(1) ok(1) unfolding tasks_ok_def by blast
qed

section \<open>The abstract machine\<close>

text \<open>
  The part of the node the activities are about. \<open>nv_firing\<close>: the interval task is about to
  trigger; \<open>nv_ok\<close>: the invariant of the tasks.
\<close>

record 't node_view =
  nv_best :: u64
  nv_pending :: "'t list"
  nv_receipts :: "b256 set"
  nv_hashes :: "u64 \<Rightarrow> b256 list"
  nv_numbers :: "u64 \<Rightarrow> u64 option"
  nv_unread :: nat
  nv_out :: nat
  nv_mode :: mining_mode
  nv_imp :: impersonation
  nv_listener :: listener_pc
  nv_firing :: bool
  nv_ok :: bool

definition view_of where
  "view_of L X B s =
     \<lparr>nv_best = bl_best B (rpc_world s), nv_pending = tx_pending X (rpc_world s),
      nv_receipts = {h. has_receipt X (rpc_world s) h}, nv_hashes = tx_hashes X (rpc_world s),
      nv_numbers = map_option bh_number \<circ> bl_header B (rpc_world s),
      nv_unread = tx_unread X (rpc_world s), nv_out = outstanding s,
      nv_mode = mode (l_watch L) (rpc_mining s), nv_imp = rpc_state s,
      nv_listener = tk_listener (tx_tasks X (rpc_world s)),
      nv_firing = (tk_interval (tx_tasks X (rpc_world s)) = TFire), nv_ok = tasks_ok L X s\<rparr>"

lemma nv_imp_view [simp]: "nv_imp (view_of L X B s) = rpc_state s"
  by (simp add: view_of_def)

lemma nv_best_view [simp]: "nv_best (view_of L X B s) = bl_best B (rpc_world s)"
  by (simp add: view_of_def)

definition view_block :: "('t \<Rightarrow> b256) \<Rightarrow> 't node_view \<Rightarrow> 't node_view" where
  "view_block hash v =
     (let hs = map hash (nv_pending v); n = nv_best v + 1
      in v\<lparr>nv_best := n, nv_pending := [], nv_receipts := nv_receipts v \<union> set hs,
           nv_hashes := (nv_hashes v)(n := hs), nv_numbers := (nv_numbers v)(n \<mapsto> n),
           nv_out := nv_out v - 1, nv_imp := forget_tx_senders hs (nv_imp v)\<rparr>)"

text \<open>
  What an activity is to the machine: a step of the interval task only counts when it checks
  the mode at the end of its sleep, or triggers.
\<close>

datatype event = Received | Listened | Checked | Fired | Made | Unseen

definition event_of where
  "event_of X a s =
     (case a of
        ListenerMessage \<Rightarrow> Received
      | ListenerStep \<Rightarrow> Listened
      | NextBlock \<Rightarrow> Made
      | IntervalStep \<Rightarrow>
          (case tk_interval (tx_tasks X (rpc_world s)) of
             TSelect d deadline \<Rightarrow>
               if deadline \<le> tk_now (tx_tasks X (rpc_world s)) then Checked else Unseen
           | TFire \<Rightarrow> Fired
           | _ \<Rightarrow> Unseen)
      | _ \<Rightarrow> Unseen)"

fun events where
  "events L X B [] s = []"
| "events L X B (a # acts) s = event_of X a s # events L X B acts (act L X B a s)"

lemma length_events [simp]: "length (events L X B acts s) = length acts"
  by (induction acts arbitrary: s) simp_all

fun view_act :: "('t \<Rightarrow> b256) \<Rightarrow> event \<Rightarrow> 't node_view \<Rightarrow> 't node_view" where
  "view_act hash Received v =
     (if nv_listener v = LWaiting \<and> nv_unread v \<noteq> 0
      then v\<lparr>nv_unread := nv_unread v - 1, nv_listener := LReceived\<rparr> else v)"
| "view_act hash Listened v =
     (case nv_listener v of
        LWaiting \<Rightarrow> v
      | LReceived \<Rightarrow> v\<lparr>nv_listener := (if nv_mode v = Automine then LAutomine else LWaiting)\<rparr>
      | LAutomine \<Rightarrow> v\<lparr>nv_listener := (if nv_pending v \<noteq> [] then LTriggering else LWaiting)\<rparr>
      | LTriggering \<Rightarrow> v\<lparr>nv_listener := LWaiting, nv_out := Suc (nv_out v)\<rparr>)"
| "view_act hash Checked v =
     (case nv_mode v of Interval _ \<Rightarrow> v\<lparr>nv_firing := True\<rparr> | _ \<Rightarrow> v)"
| "view_act hash Fired v =
     (if nv_firing v then v\<lparr>nv_firing := False, nv_out := Suc (nv_out v)\<rparr> else v)"
| "view_act hash Made v = (if nv_out v = 0 then v else view_block hash v)"
| "view_act hash Unseen v = v"

text \<open>The tasks have done what they began, and then nothing is left to do.\<close>

definition view_calm :: "'t node_view \<Rightarrow> bool" where
  "view_calm v \<longleftrightarrow> nv_listener v = LWaiting \<and> \<not> nv_firing v \<and> nv_ok v"

definition view_settled :: "'t node_view \<Rightarrow> bool" where
  "view_settled v \<longleftrightarrow> nv_unread v = 0 \<and> nv_out v = 0 \<and> view_calm v"

lemma view_calm_ok: "view_calm v \<Longrightarrow> nv_ok v"
  by (simp add: view_calm_def)

lemma view_settled_ok: "view_settled v \<Longrightarrow> nv_ok v"
  by (simp add: view_settled_def view_calm_def)

lemma outstanding_trigger:
  assumes "outstanding s < 2 ^ 64 - 1"
  shows "outstanding (s\<lparr>rpc_mining := trigger N (rpc_mining s)\<rparr>) = Suc (outstanding s)"
  using assms by (simp add: outstanding_def trigger_def triggers_trigger_def fetch_add_def Let_def
      unat_word_ariths)

lemma mode_take_trigger [simp]: "mode W (take_trigger m) = mode W m"
  by (simp add: mode_def take_trigger_def)

lemma outstanding_take_trigger:
  "outstanding s \<noteq> 0 \<Longrightarrow>
   outstanding (s\<lparr>rpc_mining := take_trigger (rpc_mining s)\<rparr>) = outstanding s - 1"
proof -
  assume "outstanding s \<noteq> 0"
  then have "mt_pending (triggers (rpc_mining s)) \<noteq> 0" by (auto simp: outstanding_def)
  then show ?thesis by (simp add: outstanding_def take_trigger_def unat_minus_one)
qed

lemma outstanding_cong:
  "rpc_mining s' = rpc_mining s \<Longrightarrow> outstanding s' = outstanding s"
  by (simp add: outstanding_def)

lemma pool_lawsD:
  assumes "pool_laws L X B"
  shows "fst (l_pending_and_queued_txn_count L x) = length (tx_pending X x)"
    and "tx_unread X (tx_recv X x) = tx_unread X x - 1" "tx_pending X (tx_recv X x) = tx_pending X x"
    and "tx_receipt X (tx_recv X x) = tx_receipt X x" "tx_hashes X (tx_recv X x) = tx_hashes X x"
    and "bl_best B (tx_recv X x) = bl_best B x" "bl_header B (tx_recv X x) = bl_header B x"
    and "convertible X (tx_pending X (rpc_world s)) (rpc_state s) \<Longrightarrow>
      tx_pending X (rpc_world (produce_block B s)) = [] \<and>
      tx_unread X (rpc_world (produce_block B s)) = tx_unread X (rpc_world s) \<and>
      {h. has_receipt X (rpc_world (produce_block B s)) h} =
        {h. has_receipt X (rpc_world s) h} \<union> pt_hash (tx_view X) ` set (tx_pending X (rpc_world s)) \<and>
      tx_hashes X (rpc_world (produce_block B s)) = (tx_hashes X (rpc_world s))
        (bl_best B (rpc_world s) + 1 := map (pt_hash (tx_view X)) (tx_pending X (rpc_world s)))"
    and "eth_block_by_number (l_eth L) s (Number n) True = Inr (Some block) \<Longrightarrow>
      tx_full X (rb_body block) = Some (tx_hashes X (rpc_world s) n)"
  using assms unfolding pool_laws_def Let_def by auto

text \<open>The new block has its number, and the others keep theirs.\<close>

lemma produced_numbers:
  assumes "block_lib_laws B"
  shows "map_option bh_number \<circ> bl_header B (rpc_world (produce_block B s)) =
    (map_option bh_number \<circ> bl_header B (rpc_world s))(bl_best B (rpc_world s) + 1 \<mapsto> bl_best B (rpc_world s) + 1)"
proof (rule next_header_shows [OF assms, of s], goal_cases)
  case (1 h env)
  then show ?case
    by (simp add: fun_eq_iff next_header_def produce_block_state(8) [OF assms])
qed

text \<open>The laws of the library the activities use, together.\<close>

definition act_laws where
  "act_laws L X B \<longleftrightarrow>
     watch_laws (l_watch L) \<and> block_lib_laws B \<and> pool_laws L X B \<and> place_laws L X B"

lemma act_lawsD:
  assumes "act_laws L X B"
  shows "watch_laws (l_watch L)" "block_lib_laws B" "pool_laws L X B" "place_laws L X B"
  using assms unfolding act_laws_def by blast+

lemma act_refines_listener:
  assumes laws: "act_laws L X B" and small: "outstanding s < 2 ^ 64 - 1" and ok: "tasks_ok L X s"
    and "a = ListenerMessage \<or> a = ListenerStep"
  shows "view_of L X B (act L X B a s) = view_act (pt_hash (tx_view X)) (event_of X a s) (view_of L X B s)"
proof -
  note frame = set_listener_world [OF act_lawsD(4) [OF laws]] place_lawsD [OF act_lawsD(4) [OF laws]]
  have "tasks_ok L X (act L X B a s)" by (rule tasks_ok_act [OF act_lawsD(1,2,4) [OF laws] ok])
  with ok assms(4) show ?thesis
    using outstanding_trigger [OF small, of "l_notify L"]
    by (elim disjE; cases "tk_listener (tx_tasks X (rpc_world s))")
      (auto simp: view_of_def event_of_def listener_step_def frame pool_lawsD(1-7) [OF act_lawsD(3) [OF laws]]
        is_automine_mode has_receipt_def fun_eq_iff outstanding_def)
qed

lemma act_refines_interval:
  fixes L :: "('w, 'rx, 'n, 'f, 'bc, 'x, 'b) rpc_lib"
  assumes laws: "act_laws L X B" and small: "outstanding s < 2 ^ 64 - 1" and ok: "tasks_ok L X s"
    and "a = IntervalWoken \<or> a = IntervalStep \<or> a = Passes k"
  shows "view_of L X B (act L X B a s) = view_act (pt_hash (tx_view X)) (event_of X a s) (view_of L X B s)"
proof -
  note frame = put_task_world [OF act_lawsD(4) [OF laws]]
  have ok': "tasks_ok L X (act L X B a s)" by (rule tasks_ok_act [OF act_lawsD(1,2,4) [OF laws] ok])
  have mode: "mode (l_watch L) (rpc_mining (act L X B a s)) = mode (l_watch L) (rpc_mining s)"
    by (simp add: mode_def act_mode_tx [OF act_lawsD(2) [OF laws]])
  have view: "view_of L X B (act L X B a s) = (view_of L X B s)\<lparr>nv_out := outstanding (act L X B a s),
      nv_firing := (tk_interval (tx_tasks X (rpc_world (act L X B a s))) = TFire)\<rparr>"
    using assms(4) ok ok' mode
    by (elim disjE) (simp_all add: view_of_def frame has_receipt_def)
  have fires: "outstanding (put_task X (it_run (l_watch L) (l_notify L) (task_of X s)) s) =
      (if tk_interval (tx_tasks X (rpc_world s)) = TFire then Suc (outstanding s) else outstanding s)"
    using outstanding_trigger [OF small, of "l_notify L"]
    by (cases "tk_interval (tx_tasks X (rpc_world s))")
      (auto simp: outstanding_def it_run_def Let_def case_prod_beta split: mining_mode.split)
  show ?thesis
    using assms(4)
  proof (elim disjE)
    assume a: "a = IntervalStep"
    show ?thesis
      unfolding view using a fires
      by (cases "tk_interval (tx_tasks X (rpc_world s))")
        (auto simp: event_of_def view_of_def frame it_run_def mode_def Let_def case_prod_beta
          split: mining_mode.split)
  next
    assume a: "a = IntervalWoken"
    have "it_pc (it_wake (l_watch L) t) = TFire \<longleftrightarrow> it_pc t = TFire" for t :: "('w, 'rx, 'n) interval_task"
      by (auto simp: it_wake_def)
    then show ?thesis
      unfolding view by (simp add: a event_of_def view_of_def frame outstanding_def)
  next
    assume a: "a = Passes k"
    show ?thesis
      unfolding view by (simp add: a event_of_def view_of_def frame outstanding_def)
  qed
qed

lemma view_act_refines:
  assumes laws: "act_laws L X B" and small: "outstanding s < 2 ^ 64 - 1" and ok: "tasks_ok L X s"
    and conv: "convertible X (tx_pending X (rpc_world s)) (rpc_state s)"
  shows "view_of L X B (act L X B a s) = view_act (pt_hash (tx_view X)) (event_of X a s) (view_of L X B s)"
proof (cases "a = NextBlock")
  case False
  then show ?thesis
    using act_refines_listener [OF laws small ok] act_refines_interval [OF laws small ok]
    by (cases a) blast+
next
  case True
  show ?thesis
  proof (cases "outstanding s = 0")
    case True
    then show ?thesis by (simp add: \<open>a = NextBlock\<close> view_of_def event_of_def)
  next
    case False
    let ?s = "s\<lparr>rpc_mining := take_trigger (rpc_mining s)\<rparr>"
    have conv: "convertible X (tx_pending X (rpc_world ?s)) (rpc_state ?s)" using conv by simp
    have out: "outstanding (produce_block B ?s) = outstanding s - 1"
      using outstanding_take_trigger [OF False]
      by (simp add: outstanding_def produce_block_state [OF act_lawsD(2) [OF laws]])
    have "tasks_ok L X (act L X B NextBlock s)" by (rule tasks_ok_act [OF act_lawsD(1,2,4) [OF laws] ok])
    then show ?thesis
      using False pool_lawsD(8) [OF act_lawsD(3) [OF laws] conv] produced_numbers [OF act_lawsD(2) [OF laws], of ?s]
        out ok
      by (simp add: \<open>a = NextBlock\<close> view_of_def view_block_def head_arrives_def on_new_head_block_def Let_def
          produce_block_state [OF act_lawsD(2) [OF laws]] outstanding_def event_of_def
          place_lawsD [OF act_lawsD(4) [OF laws]])
  qed
qed

section \<open>Sleeps on the abstract machine\<close>

lemma view_block_simps [simp]:
  "nv_best (view_block hash v) = nv_best v + 1" "nv_pending (view_block hash v) = []"
  "nv_receipts (view_block hash v) = nv_receipts v \<union> hash ` set (nv_pending v)"
  "nv_unread (view_block hash v) = nv_unread v" "nv_out (view_block hash v) = nv_out v - 1"
  "nv_mode (view_block hash v) = nv_mode v"
  "nv_imp (view_block hash v) = forget_tx_senders (map hash (nv_pending v)) (nv_imp v)"
  "nv_hashes (view_block hash v) =
     (nv_hashes v)(nv_best v + 1 := map hash (nv_pending v))"
  "nv_numbers (view_block hash v) = (nv_numbers v)(nv_best v + 1 \<mapsto> nv_best v + 1)"
  by (simp_all add: view_block_def Let_def)

lemma view_block_frame [simp]:
  "nv_listener (view_block hash v) = nv_listener v" "nv_firing (view_block hash v) = nv_firing v"
  "nv_ok (view_block hash v) = nv_ok v"
  by (simp_all add: view_block_def Let_def)

lemma view_block_update:
  "view_block hash (v\<lparr>nv_unread := k, nv_out := m, nv_listener := l, nv_firing := f\<rparr>) =
     (view_block hash v)\<lparr>nv_unread := k, nv_out := m - 1, nv_listener := l, nv_firing := f\<rparr>"
  by (simp add: view_block_def Let_def)

lemma view_calm_simps [simp]:
  "view_calm (view_block hash v) = view_calm v" "view_calm ((view_block hash ^^ n) v) = view_calm v"
  "view_calm (v\<lparr>nv_pending := ts\<rparr>) = view_calm v" "view_calm (v\<lparr>nv_unread := k\<rparr>) = view_calm v"
  "view_calm (v\<lparr>nv_out := k\<rparr>) = view_calm v" "view_calm (v\<lparr>nv_mode := md\<rparr>) = view_calm v"
  "view_calm (v\<lparr>nv_imp := i\<rparr>) = view_calm v"
proof -
  show "view_calm ((view_block hash ^^ n) v) = view_calm v"
    by (induction n) (simp_all add: view_calm_def)
qed (simp_all add: view_calm_def)

lemma view_calm_update:
  "view_calm v \<Longrightarrow> v\<lparr>nv_unread := k, nv_out := n, nv_listener := LWaiting, nv_firing := False\<rparr> =
     v\<lparr>nv_unread := k, nv_out := n\<rparr>"
  by (simp add: view_calm_def)

lemma forget_none [simp]: "forget_tx_senders [] i = i"
  by (simp add: forget_tx_senders_def)

lemma view_blocks_simps:
  "nv_best ((view_block hash ^^ n) v) = nv_best v + of_nat n"
  "nv_mode ((view_block hash ^^ n) v) = nv_mode v"
  "nv_unread ((view_block hash ^^ n) v) = nv_unread v"
  "nv_out ((view_block hash ^^ n) v) = nv_out v - n"
  "0 < n \<Longrightarrow> nv_pending ((view_block hash ^^ n) v) = []"
  "0 < n \<Longrightarrow> nv_receipts ((view_block hash ^^ n) v) = nv_receipts v \<union> hash ` set (nv_pending v)"
  "0 < n \<Longrightarrow> nv_imp ((view_block hash ^^ n) v) = forget_tx_senders (map hash (nv_pending v)) (nv_imp v)"
proof (induction n)
  case (Suc n)
  {
    case 6
    with Suc show ?case by (cases n) simp_all
  next
    case 7
    with Suc show ?case by (cases n) simp_all
  }
qed (simp_all add: algebra_simps)

text \<open>Sending takes up a hash, and nothing else does.\<close>

definition nv_used :: "'t node_view \<Rightarrow> nat" where
  "nv_used v = card (nv_receipts v) + length (nv_pending v)"

lemma nv_used_simps [simp]:
  "nv_used (v\<lparr>nv_unread := k\<rparr>) = nv_used v" "nv_used (v\<lparr>nv_out := j\<rparr>) = nv_used v"
  "nv_used (v\<lparr>nv_mode := md\<rparr>) = nv_used v" "nv_used (v\<lparr>nv_imp := i\<rparr>) = nv_used v"
  by (simp_all add: nv_used_def)

lemma nv_used_block: "nv_used (view_block hash v) \<le> nv_used v"
proof -
  have "card (nv_receipts v \<union> hash ` set (nv_pending v)) \<le>
      card (nv_receipts v) + card (hash ` set (nv_pending v))"
    by (rule card_Un_le)
  also have "card (hash ` set (nv_pending v)) \<le> length (nv_pending v)"
    using card_image_le [of "set (nv_pending v)" hash] card_length [of "nv_pending v"] by simp
  finally show ?thesis by (simp add: nv_used_def)
qed

lemma nv_used_blocks: "nv_used ((view_block hash ^^ n) v) \<le> nv_used v"
  by (induction n) (auto intro: le_trans [OF nv_used_block])

text \<open>
  Without automining a block is made for each trigger, outstanding or of the interval task. How
  many of the latter there are: \<open>f\<close> says whether one is about to come.
\<close>

fun ticks :: "mining_mode \<Rightarrow> bool \<Rightarrow> event list \<Rightarrow> nat" where
  "ticks md f [] = 0"
| "ticks md f (Checked # evs) = ticks md (f \<or> (\<exists>d. md = Interval d)) evs"
| "ticks md f (Fired # evs) = (if f then 1 else 0) + ticks md False evs"
| "ticks md f (_ # evs) = ticks md f evs"

lemma ticks_Manual [simp]: "ticks Manual False evs = 0"
  by (induction Manual False evs rule: ticks.induct) auto

lemma ticks_le: "ticks md f evs \<le> length evs"
  by (induction md f evs rule: ticks.induct) auto

lemma sleep_not_automine:
  assumes "nv_mode v \<noteq> Automine" and "nv_listener v = LWaiting \<or> nv_listener v = LReceived"
    and "view_settled (fold (view_act hash) evs v)"
  shows "fold (view_act hash) evs v =
    (let n = nv_out v + ticks (nv_mode v) (nv_firing v) evs
     in (view_block hash ^^ n) (v\<lparr>nv_unread := 0, nv_out := n, nv_listener := LWaiting, nv_firing := False\<rparr>))"
  using assms
proof (induction evs arbitrary: v)
  case Nil
  then show ?case by (simp add: view_settled_def view_calm_def)
next
  case (Cons e evs)
  let ?v = "view_act hash e v"
  have IH: "fold (view_act hash) evs ?v = (let n = nv_out ?v + ticks (nv_mode ?v) (nv_firing ?v) evs
      in (view_block hash ^^ n) (?v\<lparr>nv_unread := 0, nv_out := n, nv_listener := LWaiting, nv_firing := False\<rparr>))"
    if "nv_mode ?v \<noteq> Automine" "nv_listener ?v = LWaiting \<or> nv_listener ?v = LReceived"
    using Cons.IH [of ?v] Cons.prems(3) that by simp
  show ?case
  proof (cases e)
    case Received
    then show ?thesis using IH Cons.prems(1,2) by (auto split: if_splits)
  next
    case Listened
    then show ?thesis using IH Cons.prems(1,2) by (auto split: if_splits)
  next
    case Checked
    then show ?thesis using IH Cons.prems(1,2) by (auto split: mining_mode.splits)
  next
    case Fired
    then show ?thesis using IH Cons.prems(1,2) by (cases "nv_firing v") auto
  next
    case Made
    show ?thesis
    proof (cases "nv_out v")
      case 0
      with Made show ?thesis using IH Cons.prems(1,2) by simp
    next
      case (Suc k)
      with Made show ?thesis
        using IH Cons.prems(1,2)
        by (auto simp: Let_def view_block_update funpow_swap1)
    qed
  next
    case Unseen
    then show ?thesis using IH Cons.prems(1,2) by simp
  qed
qed

text \<open>With automining, one message or trigger makes one block of the pending transactions.\<close>

lemma view_act_idle:
  assumes "view_settled v" and "\<forall>d. nv_mode v \<noteq> Interval d"
  shows "fold (view_act hash) evs v = v"
proof (induction evs)
  case (Cons e evs)
  with assms show ?case
    by (cases e) (auto simp: view_settled_def view_calm_def split: mining_mode.split)
qed simp

definition tokens :: "'t node_view \<Rightarrow> nat" where
  "tokens v = nv_unread v + nv_out v + (if nv_listener v = LWaiting then 0 else 1)"

lemma sleep_automine:
  assumes "nv_mode v = Automine" and "nv_pending v \<noteq> []" and "tokens v = 1" and "\<not> nv_firing v"
    and "view_settled (fold (view_act hash) evs v)"
  shows "fold (view_act hash) evs v =
    view_block hash (v\<lparr>nv_unread := 0, nv_out := 1, nv_listener := LWaiting, nv_firing := False\<rparr>)"
  using assms
proof (induction evs arbitrary: v)
  case Nil
  then show ?case by (simp add: view_settled_def view_calm_def tokens_def)
next
  case (Cons e evs)
  let ?v = "view_act hash e v"
  show ?case
  proof (cases "e = Made \<and> nv_out v \<noteq> 0")
    case True
    then have v: "nv_out v = 1" "nv_unread v = 0" "nv_listener v = LWaiting"
      using Cons.prems(3) by (auto simp: tokens_def split: if_splits)
    have block: "fold (view_act hash) (e # evs) v = fold (view_act hash) evs (view_block hash v)"
      using True by simp
    have "nv_ok v"
    proof -
      have "nv_ok (fold (view_act hash) evs w) = nv_ok w" for w
      proof (induction evs arbitrary: w)
        case (Cons e evs)
        have "nv_ok (view_act hash e w) = nv_ok w"
          by (cases e) (auto split: listener_pc.split mining_mode.split)
        with Cons show ?case by simp
      qed simp
      from this [of "view_block hash v"] Cons.prems(5) block show ?thesis
        by (simp add: view_settled_def view_calm_def)
    qed
    then have "view_settled (view_block hash v)"
      using v Cons.prems(4) by (simp add: view_settled_def view_calm_def)
    then show ?thesis
      using view_act_idle [of "view_block hash v" hash evs] Cons.prems(1,4) v block
      by simp
  next
    case False
    have "nv_mode ?v = Automine \<and> nv_pending ?v \<noteq> [] \<and> tokens ?v = 1 \<and> \<not> nv_firing ?v"
      using False Cons.prems(1-4)
      by (cases e; cases "nv_listener v") (auto simp: tokens_def)
    moreover have "?v\<lparr>nv_unread := 0, nv_out := 1, nv_listener := LWaiting, nv_firing := False\<rparr> =
        v\<lparr>nv_unread := 0, nv_out := 1, nv_listener := LWaiting, nv_firing := False\<rparr>"
      using False Cons.prems(1) by (cases e; cases "nv_listener v") auto
    ultimately show ?thesis
      using Cons.IH [of ?v] Cons.prems(5) by simp
  qed
qed

text \<open>Both, from a calm state.\<close>

lemma sleep_calm:
  assumes "nv_mode v \<noteq> Automine" and "view_calm v" and "view_settled (fold (view_act hash) evs v)"
  shows "fold (view_act hash) evs v =
    (let n = nv_out v + ticks (nv_mode v) False evs
     in (view_block hash ^^ n) (v\<lparr>nv_unread := 0, nv_out := n\<rparr>))"
  using sleep_not_automine [OF assms(1) _ assms(3)] assms(2) view_calm_update [OF assms(2)]
  by (simp add: view_calm_def)

lemma sleep_calm_automine:
  assumes "nv_mode v = Automine" and "view_calm v" and "nv_pending v \<noteq> []" and "nv_unread v + nv_out v = 1"
    and "view_settled (fold (view_act hash) evs v)"
  shows "fold (view_act hash) evs v = view_block hash (v\<lparr>nv_unread := 0, nv_out := 1\<rparr>)"
  using sleep_automine [OF assms(1,3) _ _ assms(5)] assms(2,4) view_calm_update [OF assms(2)]
  by (simp add: view_calm_def tokens_def)

section \<open>Sleeps of the node\<close>

definition view_ready where
  "view_ready X v \<longleftrightarrow>
     convertible X (nv_pending v) (nv_imp v) \<and> nv_unread v + nv_out v < 1000 \<and> view_calm v"

lemma view_sleep_refines:
  assumes laws: "act_laws L X B"
    and "nv_out (view_of L X B s) + length acts < 2 ^ 64" and "nv_ok (view_of L X B s)"
    and "convertible X (nv_pending (view_of L X B s)) (nv_imp (view_of L X B s))"
  shows "view_of L X B (fold (act L X B) acts s) =
    fold (view_act (pt_hash (tx_view X))) (events L X B acts s) (view_of L X B s)"
  using assms(2-)
proof (induction acts arbitrary: s)
  case (Cons a acts)
  let ?v = "view_of L X B s" and ?hash = "pt_hash (tx_view X)"
  let ?w = "view_act ?hash (event_of X a s) ?v"
  have step: "view_of L X B (act L X B a s) = ?w"
    by (rule view_act_refines [OF laws]) (use Cons.prems in \<open>simp_all add: view_of_def\<close>)
  have "nv_out ?w \<le> Suc (nv_out ?v) \<and> nv_ok ?w = nv_ok ?v \<and> convertible X (nv_pending ?w) (nv_imp ?w)"
    using Cons.prems(3)
    by (cases "event_of X a s") (auto simp: convertible_def split: mining_mode.split listener_pc.split)
  then show ?case
    using Cons.IH [of "act L X B a s"] Cons.prems(1,2) by (simp add: step)
qed simp

section \<open>Idle nodes\<close>

lemma idleD:
  assumes laws: "act_laws L X B" and idle: "idle L X B s"
  shows "tk_listener (tx_tasks X (rpc_world s)) = LWaiting" "tx_unread X (rpc_world s) = 0"
    "outstanding s = 0" "tk_interval (tx_tasks X (rpc_world s)) \<noteq> TFire"
    "tk_interval (tx_tasks X (rpc_world s)) \<noteq> TTop"
    "tk_interval (tx_tasks X (rpc_world s)) = TSelect d deadline \<Longrightarrow>
       tk_now (tx_tasks X (rpc_world s)) < deadline"
    "tk_interval (tx_tasks X (rpc_world s)) = TChanged \<or>
     tk_interval (tx_tasks X (rpc_world s)) = TSelect d deadline \<Longrightarrow>
       \<not> w_has_changed (l_watch L) (mode_tx (rpc_mining s)) (tk_rx (tx_tasks X (rpc_world s)))"
proof -
  let ?tk = "tx_tasks X (rpc_world s)"
  note frame = set_listener_world [OF act_lawsD(4) [OF laws]] put_task_world [OF act_lawsD(4) [OF laws]]
    place_lawsD [OF act_lawsD(4) [OF laws]]
  have still: "act L X B a s = s" if "a \<in> {ListenerMessage, ListenerStep, IntervalWoken, IntervalStep, NextBlock}" for a
    using idle that unfolding idle_def by blast
  have "tk_listener (tx_tasks X (rpc_world (listener_step L X s))) = tk_listener ?tk"
    using still [of ListenerStep] by simp
  then show listener: "tk_listener ?tk = LWaiting"
    by (cases "tk_listener ?tk") (auto simp: listener_step_def frame split: if_splits)
  have "tk_listener (tx_tasks X (rpc_world (act L X B ListenerMessage s))) = LWaiting"
    using still [of ListenerMessage] listener by simp
  then show "tx_unread X (rpc_world s) = 0"
    using listener by (simp add: frame split: if_splits)
  have "outstanding (act L X B NextBlock s) = outstanding s" using still [of NextBlock] by simp
  then show "outstanding s = 0"
    using outstanding_take_trigger [of s]
    by (simp add: head_arrives_def outstanding_def produce_block_state [OF act_lawsD(2) [OF laws]]
        split: if_splits)
  have "tk_interval (tx_tasks X (rpc_world (act L X B IntervalStep s))) = tk_interval ?tk"
    using still [of IntervalStep] by simp
  then have run: "it_pc (it_run (l_watch L) (l_notify L) (task_of X s)) = tk_interval ?tk"
    by (simp add: frame)
  then show "tk_interval ?tk \<noteq> TFire" by (auto simp: it_run_def)
  show "tk_interval ?tk \<noteq> TTop"
    using run by (auto simp: it_run_def Let_def case_prod_beta split: mining_mode.splits)
  show "tk_now ?tk < deadline" if "tk_interval ?tk = TSelect d deadline"
    using run that by (auto simp: it_run_def split: mining_mode.splits if_splits)
  have "tk_interval (tx_tasks X (rpc_world (act L X B IntervalWoken s))) = tk_interval ?tk"
    using still [of IntervalWoken] by simp
  then have "it_pc (it_wake (l_watch L) (task_of X s)) = tk_interval ?tk"
    by (simp add: frame)
  then show "\<not> w_has_changed (l_watch L) (mode_tx (rpc_mining s)) (tk_rx ?tk)"
    if "tk_interval ?tk = TChanged \<or> tk_interval ?tk = TSelect d deadline"
    using that by (auto simp: it_wake_def split: if_splits)
qed

lemma idle_settled:
  assumes "act_laws L X B" and "idle L X B s" and "tasks_ok L X s"
  shows "view_settled (view_of L X B s)"
  using idleD(1-4) [OF assms(1,2)] assms(3) by (simp add: view_settled_def view_calm_def view_of_def)

section \<open>The sleep of the interval task\<close>

text \<open>In interval mode an idle node's interval task is asleep, for at most the interval.\<close>

definition asleep where
  "asleep L X d deadline s \<longleftrightarrow>
     mode (l_watch L) (rpc_mining s) = Interval d \<and>
     tk_interval (tx_tasks X (rpc_world s)) = TSelect d deadline \<and>
     \<not> w_has_changed (l_watch L) (mode_tx (rpc_mining s)) (tk_rx (tx_tasks X (rpc_world s)))"

lemma idle_asleep:
  assumes laws: "act_laws L X B" and idle: "idle L X B s" and ok: "tasks_ok L X s"
    and mode: "mode (l_watch L) (rpc_mining s) = Interval d"
  shows "\<exists>deadline. asleep L X d deadline s \<and>
    deadline \<le> tk_now (tx_tasks X (rpc_world s)) + as_nanos d"
proof -
  let ?pc = "tk_interval (tx_tasks X (rpc_world s))"
  have track: "w_has_changed (l_watch L) (mode_tx (rpc_mining s)) (tk_rx (tx_tasks X (rpc_world s))) \<or>
      (case ?pc of TChanged \<Rightarrow> interval_mining (l_watch L) (rpc_mining s) = None
         | TSelect d _ \<Rightarrow> mode (l_watch L) (rpc_mining s) = Interval d | _ \<Rightarrow> True)"
    and ends: "sleep_ends (task_of X s)"
    using ok by (cases ?pc; auto simp: tasks_ok_def track_inv_def)+
  show ?thesis
  proof (cases ?pc)
    case (TSelect d' deadline)
    then show ?thesis
      using track ends mode idleD(7) [OF laws idle, of d' deadline]
      by (auto simp: asleep_def sleep_ends_def)
  next
    case TChanged
    then show ?thesis
      using track mode idleD(7) [OF laws idle] by (simp add: interval_mining_mode)
  qed (use ends idleD(4,5) [OF laws idle] in \<open>simp_all add: sleep_ends_def\<close>)
qed

lemma act_now:
  assumes "act_laws L X B"
  shows "tk_now (tx_tasks X (rpc_world (act L X B a s))) = tk_now (tx_tasks X (rpc_world s)) + passed [a]"
proof -
  note frame = set_listener_world [OF act_lawsD(4) [OF assms]] put_task_world [OF act_lawsD(4) [OF assms]]
    place_lawsD [OF act_lawsD(4) [OF assms]]
  show ?thesis
    by (cases a) (simp_all add: frame listener_step_def head_arrives_def split: listener_pc.split)
qed

lemma acts_now:
  assumes "act_laws L X B"
  shows "tk_now (tx_tasks X (rpc_world (fold (act L X B) acts s))) =
    tk_now (tx_tasks X (rpc_world s)) + passed acts"
proof (induction acts arbitrary: s)
  case (Cons a acts)
  have "passed (a # acts) = passed [a] + passed acts" by (cases a) simp_all
  with Cons act_now [OF assms, of a s] show ?case by simp
qed simp

text \<open>It goes on sleeping until it triggers.\<close>

lemma asleep_act:
  assumes laws: "act_laws L X B" and "\<forall>w. \<not> w_closed (l_watch L) w"
    and "asleep L X d deadline s \<or> mode (l_watch L) (rpc_mining s) = Interval d \<and>
      tk_interval (tx_tasks X (rpc_world s)) = TFire"
    and "event_of X a s \<noteq> Fired"
  shows "asleep L X d deadline s \<and> asleep L X d deadline (act L X B a s) \<and> event_of X a s \<noteq> Checked \<or>
    mode (l_watch L) (rpc_mining (act L X B a s)) = Interval d \<and>
      tk_interval (tx_tasks X (rpc_world (act L X B a s))) = TFire \<and>
      (event_of X a s = Checked \<or> tk_interval (tx_tasks X (rpc_world s)) = TFire)"
proof -
  note frame = set_listener_world [OF act_lawsD(4) [OF laws]] put_task_world [OF act_lawsD(4) [OF laws]]
    place_lawsD [OF act_lawsD(4) [OF laws]]
  have mode: "mode_tx (rpc_mining (act L X B a s)) = mode_tx (rpc_mining s)"
    by (rule act_mode_tx [OF act_lawsD(2) [OF laws]])
  show ?thesis
  proof (cases "a = IntervalWoken \<or> a = IntervalStep")
    case False
    then have "tk_interval (tx_tasks X (rpc_world (act L X B a s))) = tk_interval (tx_tasks X (rpc_world s)) \<and>
        tk_rx (tx_tasks X (rpc_world (act L X B a s))) = tk_rx (tx_tasks X (rpc_world s))"
      by (cases a) (auto simp: frame listener_step_def head_arrives_def split: listener_pc.split)
    moreover from this False have "event_of X a s \<noteq> Checked"
      by (auto simp: event_of_def split: activity.split)
    ultimately show ?thesis using assms(3) by (auto simp: asleep_def mode_def mode)
  next
    case True
    show ?thesis
    proof (cases "tk_interval (tx_tasks X (rpc_world s)) = TFire")
      case fire: True
      then have "a = IntervalWoken" using True assms(4) by (auto simp: event_of_def)
      then show ?thesis using assms(3) fire by (auto simp: asleep_def mode_def frame it_wake_def)
    next
      case fire: False
      then have sleep: "asleep L X d deadline s" using assms(3) by blast
      then have "w_borrow (l_watch L) (mode_tx (rpc_mining s)) = Interval d" by (simp add: asleep_def mode_def)
      with sleep show ?thesis
        using True assms(2)
        by (cases "deadline \<le> tk_now (tx_tasks X (rpc_world s))")
          (auto simp: asleep_def mode_def frame it_wake_def it_run_def event_of_def)
    qed
  qed
qed

lemma asleep_acts:
  assumes laws: "act_laws L X B" and closed: "\<forall>w. \<not> w_closed (l_watch L) w"
    and "asleep L X d deadline s \<or> mode (l_watch L) (rpc_mining s) = Interval d \<and>
      tk_interval (tx_tasks X (rpc_world s)) = TFire"
    and "ticks (Interval d) (tk_interval (tx_tasks X (rpc_world s)) = TFire) (events L X B acts s) = 0"
  shows "asleep L X d deadline (fold (act L X B) acts s) \<or>
    tk_interval (tx_tasks X (rpc_world (fold (act L X B) acts s))) = TFire"
  using assms(3,4)
proof (induction acts arbitrary: s)
  case (Cons a acts)
  let ?s = "act L X B a s"
  have fire: "event_of X a s = Fired \<longleftrightarrow> a = IntervalStep \<and> tk_interval (tx_tasks X (rpc_world s)) = TFire"
    by (auto simp: event_of_def split: activity.split task_pc.split)
  then have "event_of X a s \<noteq> Fired" using Cons.prems(2) by auto
  note step = asleep_act [OF laws closed Cons.prems(1) this]
  have "ticks (Interval d) (tk_interval (tx_tasks X (rpc_world ?s)) = TFire) (events L X B acts ?s) = 0"
    using step Cons.prems \<open>event_of X a s \<noteq> Fired\<close>
    by (cases "event_of X a s") (auto simp: asleep_def)
  then show ?case using Cons.IH [of ?s] step by auto
qed auto

end
