(* ===== verification/Test_Transactions.thy ===== *)
theory Test_Transactions
  imports Test_View
begin

text \<open>
  The integration tests that send transactions (src/src/main.rs): impersonation, automining,
  interval mining and \<open>anvil_mine_detailed\<close>, on a node with signers, pool and mining tasks.
\<close>

section \<open>The helpers of the test module\<close>

definition pause where
  "pause E ms s = (Inr (), tn_pause E ms s)"

fun wait_for_receipt_rounds where
  "wait_for_receipt_rounds X E 0 h = fail (Bailed ''timed out waiting for receipt'')"
| "wait_for_receipt_rounds X E (Suc rounds) h =
     and_then (eth_get_transaction_receipt X h) (\<lambda>receipt.
       case receipt of
         Some rc \<Rightarrow> give rc
       | None \<Rightarrow> and_then (pause E 100) (\<lambda>_. wait_for_receipt_rounds X E rounds h))"

definition wait_for_receipt where
  "wait_for_receipt X E h = wait_for_receipt_rounds X E 50 h"

fun assert_no_receipt where
  "assert_no_receipt X E h 0 = give ()"
| "assert_no_receipt X E h (Suc attempts) =
     and_then (eth_get_transaction_receipt X h) (\<lambda>receipt.
       if receipt \<noteq> None then fail (Bailed ''unexpected receipt'')
       else and_then (pause E 100) (\<lambda>_. assert_no_receipt X E h attempts))"

text \<open>
  What all four tests start with: a development account, and the gas price plus \<open>10 ^ 9\<close>
  (in \<open>u128\<close>, with overflow checks). A transfer, and a request that must fail.
\<close>

definition first_account where
  "first_account X =
     and_then (eth_accounts_request X) (\<lambda>dev_accounts.
       ok_or (case dev_accounts of [] \<Rightarrow> None | a # _ \<Rightarrow> Some a) ''no dev account available'')"

definition raised_gas_price where
  "raised_gas_price E =
     and_then (eth_gas_price_request E) (\<lambda>price.
     and_then (to_u128_or_panic price) (\<lambda>price.
       if unat price + 1000000000 < 2 ^ 128 then give (price + 1000000000)
       else fail (AssertionFailed ''attempt to add with overflow'')))"

definition transfer :: "address \<Rightarrow> address \<Rightarrow> 128 word \<Rightarrow> u256 \<Rightarrow> tx_request" where
  "transfer sender recipient gas_price value =
     tx_request_default\<lparr>tr_from := Some sender, tr_to := Some recipient,
       tr_gas_price := Some gas_price, tr_value := Some value\<rparr>"

definition expect_err :: "('s, 'a) test \<Rightarrow> string \<Rightarrow> ('s, test_error) test" where
  "expect_err m message s =
     (case m s of
        (Inl e, s') \<Rightarrow> (Inr e, s')
      | (Inr _, s') \<Rightarrow> (Inl (AssertionFailed message), s'))"

text \<open>The text of a client error contains the message of the error object it carries.\<close>

definition error_contains :: "test_error \<Rightarrow> string \<Rightarrow> bool" where
  "error_contains e text = (case e of Rejected err \<Rightarrow> sublist text (err_message err) | _ \<Rightarrow> False)"

section \<open>The tests\<close>

definition explicit_impersonation_allows_eth_send_transaction where
  "explicit_impersonation_allows_eth_send_transaction X E =
     and_then (first_account X) (\<lambda>funder.
     and_then (raised_gas_price E) (\<lambda>gas_price.
     let target = repeat_byte 0x11; recipient = repeat_byte 0x22
     in and_then (eth_send_transaction X (transfer funder target gas_price 1000000000000000000)) (\<lambda>funding_hash.
        and_then (wait_for_receipt X E funding_hash) (\<lambda>_.
        and_then (request_unit E ''hardhat_impersonateAccount'' (RpcImpersonateAccount target)) (\<lambda>_.
        and_then (eth_send_transaction X (transfer target recipient gas_price 1)) (\<lambda>impersonated_hash.
        and_then (wait_for_receipt X E impersonated_hash) (\<lambda>_.
        and_then (request_unit E ''hardhat_stopImpersonatingAccount'' (RpcStopImpersonatingAccount target)) (\<lambda>_.
        and_then (expect_err (eth_send_transaction X (transfer target recipient gas_price 1))
          ''stopped impersonation should reject eth_sendTransaction'') (\<lambda>err.
        ensure (error_contains err ''unknown account'') ''unexpected error after stop impersonating'')))))))))"

definition set_automine_controls_transaction_mining where
  "set_automine_controls_transaction_mining X E =
     and_then (first_account X) (\<lambda>funder.
     and_then (raised_gas_price E) (\<lambda>gas_price.
     and_then (block_number E) (\<lambda>initial_block.
     and_then (request_bool E ''anvil_getAutomine'' RpcGetAutomine) (\<lambda>enabled.
     and_then (ensure enabled ''automine should be enabled by default'') (\<lambda>_.
     and_then (request_opt_u64 E ''anvil_getIntervalMining'' RpcGetIntervalMining) (\<lambda>interval.
     and_then (ensure (interval = None) ''interval mining should be unset by default'') (\<lambda>_.
     and_then (request_unit E ''evm_setAutomine'' (RpcSetAutomineMode False)) (\<lambda>_.
     and_then (request_bool E ''anvil_getAutomine'' RpcGetAutomine) (\<lambda>enabled.
     and_then (ensure (\<not> enabled) ''automine should be disabled after evm_setAutomine(false)'') (\<lambda>_.
     and_then (request_opt_u64 E ''anvil_getIntervalMining'' RpcGetIntervalMining) (\<lambda>interval.
     and_then (ensure (interval = None) ''manual mode should not report interval mining'') (\<lambda>_.
     and_then (eth_send_transaction X (transfer funder (repeat_byte 0x33) gas_price 1)) (\<lambda>tx_hash.
     and_then (assert_no_receipt X E tx_hash 5) (\<lambda>_.
     and_then (block_number E) (\<lambda>current.
     and_then (ensure (current = initial_block) ''block number'') (\<lambda>_.
     and_then (request_unit E ''anvil_setAutomine'' (RpcSetAutomineMode True)) (\<lambda>_.
     and_then (request_bool E ''anvil_getAutomine'' RpcGetAutomine) (\<lambda>enabled.
     and_then (ensure enabled ''automine should be enabled after anvil_setAutomine(true)'') (\<lambda>_.
     and_then (request_opt_u64 E ''anvil_getIntervalMining'' RpcGetIntervalMining) (\<lambda>interval.
     and_then (ensure (interval = None) ''automine should clear interval mining'') (\<lambda>_.
     and_then (wait_for_receipt X E tx_hash) (\<lambda>_.
     and_then (block_number E) (\<lambda>current.
     and_then (plus_or_panic initial_block 1) (\<lambda>expected.
     ensure (current = expected) ''block number''))))))))))))))))))))))))"

definition set_interval_mining_controls_block_production where
  "set_interval_mining_controls_block_production X E =
     and_then (block_number E) (\<lambda>initial_block.
     and_then (request_unit E ''evm_setIntervalMining'' (RpcSetIntervalMining 2)) (\<lambda>_.
     and_then (request_bool E ''anvil_getAutomine'' RpcGetAutomine) (\<lambda>enabled.
     and_then (ensure (\<not> enabled) ''automine should be false in interval mining mode'') (\<lambda>_.
     and_then (request_opt_u64 E ''anvil_getIntervalMining'' RpcGetIntervalMining) (\<lambda>interval.
     and_then (ensure (interval = Some 2) ''interval mining should report the configured value'') (\<lambda>_.
     and_then (request_unit E ''evm_setAutomine'' (RpcSetAutomineMode False)) (\<lambda>_.
     and_then (request_opt_u64 E ''anvil_getIntervalMining'' RpcGetIntervalMining) (\<lambda>interval.
     and_then (ensure (interval = Some 2) ''disabling automine should not clear interval mining'') (\<lambda>_.
     and_then (plus_or_panic initial_block 1) (\<lambda>target.
     and_then (wait_for_block E target) (\<lambda>_.
     and_then (first_account X) (\<lambda>funder.
     and_then (raised_gas_price E) (\<lambda>gas_price.
     and_then (eth_send_transaction X (transfer funder (repeat_byte 0x44) gas_price 1)) (\<lambda>tx_hash.
     and_then (wait_for_receipt X E tx_hash) (\<lambda>_.
     and_then (request_unit E ''anvil_setIntervalMining'' (RpcSetIntervalMining 0)) (\<lambda>_.
     and_then (request_bool E ''anvil_getAutomine'' RpcGetAutomine) (\<lambda>enabled.
     and_then (ensure (\<not> enabled) ''manual mode should not report automine'') (\<lambda>_.
     and_then (request_opt_u64 E ''anvil_getIntervalMining'' RpcGetIntervalMining) (\<lambda>interval.
     and_then (ensure (interval = None) ''zero interval should disable interval mining'') (\<lambda>_.
     and_then (eth_send_transaction X (transfer funder (repeat_byte 0x55) gas_price 1)) (\<lambda>tx_hash.
     and_then (assert_no_receipt X E tx_hash 10) (\<lambda>_.
     and_then (block_number E) (\<lambda>block_after_manual.
     and_then (pause E 1200) (\<lambda>_.
     and_then (block_number E) (\<lambda>current.
     and_then (ensure (current = block_after_manual)
       ''manual mode should not keep producing interval blocks'') (\<lambda>_.
     and_then (eth_send_transaction X (transfer funder (repeat_byte 0x66) gas_price 1)) (\<lambda>tx_hash.
     and_then (assert_no_receipt X E tx_hash 5) (\<lambda>_.
     and_then (request_unit E ''anvil_mine'' (RpcMine (Some 1) (Some 0))) (\<lambda>_.
     and_then (wait_for_receipt X E tx_hash) (\<lambda>_. give ()))))))))))))))))))))))))))))))"

definition anvil_mine_detailed_returns_full_blocks where
  "anvil_mine_detailed_returns_full_blocks X E =
     and_then (request_unit E ''evm_setAutomine'' (RpcSetAutomineMode False)) (\<lambda>_.
     and_then (first_account X) (\<lambda>funder.
     and_then (raised_gas_price E) (\<lambda>gas_price.
     and_then (eth_send_transaction X (transfer funder (repeat_byte 0x77) gas_price 1)) (\<lambda>tx_hash.
     and_then (block_number E) (\<lambda>initial_block.
     and_then (request_blocks E ''anvil_mine_detailed''
       (RpcMineDetailed (Some (Options None (Some 2))))) (\<lambda>blocks.
     and_then (ensure (length blocks = 2) ''should return the requested number of blocks'') (\<lambda>_.
     and_then (plus_or_panic initial_block 1) (\<lambda>first.
     and_then (ensure (bh_number (rb_header (blocks ! 0)) = first) ''first number'') (\<lambda>_.
     and_then (plus_or_panic initial_block 2) (\<lambda>second.
     and_then (ensure (bh_number (rb_header (blocks ! 1)) = second) ''second number'') (\<lambda>_.
     and_then (ok_or (tx_full X (rb_body (blocks ! 0)))
       ''anvil_mine_detailed should return full transactions'') (\<lambda>first_block_txs.
     and_then (ensure (length first_block_txs = 1) ''pending tx should be mined into first block'') (\<lambda>_.
     and_then (ensure (first_block_txs ! 0 = tx_hash) ''first transaction'') (\<lambda>_.
     and_then (ok_or (tx_full X (rb_body (blocks ! 1)))
       ''anvil_mine_detailed should return full transactions'') (\<lambda>second_block_txs.
     and_then (ensure (second_block_txs = [])
       ''second block should be empty when there are no pending txs'') (\<lambda>_.
     and_then (wait_for_receipt X E tx_hash) (\<lambda>_.
     and_then (block_timestamp E Latest) (\<lambda>latest_timestamp.
     and_then (plus_or_panic latest_timestamp 15) (\<lambda>requested_timestamp.
     and_then (request_blocks E ''evm_mine_detailed''
       (RpcMineDetailed (Some (Timestamp (Some requested_timestamp))))) (\<lambda>blocks.
     and_then (ensure (length blocks = 1) ''one block'') (\<lambda>_.
     ensure (bh_timestamp (rb_header (blocks ! 0)) = requested_timestamp) ''requested timestamp'')))))))))))))))))))))"

section \<open>Steps of the tests\<close>

lemma tx_lawsD:
  assumes "tx_laws E X B A"
  shows "chain_reads E B" "block_lib_laws B" "watch_laws (l_watch (tn_lib E))" "send_laws X B"
    "sign_laws X" "pool_laws (tn_lib E) X B" "schedule_laws E X B A"
    "eth_gas_price (l_eth (tn_lib E)) s = Inr price \<Longrightarrow> price \<le> 100000000000"
    "act_laws (tn_lib E) X B" "place_laws (tn_lib E) X B"
  using assms unfolding tx_laws_def chain_reads_def act_laws_def by blast+

lemma find_signer:
  "find P (installed_signers X s) =
     (case find P (tx_signers X) of
        Some sg \<Rightarrow> Some sg
      | None \<Rightarrow> let sg = impersonated_eth_signer (tx_build X) (rpc_state s) in if P sg then Some sg else None)"
proof -
  have "find P (xs @ [y]) = (case find P xs of Some x \<Rightarrow> Some x | None \<Rightarrow> if P y then Some y else None)" for xs y
    by (induction xs) auto
  then show ?thesis by (simp add: installed_signers_def extend_signers_def Let_def split: option.split)
qed

text \<open>An account of the stock signers, which the first of them that answers for it signs for.\<close>

definition dev_account where
  "dev_account X a \<longleftrightarrow> (\<exists>sg. find (\<lambda>sg. sg_is_signer_for sg a) (tx_signers X) = Some sg)"

definition first_dev where
  "first_dev X = hd (concat (map sg_accounts (tx_signers X)))"

lemma first_dev:
  assumes "sign_laws X"
  shows "dev_account X (first_dev X)" "first_account X s = (Inr (first_dev X), s)"
proof -
  obtain rest where accs: "concat (map sg_accounts (tx_signers X)) = first_dev X # rest"
    using assms unfolding sign_laws_def first_dev_def by (metis list.exhaust_sel)
  then have "first_dev X \<in> set (concat (map sg_accounts (tx_signers X)))" by simp
  then obtain sg where "sg \<in> set (tx_signers X)" "first_dev X \<in> set (sg_accounts sg)" by auto
  then have "sg_is_signer_for sg (first_dev X)" "sg \<in> set (tx_signers X)"
    using assms unfolding sign_laws_def by blast+
  then show "dev_account X (first_dev X)"
    unfolding dev_account_def by (meson find_None_iff not_Some_eq)
  show "first_account X s = (Inr (first_dev X), s)"
    by (simp add: first_account_def eth_accounts_request_def answered_def and_then_def
        installed_signers_def extend_signers_def accs)
qed

lemma raised_gas_price_run:
  assumes "tx_laws E X B A"
  shows "\<exists>p. p \<le> 1000000000000 \<and> raised_gas_price E s = (Inr p, s)"
proof -
  obtain price where price: "eth_gas_price (l_eth (tn_lib E)) s = Inr price"
    using tx_lawsD(1) [OF assms] unfolding chain_reads_def by blast
  then have "unat price \<le> 100000000000"
    using tx_lawsD(8) [OF assms] by (auto simp: word_le_nat_alt)
  moreover from this have "unat (ucast price :: 128 word) = unat price"
    by (simp add: unsigned_ucast_eq take_bit_nat_eq_self)
  moreover from calculation have "unat ((ucast price :: 128 word) + 1000000000) = unat price + 1000000000"
    by (simp add: unat_word_ariths)
  ultimately show ?thesis
    by (intro exI [of _ "ucast price + 1000000000"])
      (simp add: raised_gas_price_def eth_gas_price_request_def answered_def price and_then_def
        to_u128_or_panic_def to_u128_def word_le_nat_alt)
qed

lemma small_transfer: "p \<le> 1000000000000 \<Longrightarrow> v \<le> 1000000000000000000 \<Longrightarrow> small_transfer (transfer a b p v)"
  by (simp add: small_transfer_def transfer_def tx_request_default_def)

text \<open>A sent transaction: pending, announced to the listener, new, and convertible.\<close>

definition tx_sent where
  "tx_sent L X B s s' h \<longleftrightarrow>
     (\<exists>t i. h = pt_hash (tx_view X) t \<and> h \<notin> nv_receipts (view_of L X B s) \<and>
        convert_tx (tx_codec_of X) i (tx_encode X t) = Inr (t, pt_sender (tx_view X) t) \<and>
        view_of L X B s' = (view_of L X B s)\<lparr>nv_pending := nv_pending (view_of L X B s) @ [t],
          nv_unread := Suc (nv_unread (view_of L X B s)), nv_imp := i\<rparr> \<and>
        imp_accounts i = imp_accounts (rpc_state s) \<and> auto_impersonate i = auto_impersonate (rpc_state s) \<and>
        (is_impersonated (rpc_state s) (pt_sender (tx_view X) t) \<or> i = rpc_state s) \<and>
        rpc_time s' = rpc_time s \<and> bl_header B (rpc_world s') = bl_header B (rpc_world s) \<and>
        rpc_context s' = rpc_context s)"

lemma sent_by_convert:
  assumes "sent_by X a t"
    and "tx_sender i (pt_hash (tx_view X) t) = Some a \<or>
      tx_sender i (pt_hash (tx_view X) t) = None \<and> try_recover (tx_codec_of X) t = Inr a"
  shows "convert_tx (tx_codec_of X) i (tx_encode X t) = Inr (t, pt_sender (tx_view X) t)"
  using assms by (auto simp: sent_by_def convert_tx_def)

lemma send_lawsD:
  assumes "send_laws X B" and "tr_from tx = Some a"
  shows "find (\<lambda>sg. sg_is_signer_for sg a) signers = None \<Longrightarrow>
      \<exists>e. tx_send X signers validate tx x i = (Inl e, x, i) \<and>
        sublist ''unknown account'' (err_message e)"
    and "find (\<lambda>sg. sg_is_signer_for sg a) signers = Some sg \<Longrightarrow>
      sg_sign_transaction sg (tx_fill X tx x) a = Inr t \<Longrightarrow>
      validate Local t i =
        (ValidTx balance (pt_nonce (tx_view X) t) code t propagate auths, i') \<Longrightarrow>
      tx_cost X t \<le> balance \<Longrightarrow>
      \<exists>x'. tx_send X signers validate tx x i = (Inr (pt_hash (tx_view X) t), x', i') \<and>
        tx_pending X x' = tx_pending X x @ [t] \<and> tx_unread X x' = Suc (tx_unread X x) \<and>
        tx_receipt X x' = tx_receipt X x \<and> tx_hashes X x' = tx_hashes X x \<and>
        tx_tasks X x' = tx_tasks X x \<and> bl_best B x' = bl_best B x \<and> bl_header B x' = bl_header B x"
  using assms unfolding send_laws_def by blast+

lemma send_run:
  assumes "send_laws X B" and "tr_from tx = Some a"
    and "find (\<lambda>sg. sg_is_signer_for sg a) (installed_signers X s) = Some sg"
    and "sg_sign_transaction sg (tx_fill X tx (rpc_world s)) a = Inr t" and "sent_by X a t"
    and "validate_transaction (tx_view X) (tx_stock_validate X (rpc_world s)) Local t (rpc_state s) =
      (ValidTx balance (pt_nonce (tx_view X) t) code t propagate auths, i)"
    and "tx_cost X t \<le> balance" and "new_tx X (rpc_world s) t" "nv_used (view_of L X B s) < 1000"
    and "tx_sender i (pt_hash (tx_view X) t) = Some a \<or>
      tx_sender i (pt_hash (tx_view X) t) = None \<and> try_recover (tx_codec_of X) t = Inr a"
    and "imp_accounts i = imp_accounts (rpc_state s)" "auto_impersonate i = auto_impersonate (rpc_state s)"
    and "is_impersonated (rpc_state s) a \<or> i = rpc_state s"
  shows "\<exists>h s'. eth_send_transaction X tx s = (Inr h, s') \<and> tx_sent L X B s s' h"
proof -
  let ?V = "validate_transaction (tx_view X) (tx_stock_validate X (rpc_world s))"
  have new: "pt_hash (tx_view X) t \<notin> nv_receipts (view_of L X B s)"
    using assms(8,9) by (simp add: new_tx_def used_def nv_used_def view_of_def)
  obtain x where x: "tx_send X (installed_signers X s) ?V tx (rpc_world s) (rpc_state s) =
      (Inr (pt_hash (tx_view X) t), x, i)"
    and world: "tx_pending X x = tx_pending X (rpc_world s) @ [t]"
      "tx_unread X x = Suc (tx_unread X (rpc_world s))" "tx_receipt X x = tx_receipt X (rpc_world s)"
      "tx_hashes X x = tx_hashes X (rpc_world s)" "tx_tasks X x = tx_tasks X (rpc_world s)" "bl_best B x = bl_best B (rpc_world s)"
      "bl_header B x = bl_header B (rpc_world s)"
    using send_lawsD(2) [where validate = ?V, OF assms(1-4,6,7)] by blast
  let ?s = "s\<lparr>rpc_world := x, rpc_state := i\<rparr>"
  have sender: "pt_sender (tx_view X) t = a" using assms(5) by (simp add: sent_by_def)
  have view: "view_of L X B ?s = (view_of L X B s)\<lparr>nv_pending := nv_pending (view_of L X B s) @ [t],
      nv_unread := Suc (nv_unread (view_of L X B s)), nv_imp := i\<rparr>"
    using tasks_ok_cong [of ?s s X L] by (simp add: view_of_def world has_receipt_def outstanding_def)
  have "tx_sent L X B s ?s (pt_hash (tx_view X) t)"
    unfolding tx_sent_def using view new sent_by_convert [OF assms(5,10)] assms(11-13)
    by (intro exI [of _ t] exI [of _ i]) (simp add: sender world)
  moreover have "eth_send_transaction X tx s = (Inr (pt_hash (tx_view X) t), ?s)"
    by (simp add: eth_send_transaction_def x)
  ultimately show ?thesis by blast
qed

text \<open>A development account that is not impersonated.\<close>

lemma send_dev:
  assumes "tx_laws E X B A" and "dev_account X a" and "\<not> is_impersonated (rpc_state s) a"
    and "\<forall>h. tx_sender (rpc_state s) h = None" and "p \<le> 1000000000000" and "v \<le> 1000000000000000000"
    and "nv_used (view_of (tn_lib E) X B s) < 1000"
  shows "\<exists>h s'. eth_send_transaction X (transfer a b p v) s = (Inr h, s') \<and> tx_sent (tn_lib E) X B s s' h"
proof -
  let ?tx = "transfer a b p v"
  have tx: "small_transfer ?tx" "tr_from ?tx = Some a"
    using small_transfer [OF assms(5,6)] by (simp_all add: transfer_def)
  obtain sg where sg: "find (\<lambda>sg. sg_is_signer_for sg a) (tx_signers X) = Some sg"
    using assms(2) by (auto simp: dev_account_def)
  then have "sg \<in> set (tx_signers X)" "sg_is_signer_for sg a"
    by (auto simp: find_Some_iff)
  then obtain t balance code auths where t: "sg_sign_transaction sg (tx_fill X ?tx (rpc_world s)) a = Inr t"
    "sent_by X a t" "new_tx X (rpc_world s) t" "try_recover (tx_codec_of X) t = Inr a"
    "tx_stock_validate X (rpc_world s) Local t =
      ValidTx balance (pt_nonce (tx_view X) t) code t True auths" "tx_cost X t \<le> balance"
    using tx_lawsD(5) [OF assms(1)] tx unfolding sign_laws_def by metis
  have "find (\<lambda>sg. sg_is_signer_for sg a) (installed_signers X s) = Some sg"
    using sg by (simp add: find_signer)
  moreover have "pt_sender (tx_view X) t = a" using t(2) by (simp add: sent_by_def)
  ultimately show ?thesis
    using t assms(3,4,7)
    by (intro send_run [OF tx_lawsD(4) [OF assms(1)] tx(2)]) (auto simp: validate_transaction_def)
qed

text \<open>An impersonated account without a stock signer, and one that is impersonated no more.\<close>

lemma send_impersonated:
  assumes "tx_laws E X B A" and "find (\<lambda>sg. sg_is_signer_for sg a) (tx_signers X) = None"
    and "is_impersonated (rpc_state s) a" and "p \<le> 1000000000000" and "v \<le> 1000000000000000000"
    and "nv_used (view_of (tn_lib E) X B s) < 1000"
  shows "\<exists>h s'. eth_send_transaction X (transfer a b p v) s = (Inr h, s') \<and> tx_sent (tn_lib E) X B s s' h"
proof -
  let ?tx = "transfer a b p v" and ?sg = "impersonated_eth_signer (tx_build X) (rpc_state s)"
  have tx: "small_transfer ?tx" "tr_from ?tx = Some a"
    using small_transfer [OF assms(4,5)] by (simp_all add: transfer_def)
  then obtain t where t: "tx_build X (tx_fill X ?tx (rpc_world s)) (impersonated_tx_signer a) = Inr t"
    "sent_by X a t" "new_tx X (rpc_world s) t"
    using tx_lawsD(5) [OF assms(1)] unfolding sign_laws_def by meson
  have sender: "pt_sender (tx_view X) t = a" using t(2) by (simp add: sent_by_def)
  have signer: "find (\<lambda>sg. sg_is_signer_for sg a) (installed_signers X s) = Some ?sg"
    using assms(2,3) by (simp add: find_signer impersonated_eth_signer_def is_signer_for_def)
  have sign: "sg_sign_transaction ?sg (tx_fill X ?tx (rpc_world s)) a = Inr t"
    by (simp add: impersonated_eth_signer_def eth_sign_transaction_def t(1))
  show ?thesis
    by (rule send_run [OF tx_lawsD(4) [OF assms(1)] tx(2) signer sign t(2) _ _ t(3), where balance = "- 1"
          and code = None and propagate = True and auths = None
          and i = "remember_tx_sender (pt_hash (tx_view X) t) a (rpc_state s)"])
      (use assms(3,6) in \<open>simp_all add: validate_transaction_def sender reg.sender_remember\<close>,
       simp_all add: remember_tx_sender_def)
qed

lemma send_unknown:
  assumes "tx_laws E X B A" and "find (\<lambda>sg. sg_is_signer_for sg a) (tx_signers X) = None"
    and "\<not> is_impersonated (rpc_state s) a"
  shows "\<exists>e. expect_err (eth_send_transaction X (transfer a b p v)) message s = (Inr e, s) \<and>
    error_contains e ''unknown account''"
proof -
  have "find (\<lambda>sg. sg_is_signer_for sg a) (installed_signers X s) = None"
    using assms(2,3) by (simp add: find_signer impersonated_eth_signer_def is_signer_for_def)
  moreover have "tr_from (transfer a b p v) = Some a" by (simp add: transfer_def)
  ultimately obtain e where "tx_send X (installed_signers X s)
      (validate_transaction (tx_view X) (tx_stock_validate X (rpc_world s))) (transfer a b p v)
      (rpc_world s) (rpc_state s) = (Inl e, rpc_world s, rpc_state s)"
    "sublist ''unknown account'' (err_message e)"
    using send_lawsD(1) [OF tx_lawsD(4) [OF assms(1)]] by blast
  then show ?thesis
    by (intro exI [of _ "Rejected e"]) (simp add: expect_err_def eth_send_transaction_def error_contains_def)
qed

section \<open>Sleeps and waits\<close>

lemma view_ready_ok: "view_ready X (view_of L X B s) \<Longrightarrow> tasks_ok L X s \<and> load X s < 1000"
  by (simp add: view_ready_def view_calm_def view_of_def load_def)

lemma sleep_view:
  assumes "tx_laws E X B A" and "view_ready X (view_of (tn_lib E) X B s)" and "length acts < 2 ^ 16"
    and "s' = fold (act (tn_lib E) X B) acts s" and "idle (tn_lib E) X B s'"
  shows "view_of (tn_lib E) X B s' =
      fold (view_act (pt_hash (tx_view X))) (events (tn_lib E) X B acts s) (view_of (tn_lib E) X B s)"
    and "view_settled (view_of (tn_lib E) X B s')"
proof -
  have "nv_out (view_of (tn_lib E) X B s) + length acts < 2 ^ 64"
    "convertible X (nv_pending (view_of (tn_lib E) X B s)) (nv_imp (view_of (tn_lib E) X B s))"
    "nv_ok (view_of (tn_lib E) X B s)"
    using assms(2,3) by (simp_all add: view_ready_def view_calm_def)
  then show view: "view_of (tn_lib E) X B s' =
      fold (view_act (pt_hash (tx_view X))) (events (tn_lib E) X B acts s) (view_of (tn_lib E) X B s)"
    by (simp only: assms(4) view_sleep_refines [OF tx_lawsD(9) [OF assms(1)]])
  have "tasks_ok (tn_lib E) X (fold (act (tn_lib E) X B) acts s)" if "tasks_ok (tn_lib E) X s" for s
    using that
    by (induction acts arbitrary: s)
      (simp_all del: act.simps add: tasks_ok_act [OF tx_lawsD(3,2,10) [OF assms(1)]])
  then have "tasks_ok (tn_lib E) X s'" using view_ready_ok [OF assms(2)] by (simp add: assms(4))
  then show "view_settled (view_of (tn_lib E) X B s')"
    by (rule idle_settled [OF tx_lawsD(9) [OF assms(1)] assms(5)])
qed

lemma pause_runs:
  assumes "tx_laws E X B A" and "100 \<le> ms"
  shows "tn_pause E ms s = fold (act (tn_lib E) X B) (A ms s) s" "length (A ms s) < 2 ^ 16"
    "ms * 10 ^ 6 \<le> passed (A ms s)"
    "view_ready X (view_of (tn_lib E) X B s) \<Longrightarrow> idle (tn_lib E) X B (tn_pause E ms s)"
  using tx_lawsD(7) [OF assms(1)] assms(2) view_ready_ok [of X "tn_lib E" B s]
  unfolding schedule_laws_def by blast+

lemma pause_view:
  assumes "tx_laws E X B A" and "100 \<le> ms" and "view_ready X (view_of (tn_lib E) X B s)"
  shows "view_of (tn_lib E) X B (tn_pause E ms s) =
      fold (view_act (pt_hash (tx_view X))) (events (tn_lib E) X B (A ms s) s) (view_of (tn_lib E) X B s)"
    and "view_settled (view_of (tn_lib E) X B (tn_pause E ms s))"
  by (rule sleep_view [OF assms(1,3) pause_runs(2) [OF assms(1,2)] pause_runs(1) [OF assms(1,2)]
        pause_runs(4) [OF assms]])+

lemma during_view:
  assumes "tx_laws E X B A" and "view_ready X (view_of (tn_lib E) X B s)"
  shows "\<exists>acts. length acts < 2 ^ 16 \<and> tn_during E i s = fold (act (tn_lib E) X B) acts s \<and>
    view_of (tn_lib E) X B (tn_during E i s) =
      fold (view_act (pt_hash (tx_view X))) (events (tn_lib E) X B acts s) (view_of (tn_lib E) X B s) \<and>
    view_settled (view_of (tn_lib E) X B (tn_during E i s))"
proof -
  obtain acts where acts: "length acts < 2 ^ 16" "tn_during E i s = fold (act (tn_lib E) X B) acts s"
    "idle (tn_lib E) X B (tn_during E i s)"
    using tx_lawsD(7) [OF assms(1)] view_ready_ok [OF assms(2)] unfolding schedule_laws_def by blast
  with sleep_view [OF assms acts] show ?thesis by blast
qed

text \<open>A pause in manual mode with nothing outstanding: only messages are read.\<close>

lemma manual_pause:
  assumes "tx_laws E X B A" and "100 \<le> ms" and "view_ready X (view_of (tn_lib E) X B s)"
    and "nv_mode (view_of (tn_lib E) X B s) = Manual" and "nv_out (view_of (tn_lib E) X B s) = 0"
  shows "view_of (tn_lib E) X B (tn_pause E ms s) = (view_of (tn_lib E) X B s)\<lparr>nv_unread := 0\<rparr>"
  using sleep_calm [of "view_of (tn_lib E) X B s" "pt_hash (tx_view X)" "events (tn_lib E) X B (A ms s) s"]
    pause_view [OF assms(1-3)] assms(3-5)
  by (simp add: view_ready_def)

lemma receipt_poll:
  "h \<in> nv_receipts (view_of L X B s) \<Longrightarrow> \<exists>rc. wait_for_receipt_rounds X E (Suc n) h s = (Inr rc, s)"
  "h \<notin> nv_receipts (view_of L X B s) \<Longrightarrow>
     wait_for_receipt_rounds X E (Suc n) h s = wait_for_receipt_rounds X E n h (tn_pause E 100 s)"
  "h \<notin> nv_receipts (view_of L X B s) \<Longrightarrow>
     assert_no_receipt X E h (Suc n) s = assert_no_receipt X E h n (tn_pause E 100 s)"
  by (auto simp: view_of_def has_receipt_def and_then_def eth_get_transaction_receipt_def answered_def
      pause_def)

lemma no_receipt_in_manual_mode:
  assumes "tx_laws E X B A" and "view_ready X (view_of (tn_lib E) X B s)"
    and "nv_mode (view_of (tn_lib E) X B s) = Manual" and "nv_out (view_of (tn_lib E) X B s) = 0"
    and "h \<notin> nv_receipts (view_of (tn_lib E) X B s)"
  shows "\<exists>s'. assert_no_receipt X E h (Suc n) s = (Inr (), s') \<and>
    view_of (tn_lib E) X B s' = (view_of (tn_lib E) X B s)\<lparr>nv_unread := 0\<rparr>"
  using assms(2-)
proof (induction n arbitrary: s)
  case 0
  then show ?case
    using manual_pause [OF assms(1)] by (simp add: receipt_poll(3) del: assert_no_receipt.simps(2))
next
  case (Suc n)
  let ?s = "tn_pause E 100 s"
  have view: "view_of (tn_lib E) X B ?s = (view_of (tn_lib E) X B s)\<lparr>nv_unread := 0\<rparr>"
    using Suc.prems by (intro manual_pause [OF assms(1)]) simp_all
  with Suc show ?case
    using Suc.IH [of ?s] by (simp add: receipt_poll(3) view_ready_def del: assert_no_receipt.simps(2))
qed

text \<open>With automining, the wait for a receipt takes one pause and one block.\<close>

lemma receipt_in_automine_mode:
  assumes "tx_laws E X B A" and "convertible X (nv_pending (view_of (tn_lib E) X B s)) (rpc_state s)"
    and "nv_mode (view_of (tn_lib E) X B s) = Automine"
    and "view_calm (view_of (tn_lib E) X B s)"
    and "nv_unread (view_of (tn_lib E) X B s) + nv_out (view_of (tn_lib E) X B s) = 1"
    and "h \<in> pt_hash (tx_view X) ` set (nv_pending (view_of (tn_lib E) X B s))"
    and "h \<notin> nv_receipts (view_of (tn_lib E) X B s)"
  shows "\<exists>rc s'. wait_for_receipt X E h s = (Inr rc, s') \<and>
    view_of (tn_lib E) X B s' =
      view_block (pt_hash (tx_view X)) ((view_of (tn_lib E) X B s)\<lparr>nv_unread := 0, nv_out := 1\<rparr>)"
proof -
  let ?s = "tn_pause E 100 s"
  have ready: "view_ready X (view_of (tn_lib E) X B s)"
    using assms(2,4,5) by (simp add: view_ready_def)
  have "nv_pending (view_of (tn_lib E) X B s) \<noteq> []" using assms(6) by auto
  then have view: "view_of (tn_lib E) X B ?s =
      view_block (pt_hash (tx_view X)) ((view_of (tn_lib E) X B s)\<lparr>nv_unread := 0, nv_out := 1\<rparr>)"
    using sleep_calm_automine [OF assms(3,4) _ assms(5)] pause_view [OF assms(1) _ ready, of 100] by simp
  then have "h \<in> nv_receipts (view_of (tn_lib E) X B ?s)" using assms(6) by simp
  from receipt_poll(1) [OF this, of E 48] obtain rc where
    "wait_for_receipt_rounds X E (Suc 48) h ?s = (Inr rc, ?s)" by blast
  moreover have "wait_for_receipt X E h s = wait_for_receipt_rounds X E (Suc (Suc 48)) h s"
    by (simp add: wait_for_receipt_def del: wait_for_receipt_rounds.simps)
  ultimately show ?thesis
    using receipt_poll(2) [OF assms(7), of E "Suc 48"] view by auto
qed

section \<open>Requests\<close>

lemma mode_reads:
  "request_bool E ''anvil_getAutomine'' RpcGetAutomine s =
     (Inr (nv_mode (view_of (tn_lib E) X B s) = Automine), s)"
  "request_opt_u64 E ''anvil_getIntervalMining'' RpcGetIntervalMining s =
     (Inr (case nv_mode (view_of (tn_lib E) X B s) of Interval d \<Rightarrow> Some (as_secs d) | _ \<Rightarrow> None), s)"
  by (simp_all add: request_runs registered_names_def answer_def anvil_get_automine_def
      anvil_get_interval_mining_def is_automine_mode interval_mining_mode view_of_def)

text \<open>A change of the mode, with nothing but the mining controller touched.\<close>

definition mode_changed where
  "mode_changed L X B s s' md k \<longleftrightarrow>
     view_of L X B s' = (view_of L X B s)\<lparr>nv_mode := md, nv_out := nv_out (view_of L X B s) + k\<rparr> \<and>
     rpc_time s' = rpc_time s \<and> rpc_world s' = rpc_world s \<and> rpc_state s' = rpc_state s \<and>
     rpc_context s' = rpc_context s"

lemma mode_requests:
  assumes "watch_laws (l_watch (tn_lib E))" and calm: "nv_ok (view_of (tn_lib E) X B s)"
  shows "name \<in> {''evm_setAutomine'', ''anvil_setAutomine''} \<Longrightarrow>
      \<exists>s'. request_unit E name (RpcSetAutomineMode False) s = (Inr (), s') \<and>
        mode_changed (tn_lib E) X B s s' (if nv_mode (view_of (tn_lib E) X B s) = Automine then Manual
          else nv_mode (view_of (tn_lib E) X B s)) 0"
    and "name \<in> {''evm_setIntervalMining'', ''anvil_setIntervalMining''} \<Longrightarrow>
      \<exists>s'. request_unit E name (RpcSetIntervalMining secs) s = (Inr (), s') \<and>
        mode_changed (tn_lib E) X B s s' (if secs = 0 then Manual else Interval (from_secs secs)) 0"
    and "name \<in> {''evm_setAutomine'', ''anvil_setAutomine''} \<Longrightarrow> pool_laws (tn_lib E) X B \<Longrightarrow>
      nv_pending (view_of (tn_lib E) X B s) \<noteq> [] \<Longrightarrow> nv_out (view_of (tn_lib E) X B s) < 1000 \<Longrightarrow>
      \<exists>s'. request_unit E name (RpcSetAutomineMode True) s = (Inr (), s') \<and>
        mode_changed (tn_lib E) X B s s' Automine 1"
proof -
  let ?L = "tn_lib E"
  let ?W = "l_watch ?L" and ?N = "l_notify ?L" and ?m = "rpc_mining s"
  have modes: "mode ?W (set_automine ?W b ?m) = spec_mode (SetAutomine b) (mode ?W ?m)"
    "mode ?W (set_interval_mining ?W secs ?m) = spec_mode (SetInterval secs) (mode ?W ?m)" for b
    using mode_exec [OF assms(1), of ?N "SetAutomine b"] mode_exec [OF assms(1), of ?N "SetInterval secs"]
    by simp_all
  have ok: "tasks_ok ?L X s" using calm by (simp add: view_of_def)
  have oks: "tasks_ok ?L X (s\<lparr>rpc_mining := set_automine ?W b ?m\<rparr>)"
    "tasks_ok ?L X (s\<lparr>rpc_mining := set_interval_mining ?W secs ?m\<rparr>)"
    "tasks_ok ?L X (s\<lparr>rpc_mining := trigger ?N (set_automine ?W b ?m)\<rparr>)" for b
    using tasks_ok_call [OF assms(1) ok, where N = ?N and c = "SetAutomine b"
        and s' = "s\<lparr>rpc_mining := set_automine ?W b ?m\<rparr>"]
      tasks_ok_call [OF assms(1) ok, where N = ?N and c = "SetInterval secs"
        and s' = "s\<lparr>rpc_mining := set_interval_mining ?W secs ?m\<rparr>"]
      tasks_ok_call [OF assms(1), where N = ?N and c = Trigger and s = "s\<lparr>rpc_mining := set_automine ?W b ?m\<rparr>"
        and s' = "s\<lparr>rpc_mining := trigger ?N (set_automine ?W b ?m)\<rparr>"]
    by simp_all
  {
    assume "name \<in> {''evm_setAutomine'', ''anvil_setAutomine''}"
    then show "\<exists>s'. request_unit E name (RpcSetAutomineMode False) s = (Inr (), s') \<and>
        mode_changed ?L X B s s' (if nv_mode (view_of ?L X B s) = Automine then Manual
          else nv_mode (view_of ?L X B s)) 0"
      by (intro exI [of _ "s\<lparr>rpc_mining := set_automine ?W False ?m\<rparr>"] conjI request_runs(1))
        (auto simp: registered_names_def answer_def anvil_set_automine_def Let_def mode_changed_def
          view_of_def modes outstanding_def oks ok)
  next
    assume "name \<in> {''evm_setIntervalMining'', ''anvil_setIntervalMining''}"
    then show "\<exists>s'. request_unit E name (RpcSetIntervalMining secs) s = (Inr (), s') \<and>
        mode_changed ?L X B s s' (if secs = 0 then Manual else Interval (from_secs secs)) 0"
      by (intro exI [of _ "s\<lparr>rpc_mining := set_interval_mining ?W secs ?m\<rparr>"] conjI request_runs(1))
        (auto simp: registered_names_def answer_def anvil_set_interval_mining_def mode_changed_def
          view_of_def modes outstanding_def oks ok)
  next
    assume name: "name \<in> {''evm_setAutomine'', ''anvil_setAutomine''}" and pool: "pool_laws ?L X B"
      and pending: "nv_pending (view_of ?L X B s) \<noteq> []" and out: "nv_out (view_of ?L X B s) < 1000"
    let ?s = "s\<lparr>rpc_mining := set_automine ?W True ?m\<rparr>"
    let ?t = "?s\<lparr>rpc_mining := trigger ?N (rpc_mining ?s)\<rparr>"
    have "outstanding ?s = outstanding s" by (simp add: outstanding_def)
    then have "outstanding ?t = Suc (outstanding s)"
      using outstanding_trigger [of ?s ?N] out by (simp add: view_of_def)
    then have "mode_changed ?L X B s ?t Automine 1"
      by (simp add: mode_changed_def view_of_def modes oks ok)
    moreover have "request_unit E name (RpcSetAutomineMode True) s = (Inr (), ?t)"
      using name pending
      by (intro request_runs(1))
        (auto simp: registered_names_def answer_def anvil_set_automine_def Let_def pool_lawsD(1) [OF pool]
          view_of_def)
    ultimately show "\<exists>s'. request_unit E name (RpcSetAutomineMode True) s = (Inr (), s') \<and>
        mode_changed ?L X B s s' Automine 1" by blast
  }
qed

lemma impersonation_requests:
  "request_unit E ''hardhat_impersonateAccount'' (RpcImpersonateAccount a) s =
     (Inr (), s\<lparr>rpc_state := impersonate a (rpc_state s)\<rparr>)"
  "request_unit E ''hardhat_stopImpersonatingAccount'' (RpcStopImpersonatingAccount a) s =
     (Inr (), s\<lparr>rpc_state := stop_impersonating a (rpc_state s)\<rparr>)"
  by (simp_all add: request_runs registered_names_def answer_def anvil_impersonate_account_def
      anvil_stop_impersonating_account_def)

lemma view_of_state [simp]:
  "view_of L X B (s\<lparr>rpc_state := i\<rparr>) = (view_of L X B s)\<lparr>nv_imp := i\<rparr>"
  using tasks_ok_cong [of "s\<lparr>rpc_state := i\<rparr>" s X L] by (simp add: view_of_def outstanding_def)

lemma view_fields:
  assumes "view_of L X B s = v"
  shows "bl_best B (rpc_world s) = nv_best v" "rpc_state s = nv_imp v"
  using assms by auto

text \<open>No sender is on record and nobody is impersonated.\<close>

definition plain :: "impersonation \<Rightarrow> bool" where
  "plain i \<longleftrightarrow> (\<forall>h. tx_sender i h = None) \<and> imp_accounts i = [] \<and> \<not> auto_impersonate i"

lemma plain_not_impersonated: "plain i \<Longrightarrow> \<not> is_impersonated i a"
  by (simp add: plain_def is_impersonated_def)

lemma plain_forget [simp]: "plain i \<Longrightarrow> plain (forget_tx_senders hs i)"
  by (simp add: plain_def forget_tx_senders_fold reg.sender_forgets)
    (simp add: forget_tx_senders_def flip: forget_tx_senders_fold)

lemma send_plain:
  assumes "tx_laws E X B A" and "dev_account X a" and "p \<le> 1000000000000" and "plain (rpc_state s)"
    and "nv_used (view_of (tn_lib E) X B s) < 1000"
  shows "\<exists>h s'. eth_send_transaction X (transfer a b p 1) s = (Inr h, s') \<and> tx_sent (tn_lib E) X B s s' h"
    and "\<exists>h s'. eth_send_transaction X (transfer a b p 1000000000000000000) s = (Inr h, s') \<and>
      tx_sent (tn_lib E) X B s s' h"
  by (rule send_dev [OF assms(1,2) plain_not_impersonated [OF assms(4)] _ assms(3)];
      use assms(4,5) in \<open>simp add: plain_def\<close>)+

lemma tx_sent_frame:
  assumes "tx_sent L X B s s' h"
  shows "rpc_time s' = rpc_time s" "bl_header B (rpc_world s') = bl_header B (rpc_world s)"
  using assms unfolding tx_sent_def by blast+

lemma tx_sentD:
  assumes "tx_sent L X B s s' h" and "nv_pending (view_of L X B s) = []"
  shows "h \<notin> nv_receipts (view_of L X B s')" "h \<in> pt_hash (tx_view X) ` set (nv_pending (view_of L X B s'))"
    "convertible X (nv_pending (view_of L X B s')) (rpc_state s')"
    "nv_mode (view_of L X B s') = nv_mode (view_of L X B s)"
    "nv_unread (view_of L X B s') = Suc (nv_unread (view_of L X B s))"
    "nv_out (view_of L X B s') = nv_out (view_of L X B s)"
    "map (pt_hash (tx_view X)) (nv_pending (view_of L X B s')) = [h]"
    "bl_best B (rpc_world s') = bl_best B (rpc_world s)"
    "imp_accounts (rpc_state s') = imp_accounts (rpc_state s)"
    "auto_impersonate (rpc_state s') = auto_impersonate (rpc_state s)"
    "nv_used (view_of L X B s') = Suc (nv_used (view_of L X B s))"
    "view_calm (view_of L X B s') = view_calm (view_of L X B s)"
proof -
  obtain t i where t: "h = pt_hash (tx_view X) t" "h \<notin> nv_receipts (view_of L X B s)"
    "convert_tx (tx_codec_of X) i (tx_encode X t) = Inr (t, pt_sender (tx_view X) t)"
    and view: "view_of L X B s' = (view_of L X B s)\<lparr>nv_pending := [t],
      nv_unread := Suc (nv_unread (view_of L X B s)), nv_imp := i\<rparr>"
    and frame: "imp_accounts i = imp_accounts (rpc_state s)" "auto_impersonate i = auto_impersonate (rpc_state s)"
    using assms unfolding tx_sent_def by auto
  have i: "rpc_state s' = i" "bl_best B (rpc_world s') = bl_best B (rpc_world s)"
    using view_fields(2) [OF view] view_fields(1) [OF view] by simp_all
  show "h \<notin> nv_receipts (view_of L X B s')" "h \<in> pt_hash (tx_view X) ` set (nv_pending (view_of L X B s'))"
    "convertible X (nv_pending (view_of L X B s')) (rpc_state s')"
    "nv_mode (view_of L X B s') = nv_mode (view_of L X B s)"
    "nv_unread (view_of L X B s') = Suc (nv_unread (view_of L X B s))"
    "nv_out (view_of L X B s') = nv_out (view_of L X B s)"
    "map (pt_hash (tx_view X)) (nv_pending (view_of L X B s')) = [h]"
    "bl_best B (rpc_world s') = bl_best B (rpc_world s)"
    "imp_accounts (rpc_state s') = imp_accounts (rpc_state s)"
    "auto_impersonate (rpc_state s') = auto_impersonate (rpc_state s)"
    "nv_used (view_of L X B s') = Suc (nv_used (view_of L X B s))"
    "view_calm (view_of L X B s') = view_calm (view_of L X B s)"
    using t frame assms(2) by (simp_all add: view i convertible_def) (simp add: nv_used_def)
qed

lemma forget_frame [simp]:
  "imp_accounts (forget_tx_senders hs i) = imp_accounts i"
  "auto_impersonate (forget_tx_senders hs i) = auto_impersonate i"
  by (simp_all add: forget_tx_senders_def)

text \<open>A transaction sent in automine mode: the next pause mines it, alone in its block.\<close>

lemma sent_and_mined:
  assumes "tx_laws E X B A" and "tx_sent (tn_lib E) X B s s1 h"
    and "nv_mode (view_of (tn_lib E) X B s) = Automine" and "nv_pending (view_of (tn_lib E) X B s) = []"
    and "view_settled (view_of (tn_lib E) X B s)"
  shows "\<exists>rc s2. wait_for_receipt X E h s1 = (Inr rc, s2) \<and>
    nv_mode (view_of (tn_lib E) X B s2) = Automine \<and> nv_pending (view_of (tn_lib E) X B s2) = [] \<and>
    view_settled (view_of (tn_lib E) X B s2) \<and> imp_accounts (rpc_state s2) = imp_accounts (rpc_state s) \<and>
    auto_impersonate (rpc_state s2) = auto_impersonate (rpc_state s) \<and>
    nv_used (view_of (tn_lib E) X B s2) \<le> Suc (nv_used (view_of (tn_lib E) X B s))"
proof -
  note sent = tx_sentD [OF assms(2,4)]
  have "nv_unread (view_of (tn_lib E) X B s1) + nv_out (view_of (tn_lib E) X B s1) = 1"
    and calm: "view_calm (view_of (tn_lib E) X B s1)"
    using assms(5) by (simp_all add: sent view_settled_def)
  then obtain rc s2 where s2: "wait_for_receipt X E h s1 = (Inr rc, s2)" "view_of (tn_lib E) X B s2 =
      view_block (pt_hash (tx_view X)) ((view_of (tn_lib E) X B s1)\<lparr>nv_unread := 0, nv_out := 1\<rparr>)"
    using receipt_in_automine_mode [OF assms(1) sent(3) _ calm _ sent(2,1)] assms(3) sent(4) by auto
  have "rpc_state s2 = forget_tx_senders [h] (rpc_state s1)"
    using view_fields(2) [OF s2(2)] sent(7) by simp
  moreover have "nv_used (view_of (tn_lib E) X B s2) \<le> Suc (nv_used (view_of (tn_lib E) X B s))"
    unfolding s2(2) by (rule order_trans [OF nv_used_block]) (simp add: sent(11))
  ultimately show ?thesis
    using s2 assms(3) calm by (simp add: view_settled_def sent(4,9,10))
qed

section \<open>The node passes the tests\<close>

definition tx_start where
  "tx_start L X B s \<longleftrightarrow>
     nv_mode (view_of L X B s) = Automine \<and> nv_pending (view_of L X B s) = [] \<and>
     view_settled (view_of L X B s) \<and> plain (rpc_state s) \<and> nv_used (view_of L X B s) < 900"

lemma impersonation_test_passes:
  assumes laws: "tx_laws E X B A" and start: "tx_start (tn_lib E) X B s"
    and stock: "find (\<lambda>sg. sg_is_signer_for sg (repeat_byte 0x11)) (tx_signers X) = None"
  shows "passes (explicit_impersonation_allows_eth_send_transaction X E) s"
proof -
  let ?L = "tn_lib E" and ?target = "repeat_byte 0x11"
  let ?a = "first_dev X"
  note a = first_dev [OF tx_lawsD(5) [OF laws]]
  obtain p where p: "p \<le> 1000000000000" "raised_gas_price E s = (Inr p, s)"
    using raised_gas_price_run [OF laws] by blast
  have s: "nv_mode (view_of ?L X B s) = Automine" "nv_pending (view_of ?L X B s) = []"
    "view_settled (view_of ?L X B s)" "plain (rpc_state s)" "nv_used (view_of ?L X B s) < 900"
    using start by (simp_all add: tx_start_def)
  have few: "nv_used (view_of ?L X B s) < 1000" using s(5) by simp
  obtain h1 s1 where s1: "eth_send_transaction X (transfer ?a ?target p 1000000000000000000) s = (Inr h1, s1)"
    "tx_sent ?L X B s s1 h1"
    using send_plain(2) [OF laws a(1) p(1) s(4) few] by blast
  obtain rc1 s2 where s2: "wait_for_receipt X E h1 s1 = (Inr rc1, s2)"
    "nv_mode (view_of ?L X B s2) = Automine" "nv_pending (view_of ?L X B s2) = []"
    "view_settled (view_of ?L X B s2)" "imp_accounts (rpc_state s2) = []" "\<not> auto_impersonate (rpc_state s2)"
    "nv_used (view_of ?L X B s2) < 1000"
    using sent_and_mined [OF laws s1(2) s(1-3)] s(4,5) by (auto simp: plain_def)
  let ?s3 = "s2\<lparr>rpc_state := impersonate ?target (rpc_state s2)\<rparr>"
  have s3: "nv_mode (view_of ?L X B ?s3) = Automine" "nv_pending (view_of ?L X B ?s3) = []"
    "view_settled (view_of ?L X B ?s3)"
    using s2 by (simp_all add: view_settled_def)
  have imp: "is_impersonated (rpc_state ?s3) ?target" "imp_accounts (rpc_state ?s3) = [?target]"
    "\<not> auto_impersonate (rpc_state ?s3)"
    using s2(5,6) by (simp_all add: is_impersonated_def impersonate_def)
  obtain h2 s4 where s4: "eth_send_transaction X (transfer ?target (repeat_byte 0x22) p 1) ?s3 = (Inr h2, s4)"
    "tx_sent ?L X B ?s3 s4 h2"
    using send_impersonated [OF laws stock imp(1) p(1), where b = "repeat_byte 0x22" and v = 1] s2(7) by auto
  obtain rc2 s5 where s5: "wait_for_receipt X E h2 s4 = (Inr rc2, s5)"
    "imp_accounts (rpc_state s5) = [?target]" "\<not> auto_impersonate (rpc_state s5)"
    using sent_and_mined [OF laws s4(2) s3] imp(2,3) by auto
  let ?s6 = "s5\<lparr>rpc_state := stop_impersonating ?target (rpc_state s5)\<rparr>"
  have "\<not> is_impersonated (rpc_state ?s6) ?target"
    using s5(2,3) by (simp add: is_impersonated_def stop_impersonating_def)
  then obtain e where e: "expect_err (eth_send_transaction X (transfer ?target (repeat_byte 0x22) p 1))
      ''stopped impersonation should reject eth_sendTransaction'' ?s6 = (Inr e, ?s6)"
    "error_contains e ''unknown account''"
    using send_unknown [OF laws stock] by blast
  show ?thesis
    by (simp add: explicit_impersonation_allows_eth_send_transaction_def Let_def a(2) p(2) s1(1) s2(1)
        impersonation_requests s4(1) s5(1) e)
qed

lemma automine_test_passes:
  assumes laws: "tx_laws E X B A" and start: "tx_start (tn_lib E) X B s"
    and best: "unat (bl_best B (rpc_world s)) + 1 < 2 ^ 64"
  shows "passes (set_automine_controls_transaction_mining X E) s"
proof -
  let ?L = "tn_lib E"
  let ?nv = "view_of ?L X B"
  note reads = mode_reads [where E = E and X = X and B = B]
    and modes = mode_requests [OF tx_lawsD(3) [OF laws], where X = X and B = B]
  note number = block_number_run [OF tx_lawsD(1) [OF laws]]
  let ?a = "first_dev X"
  note a = first_dev [OF tx_lawsD(5) [OF laws]]
  obtain p where p: "p \<le> 1000000000000" "raised_gas_price E s = (Inr p, s)"
    using raised_gas_price_run [OF laws] by blast
  have s: "nv_mode (?nv s) = Automine" "nv_pending (?nv s) = []" "view_settled (?nv s)" "plain (rpc_state s)"
    "nv_used (?nv s) < 900"
    using start by (simp_all add: tx_start_def)
  obtain s1 where s1: "request_unit E ''evm_setAutomine'' (RpcSetAutomineMode False) s = (Inr (), s1)"
    "mode_changed ?L X B s s1 Manual 0"
    using modes(1) [OF view_settled_ok [OF s(3)], of "''evm_setAutomine''"] s(1) by auto
  then have v1: "nv_mode (?nv s1) = Manual" "nv_pending (?nv s1) = []" "view_settled (?nv s1)"
    "rpc_state s1 = rpc_state s" "rpc_world s1 = rpc_world s" "nv_used (?nv s1) < 1000"
    using s(2,3,5) by (simp_all add: mode_changed_def view_settled_def)
  have plain: "plain (rpc_state s1)" using s(4) v1(4) by simp
  obtain h s2 where s2: "eth_send_transaction X (transfer ?a (repeat_byte 0x33) p 1) s1 = (Inr h, s2)"
    "tx_sent ?L X B s1 s2 h"
    using send_plain(1) [OF laws a(1) p(1) plain v1(6)] by blast
  note sent = tx_sentD [OF s2(2) v1(2)]
  have ready: "view_ready X (?nv s2)" and out: "nv_out (?nv s2) = 0" and manual: "nv_mode (?nv s2) = Manual"
    and calm: "view_calm (?nv s2)"
    using v1(1,3) by (simp_all add: view_ready_def sent view_settled_def)
  obtain s3 where s3: "assert_no_receipt X E h (Suc 4) s2 = (Inr (), s3)"
    "?nv s3 = (?nv s2)\<lparr>nv_unread := 0\<rparr>"
    using no_receipt_in_manual_mode [OF laws ready manual out sent(1)] by blast
  have v3: "nv_mode (?nv s3) = Manual" "nv_out (?nv s3) = 0" "nv_unread (?nv s3) = 0" "nv_pending (?nv s3) \<noteq> []"
    "bl_best B (rpc_world s3) = bl_best B (rpc_world s)" "rpc_state s3 = rpc_state s2" "view_calm (?nv s3)"
    using calm view_fields(1) [OF s3(2)] view_fields(2) [OF s3(2)] sent(2,4,8) out v1(1,5)
    by (auto simp: s3(2))
  obtain s4 where s4: "request_unit E ''anvil_setAutomine'' (RpcSetAutomineMode True) s3 = (Inr (), s4)"
    "mode_changed ?L X B s3 s4 Automine 1"
    using modes(3) [OF view_calm_ok [OF v3(7)], of "''anvil_setAutomine''"] tx_lawsD(6) [OF laws] v3 by auto
  have nv4: "?nv s4 = (?nv s2)\<lparr>nv_unread := 0, nv_mode := Automine, nv_out := 1\<rparr>"
    using s4(2) v3(2) by (simp add: mode_changed_def s3(2))
  have "rpc_state s4 = rpc_state s2" using v3(6) s4(2) by (simp add: mode_changed_def)
  moreover have "nv_pending (?nv s4) = nv_pending (?nv s2)" by (simp add: nv4)
  ultimately have "convertible X (nv_pending (?nv s4)) (rpc_state s4)" using sent(3) by simp
  then obtain rc s5 where s5: "wait_for_receipt X E h s4 = (Inr rc, s5)"
    "?nv s5 = view_block (pt_hash (tx_view X)) ((?nv s4)\<lparr>nv_unread := 0, nv_out := 1\<rparr>)"
    using receipt_in_automine_mode [OF laws, of s4 h] sent(1,2) calm by (auto simp: nv4)
  have "bl_best B (rpc_world s5) = bl_best B (rpc_world s) + 1"
    using view_fields(1) [OF s5(2)] view_fields(1) [OF nv4] sent(8) v1(5) by simp
  moreover have "plus_or_panic (bl_best B (rpc_world s)) 1 s5 = (Inr (bl_best B (rpc_world s) + 1), s5)"
    using best by (simp add: plus_or_panic_def)
  moreover have "assert_no_receipt X E h 5 s2 = (Inr (), s3)" using s3(1) by (simp add: numeral_eq_Suc)
  ultimately show ?thesis
    using s(1) v1(1) by (simp add: set_automine_controls_transaction_mining_def a(2) p(2) number reads s1(1)
        s2(1) v3(5) s4(1) nv4 s5(1))
qed

end
