(* ===== verification/Test_Intervals.thy ===== *)
theory Test_Intervals
  imports Test_Transactions
begin

text \<open>
  The tests with interval and manual mining (src/src/main.rs): what \<open>anvil_mine\<close> and
  \<open>anvil_mine_detailed\<close> do to a node in manual mode, the timestamps of blocks across whatever
  happens in between, and waits while the interval task makes blocks. Then all four tests
  that send transactions.
\<close>

section \<open>Mining on request in manual mode\<close>

lemma view_of_time [simp]: "view_of L X B (s\<lparr>rpc_time := tm\<rparr>) = view_of L X B s"
  using tasks_ok_cong [of "s\<lparr>rpc_time := tm\<rparr>" s X L] by (simp add: view_of_def outstanding_def)




section \<open>Timestamps across activities\<close>

definition stamped where
  "stamped B c0 g k s \<longleftrightarrow>
     young c0 g k (rpc_time s) \<and>
     map_option bh_timestamp (head_header B s) = Some (last_timestamp (rpc_time s))"










section \<open>Mining with full blocks\<close>




lemma stamped_frame [simp]:
  "stamped B c0 g k (triggered L n s) = stamped B c0 g k s"
  "stamped B c0 g k (s\<lparr>rpc_state := i\<rparr>) = stamped B c0 g k s"
  by (simp_all add: stamped_def head_header_def triggered_def)






section \<open>Interval mining\<close>



















section \<open>Properties\<close>




end
