(* ===== verification/Tx_Instance.thy ===== *)
theory Tx_Instance
  imports Test_Intervals Test_Instance
begin

text \<open>
  A node with transactions, for the witness of the tests that send them: the chain of
  \<open>Chain_Instance\<close>, a pool, receipts and one development account. A transaction is whether
  it is signed, its sender and its hash; only signed ones recover to their sender and pass
  the stock validator, so an impersonated account depends on the code of this program.
\<close>

section \<open>The world\<close>

type_synonym demo_tx = "bool \<times> address \<times> b256"

record tx_world =
  tw_chain :: demo_chain
  tw_pending :: "demo_tx list"
  tw_mined :: "b256 list"
  tw_hashes :: "u64 \<Rightarrow> b256 list"
  tw_unread :: nat
  tw_tasks :: "nat node_tasks"

type_synonym tx_node = "(mining_mode \<times> nat, bool, bytes, tx_world) anvil_rpc"

text \<open>A hash that is not on the chain, as long as there are fewer hashes on it than words.\<close>

definition unused_hash :: "b256 list \<Rightarrow> b256" where
  "unused_hash hs =
     (case find (\<lambda>h. h \<notin> set hs) (map word_of_nat [0..<Suc (length (remdups hs))]) of
        Some h \<Rightarrow> h
      | None \<Rightarrow> 0)"

lemma unused_hash:
  assumes "card (set hs) < 2 ^ 64"
  shows "unused_hash hs \<notin> set hs"
proof -
  let ?new = "map word_of_nat [0..<Suc (length (remdups hs))] :: b256 list"
  have len: "length (remdups hs) = card (set hs)" by (simp add: length_remdups_card_conv)
  have "inj_on (word_of_nat :: nat \<Rightarrow> b256) {0..<Suc (card (set hs))}"
  proof (rule inj_onI)
    fix i j assume "i \<in> {0..<Suc (card (set hs))}" "j \<in> {0..<Suc (card (set hs))}"
    then have "i < 2 ^ 256" "j < 2 ^ 256" using assms by auto
    moreover assume "(word_of_nat i :: b256) = word_of_nat j"
    then have "unat (word_of_nat i :: b256) = unat (word_of_nat j :: b256)" by simp
    ultimately show "i = j" by (simp add: unsigned_of_nat take_bit_nat_eq_self)
  qed
  then have "card (set ?new) = Suc (card (set hs))"
    by (simp only: set_map set_upt len card_image card_atLeastLessThan)
  moreover have "card (set ?new) \<le> card (set hs)" if "set ?new \<subseteq> set hs"
    using that by (simp only: card_mono finite_set)
  ultimately have "\<not> set ?new \<subseteq> set hs" by fastforce
  then obtain h where "find (\<lambda>h. h \<notin> set hs) ?new = Some h"
    by (cases "find (\<lambda>h. h \<notin> set hs) ?new") (auto simp only: find_None_iff)
  then show ?thesis
    unfolding unused_hash_def by (simp only: option.case) (blast dest: find_Some_iff [THEN iffD1])
qed

section \<open>The library\<close>

definition tx_bytes :: "demo_tx \<Rightarrow> bytes" where
  "tx_bytes t = (if fst t then 1 else 0) # address_bytes (fst (snd t)) @ word_bytes (snd (snd t))"

definition tx_parse :: "bytes \<Rightarrow> string + demo_tx" where
  "tx_parse z =
     (case demo_from_be_slice (drop 21 z) of
        Some h \<Rightarrow> Inr (hd z = 1, word_of_nat (be_value (take 20 (tl z))), h)
      | None \<Rightarrow> Inl ''invalid transaction'')"


definition demo_signer :: "(b256, demo_tx) eth_signer" where
  "demo_signer =
     \<lparr>sg_accounts = [repeat_byte 0xD0], sg_is_signer_for = (\<lambda>a. a = repeat_byte 0xD0),
      sg_sign = (\<lambda>_ _. Inl CouldNotSign),
      sg_sign_transaction = (\<lambda>h a. Inr (True, a, h))\<rparr>"

definition demo_tx_send ::
  "(b256, demo_tx) eth_signer list
     \<Rightarrow> (transaction_origin \<Rightarrow> demo_tx \<Rightarrow> impersonation \<Rightarrow> (demo_tx, unit) validation_outcome \<times> impersonation)
     \<Rightarrow> tx_request \<Rightarrow> tx_world \<Rightarrow> impersonation \<Rightarrow> (rpc_error + b256) \<times> tx_world \<times> impersonation" where
  "demo_tx_send signers validate tx x i =
     (case Option.bind (tr_from tx) (\<lambda>a. map_option (Pair a) (find (\<lambda>sg. sg_is_signer_for sg a) signers)) of
        None \<Rightarrow> (Inl (invalid_params ''unknown account''), x, i)
      | Some (a, sg) \<Rightarrow>
          (case sg_sign_transaction sg (unused_hash (tw_mined x)) a of
             Inl e \<Rightarrow> (Inl (invalid_params ''failed to sign''), x, i)
           | Inr t \<Rightarrow>
               (case validate Local t i of
                  (ValidTx balance nonce code t' propagate auths, i') \<Rightarrow>
                    if 2000000000000000000 \<le> balance
                    then (Inr (snd (snd t)),
                          x\<lparr>tw_pending := tw_pending x @ [t], tw_unread := Suc (tw_unread x)\<rparr>, i')
                    else (Inl (invalid_params ''insufficient funds''), x, i')
                | (OtherOutcome e, i') \<Rightarrow> (Inl (invalid_params ''invalid transaction''), x, i'))))"

definition demo_tx_lib ::
  "(tx_world, b256, unit, demo_tx, unit, unit, unit, b256 list, nat) tx_lib" where
  "demo_tx_lib =
     \<lparr>tx_signers = [demo_signer], tx_fill = (\<lambda>tx x. unused_hash (tw_mined x)),
      tx_build = (\<lambda>h signer. Inr (False, signer_address signer, h)),
      tx_view = \<lparr>pt_hash = (\<lambda>t. snd (snd t)), pt_sender = (\<lambda>t. fst (snd t)), pt_nonce = (\<lambda>_. 0)\<rparr>,
      tx_cost = (\<lambda>_. 2000000000000000000),
      tx_stock_validate = (\<lambda>x origin t. if fst t then ValidTx (10 ^ 22) 0 None t True None else OtherOutcome ()),
      tx_send = demo_tx_send,
      tx_codec_of = \<lparr>decode_2718_exact = tx_parse, recalculate_hash = (\<lambda>t. snd (snd t)),
        try_recover = (\<lambda>t. if fst t then Inr (fst (snd t)) else Inl ''invalid signature'')\<rparr>,
      tx_encode = tx_bytes, tx_pending = tw_pending,
      tx_receipt = (\<lambda>x h. if h \<in> set (tw_mined x) then Some () else None),
      tx_hashes = tw_hashes, tx_unread = tw_unread,
      tx_recv = (\<lambda>x. x\<lparr>tw_unread := tw_unread x - 1\<rparr>), tx_full = Some,
      tx_tasks = tw_tasks, tx_set_tasks = (\<lambda>tk x. x\<lparr>tw_tasks := tk\<rparr>)\<rparr>"


definition demo_tx_eth :: "(tx_node, b256 list) eth_api" where
  "demo_tx_eth =
     \<lparr>eth_gas_price = (\<lambda>_. Inr 8),
      eth_block_by_number = (\<lambda>s tag full.
        let x = rpc_world s;
            n = (case tag of Number n \<Rightarrow> n | Earliest \<Rightarrow> 0 | _ \<Rightarrow> fst (tw_chain x))
        in Inr (map_option (\<lambda>h. \<lparr>rb_header = h, rb_body = tw_hashes x n\<rparr>) (fst (snd (tw_chain x)) n))),
      eth_create_access_list = (\<lambda>s tx. Inr []),
      eth_call = (\<lambda>s tx ov. Inr [])\<rparr>"

definition demo_rpc_tx_lib ::
  "(mining_mode \<times> nat, nat, bool, unit, bytes, tx_world, b256 list) rpc_lib" where
  "demo_rpc_tx_lib =
     \<lparr>l_watch = demo_watch, l_notify = demo_notify, l_code = test_code, l_leaf = demo_leaf,
      l_dump = test_dump_codec, l_eth = demo_tx_eth,
      l_pending_and_queued_txn_count = (\<lambda>x. (length (tw_pending x), 0)),
      l_remove_transaction = (\<lambda>h x. (if h \<in> (snd \<circ> snd) ` set (tw_pending x) then Some h else None,
         x\<lparr>tw_pending := filter (\<lambda>t. snd (snd t) \<noteq> h) (tw_pending x)\<rparr>)),
      l_all_transaction_hashes = (\<lambda>x. map (snd \<circ> snd) (tw_pending x)),
      l_remove_transactions = (\<lambda>hs x. x\<lparr>tw_pending := filter (\<lambda>t. snd (snd t) \<notin> set hs) (tw_pending x)\<rparr>),
      l_remove_transactions_by_sender = (\<lambda>a x.
        (map (snd \<circ> snd) (filter (\<lambda>t. fst (snd t) = a) (tw_pending x)),
         x\<lparr>tw_pending := filter (\<lambda>t. fst (snd t) \<noteq> a) (tw_pending x)\<rparr>)),
      l_basic_account = (\<lambda>x. sp_basic_account demo_provider),
      l_best_block_number = (\<lambda>x. Inr (fst (tw_chain x))),
      l_header_timestamp = (\<lambda>x n. Inr (map_option bh_timestamp (fst (snd (tw_chain x)) n))),
      l_dump_state_collect = (\<lambda>x. Inr []),
      l_from_be_slice = demo_from_be_slice,
      l_git_sha = None\<rparr>"







section \<open>Its laws\<close>



lemma demo_tx_lib_simps [simp]:
  "tx_pending demo_tx_lib = tw_pending" "tx_hashes demo_tx_lib = tw_hashes"
  "tx_unread demo_tx_lib = tw_unread" "tx_tasks demo_tx_lib = tw_tasks"
  "tx_set_tasks demo_tx_lib tk x = x\<lparr>tw_tasks := tk\<rparr>"
  "has_receipt demo_tx_lib x h \<longleftrightarrow> h \<in> set (tw_mined x)"
  by (simp_all add: demo_tx_lib_def has_receipt_def)







lemma demo_rpc_tx_watch [simp]: "l_watch demo_rpc_tx_lib = demo_watch"
  by (simp add: demo_rpc_tx_lib_def)


section \<open>Its schedule\<close>












lemma demo_watch_simps [simp]:
  "w_borrow demo_watch w = fst w" "w_borrow_and_update demo_watch w rx = w"
  "w_has_changed demo_watch w rx \<longleftrightarrow> rx < snd w" "w_mark_seen demo_watch w rx = snd w"
  "w_closed demo_watch w = False"
  by (simp_all add: demo_watch_def)










section \<open>The witness\<close>


end
