(* ===== verification/Spec2Isabelle.thy ===== *)
theory Spec2Isabelle
  imports Time_Race Reset_Race Evm_Config Mining_Race Interval_Task Mode_Race Rpc_Mining
    Rpc_Accounts Rpc_Dump Rpc_Time_Pool Rpc_Erc20 Rpc_Contracts Balance_Race Node Node_Wiring
    Chain_Instance Node_Launch Test_Instance Tx_Instance
begin

text \<open>
  anvil-reth, a local Ethereum development node: a verification library of its Rust sources
  (src/src/*.rs).

  The program puts the control surface of Anvil (the \<open>anvil_*\<close> JSON-RPC methods, with their
  \<open>hardhat_*\<close> and \<open>evm_*\<close> aliases) on top of a Reth node. It keeps five pieces of shared
  state, each behind handles that are cloned to whoever needs them: the impersonation state,
  the time manager, the mining controller, the block-environment overrides and the local
  account state. The RPC handlers write them; the pool validator, the EVM configuration, the
  payload hook of the local miner, the state overlay of the ETH API and two mining tasks
  read them (and consume parts of them).

  Theories and the code they model:

  - \<open>Anvil_Prelude\<close>: machine types, saturating and truncating arithmetic, results of
    fallible handlers (a value, an error object, a panic), \<open>HashMap\<close>, \<open>HashSet\<close> and \<open>BTreeMap\<close>
    with their common interface \<open>finite_map\<close>, runs of calls, the interface \<open>one_shot\<close> of a
    cell that is consumed once.
  - \<open>Block_Env\<close> (block_env.rs): the overrides as a record; the base fee is a \<open>one_shot\<close>.
  - \<open>Time_Manager\<close> (time.rs): every operation over an explicit wall clock; the next
    timestamp against a reference definition, ordering and spacing of block timestamps, the
    clock after an exact block, a \<open>set_time\<close>, an \<open>increase_time\<close>, and the wrap of the cast to
    \<open>u64\<close>; interface \<open>block_clock\<close>. \<open>Time_Race\<close>: the miner against timestamp requests, one lock
    acquisition a step: order of timestamps, lost and stale requests. \<open>Reset_Race\<close>: the miner
    against \<open>set_time\<close>, which takes three locks.
  - \<open>Impersonation\<close> (impersonation.rs): state and signer, refinement of an abstract
    specification, interface \<open>sender_registry\<close>. \<open>Pool_Validator\<close> and \<open>Pool_Builder\<close> (pool.rs):
    the wrapped validator and the builder that installs it. \<open>Evm_Config\<close> (evm.rs): block
    environments and the sender of payload transactions.
  - \<open>Anvil_State\<close> (state.rs): the account overrides, interface \<open>account_store\<close>, invariant
    \<open>as_wf\<close>. \<open>State_Provider\<close> (state_provider.rs, eth_builder.rs): the overlay over an arbitrary
    provider. \<open>State_Dump\<close> (state_dump.rs): conversion, merge, JSON form and byte formats;
    the merged dump refines the overlay; round trips.
  - \<open>Mining\<close> (mining.rs): mode, controller, trigger stream and automine task, interface
    \<open>trigger_source\<close>. \<open>Mining_Race\<close>: triggers and polls, one atomic operation a step.
    \<open>Mode_Race\<close>: concurrent mode changes, one access of the watch channel a step.
    \<open>Interval_Task\<close>: the interval task against mode changes and time, one access of the
    channel or one trigger a step (its check of the mode and its trigger are two).
  - \<open>Block_Source\<close> (block_source.rs), \<open>Node_Config\<close>, \<open>Rpc_State\<close>, \<open>Rpc_Handlers\<close>, \<open>Rpc_Api\<close>
    (anvil_api.rs): the ETH API as the code calls it, the configuration, the shared state
    and the helper methods, the 33 handlers, and their names and dispatch. What they do:
    \<open>Rpc_Mining\<close> (waiting, mining, intervals), \<open>Rpc_Accounts\<close> (account reads, balances, number
    ranges), \<open>Balance_Race\<close> (concurrent \<open>anvil_addBalance\<close>), \<open>Rpc_Dump\<close> (dump and load),
    \<open>Rpc_Time_Pool\<close> (time and pool), \<open>Rpc_Erc20\<close> (slot search, node information),
    \<open>Rpc_Contracts\<close> (footprints and error codes of all requests). \<open>Rpc_Instance\<close> is
    one concrete node for the witnesses.
  - \<open>Node\<close> (main.rs): the initial state, everything that acts on it, and the invariant of
    all runs. A run contains whole requests and, so that handlers may interleave, every single
    write to the impersonation and the account state as a step of its own; the parts the
    invariant does not speak of may change arbitrarily. \<open>Node_Wiring\<close> (main.rs): the handles each part gets, and that acting through
    them is acting on one shared state. \<open>Block_Production\<close>: a block of the local miner end to
    end, through the payload hook and the EVM configuration, and what requests it shows;
    \<open>Chain_Instance\<close> is a node with a chain for its witnesses. \<open>Node_Launch\<close> (main.rs,
    test_helpers.rs): configuration, launch and tasks around the wiring, over the library's
    builders and launcher.
  - \<open>Test_Client\<close> (test_helpers.rs and the test module of main.rs): the HTTP client of the
    integration tests as a monad of requests and assertions over the modelled node.
    \<open>Test_Accounts\<close>, \<open>Test_Mining\<close> (over \<open>Test_Miner\<close>), \<open>Test_Dump\<close>, \<open>Test_Transactions\<close> and
    \<open>Test_Intervals\<close> (over \<open>Test_Pool\<close>, which has the two tasks and the miner as activities, and
    \<open>Test_View\<close>, where the model refines an abstract machine for them): the twenty tests, and
    that the node passes them.
    \<open>Test_Instance\<close> and \<open>Tx_Instance\<close> are the nodes of their witnesses.

  Modelling decisions. A record field is a field of the source; an operation is a function
  on the record, or on the record and what the operation reads of the outside (the wall
  clock, a provider). Operations under one lock, or on one field, are one step; where several
  locks or atomics are involved and the order matters, a step relation with one acquisition
  or atomic operation a step stands beside the sequential definition (the \<open>_Race\<close> theories).
  Handlers that sleep take what happens meanwhile as a function argument; the other handlers,
  and each call of the ETH API, are one step. A panic is a result of its own (\<open>Panic\<close>, or
  \<open>None\<close> below the handlers); with the release profile's \<open>panic = "abort"\<close> it ends the
  process. Integers keep their width; \<open>i128\<close> is an integer with saturation written out.
  Bounds: the wait of the mining handlers is 200 rounds and the waits of the test client are
  200 and 50 polls, as in the source, and are the only fuel; the poll loop of the trigger
  stream is a partial function, proved to end.

  Parameters. Third-party code is an argument: hashing and bytecode analysis (\<open>code_ops\<close>),
  the wrapped state provider, validator and EVM configuration, the encodings of numbers and
  bytes in JSON (\<open>leaf_codec\<close>), JSON text and gzip (\<open>dump_codec\<close>), tokio's watch channel
  (\<open>watch_ops\<close>) and \<open>Notify\<close> (\<open>notify_ops\<close>), the ETH API (\<open>eth_api\<close>), the chain
  specification, pool and provider (\<open>rpc_lib\<close>), block building and sealing (\<open>block_lib\<close>), the
  stock \<open>eth_*\<close> handlers the tests call (\<open>stock_eth\<close>, \<open>tx_lib\<close>), configuration and launch
  (\<open>config_lib\<close>, \<open>launch_lib\<close>). Where a theorem needs their
  documented behaviour it is a named hypothesis (\<open>code_laws\<close>, \<open>leaf_laws\<close>, \<open>dump_codec_laws\<close>,
  \<open>watch_laws\<close>, \<open>watch_receiver_laws\<close>, \<open>notify_laws\<close>, \<open>block_lib_laws\<close>, and for the tests
  \<open>client_laws\<close>, \<open>evm_laws\<close>, \<open>dump_env\<close>, \<open>chain_laws\<close>, \<open>fee_market\<close>, \<open>tx_laws\<close>), and the witness
  gives an instance. \<open>notify_laws\<close> is what \<open>notify_one\<close> promises with a single future: a second
  call on a waiting future leaves a permit behind (\<open>permit_notify\<close> is an instance that does).

  Not modelled: the code that the \<open>rpc\<close> macro generates, represented by its documented
  effect; \<open>Debug\<close> implementations; the line \<open>main\<close> prints. What the launcher of the library
  does with the parts is given by \<open>part_step\<close>. For a block it is taken to call the payload hook
  once and then to build one block environment (\<open>produce_block\<close>). In the tests that send
  transactions the tasks and the miner act while the client or a waiting handler sleeps, not
  between two requests, step by step and in an order that is left open; the runtime is assumed
  to run them until the node is idle before a sleep of a tenth of a second is over
  (\<open>schedule_laws\<close>), without which those tests can fail. When the interval task triggers is not
  assumed: it follows from its steps and the time that passes (\<open>timer_in_time\<close>).
\<close>

end
